(* ===== verification/Xair_Prelude.thy ===== *)
theory Xair_Prelude
  imports Complex_Main "HOL-Library.AList" "HOL-Library.Sublist" "HOL-Library.Log_Nat"
begin

text \<open>
  Shared vocabulary of the development: Python's dictionaries as association lists that keep
  insertion order, Python's floats, the string functions the runtime calls
  (\<^verbatim>\<open>split\<close>, \<^verbatim>\<open>strip\<close>, \<^verbatim>\<open>startswith\<close>, \<^verbatim>\<open>lower\<close>, number formatting) and the generic lemmas the
  component theories rest on. Strings are lists of ASCII characters.
\<close>

named_theorems dict_simps \<open>lookups after dictionary updates\<close>
named_theorems str_simps \<open>evaluation of the string functions\<close>

section \<open>Dictionaries\<close>

type_synonym ('k, 'v) dict = "('k \<times> 'v) list"

text \<open>
  \<^verbatim>\<open>d[k] = v\<close> keeps the position of an existing key and appends a new one, which is what
  \<^const>\<open>AList.update\<close> does; \<^verbatim>\<open>d.pop(k, None)\<close> is \<^const>\<open>AList.delete\<close> and \<^verbatim>\<open>d.get(k)\<close> is \<^const>\<open>map_of\<close>.
\<close>

abbreviation dict_set :: "'k \<Rightarrow> 'v \<Rightarrow> ('k, 'v) dict \<Rightarrow> ('k, 'v) dict" where
  "dict_set \<equiv> AList.update"

abbreviation dict_pop :: "'k \<Rightarrow> ('k, 'v) dict \<Rightarrow> ('k, 'v) dict" where
  "dict_pop \<equiv> AList.delete"

definition dict_get :: "('k, 'v) dict \<Rightarrow> 'k \<Rightarrow> 'v \<Rightarrow> 'v" where
  "dict_get d k dflt = (case map_of d k of None \<Rightarrow> dflt | Some v \<Rightarrow> v)"

lemma map_of_dict_set [simp, dict_simps]:
  "map_of (dict_set k v d) k' = (if k' = k then Some v else map_of d k')"
  by (simp add: update_conv')

lemma map_of_dict_pop [simp, dict_simps]:
  "map_of (dict_pop k d) k' = (if k' = k then None else map_of d k')"
  by (simp add: delete_conv')

lemma dict_get_set [simp, dict_simps]:
  "dict_get (dict_set k v d) k' x = (if k' = k then v else dict_get d k' x)"
  by (simp add: dict_get_def)

abbreviation wf_dict :: "('k, 'v) dict \<Rightarrow> bool" where
  "wf_dict d \<equiv> distinct (map fst d)"

lemma wf_dict_set [simp, intro]: "wf_dict d \<Longrightarrow> wf_dict (dict_set k v d)"
  by (rule distinct_update)

lemma set_dict_set:
  "wf_dict d \<Longrightarrow> set (dict_set k v d) = insert (k, v) {p \<in> set d. fst p \<noteq> k}"
  by (induction d) (auto simp: rev_image_eqI)

lemma fst_set_dict_set [simp]: "fst ` set (dict_set k v d) = insert k (fst ` set d)"
  by (induction d) auto

lemma dict_set_id: "map_of d k = Some v \<Longrightarrow> dict_set k v d = d"
  by (induction d) auto

lemma map_of_filter_val:
  "wf_dict d \<Longrightarrow>
   map_of (filter (\<lambda>p. P (fst p) (snd p)) d) k =
     (case map_of d k of None \<Rightarrow> None | Some v \<Rightarrow> if P k v then Some v else None)"
proof (induction d)
  case (Cons p d)
  have "fst p \<notin> fst ` set (filter (\<lambda>p. P (fst p) (snd p)) d)"
    using Cons.prems by auto
  then have "map_of (filter (\<lambda>p. P (fst p) (snd p)) d) (fst p) = None"
    by (simp add: map_of_eq_None_iff)
  with Cons show ?case by (cases p) (auto split: option.splits)
qed simp

lemma wf_dict_filter [simp, intro]: "wf_dict d \<Longrightarrow> wf_dict (filter P d)"
  by (simp add: distinct_map_filter)

section \<open>Floats\<close>

text \<open>
  A Python float is a rational, an infinity or not-a-number. Comparison follows IEEE 754:
  every comparison with \<^term>\<open>NaN\<close> is false except \<^verbatim>\<open>!=\<close>. Instants and durations (milliseconds)
  are exact rationals: the rounding of their sums, below a microsecond for current epochs, is
  not modelled. Decimal text is rounded to the nearest double when it is read.
\<close>

datatype pyfloat = Fin rat | PosInf | NegInf | NaN

fun flt_eq :: "pyfloat \<Rightarrow> pyfloat \<Rightarrow> bool" where
  "flt_eq (Fin a) (Fin b) = (a = b)"
| "flt_eq PosInf PosInf = True"
| "flt_eq NegInf NegInf = True"
| "flt_eq _ _ = False"

fun flt_lt :: "pyfloat \<Rightarrow> pyfloat \<Rightarrow> bool" where
  "flt_lt (Fin a) (Fin b) = (a < b)"
| "flt_lt (Fin a) PosInf = True"
| "flt_lt NegInf (Fin b) = True"
| "flt_lt NegInf PosInf = True"
| "flt_lt _ _ = False"

definition flt_le :: "pyfloat \<Rightarrow> pyfloat \<Rightarrow> bool" where
  "flt_le a b = (flt_lt a b \<or> flt_eq a b)"

lemma flt_eq_sym: "flt_eq a b = flt_eq b a"
  by (cases a; cases b) auto

lemma flt_eq_trans: "flt_eq a b \<Longrightarrow> flt_eq b c \<Longrightarrow> flt_eq a c"
  by (cases a; cases b; cases c) auto

lemma flt_eq_lt: "flt_eq a b \<Longrightarrow> flt_lt a c = flt_lt b c" "flt_eq a b \<Longrightarrow> flt_lt c a = flt_lt c b"
  by (cases a; cases b; cases c; auto)+

lemma flt_eq_eq: "flt_eq a b \<Longrightarrow> flt_eq a c = flt_eq b c" "flt_eq a b \<Longrightarrow> flt_eq c a = flt_eq c b"
  by (cases a; cases b; cases c; auto)+

definition pow2 :: "int \<Rightarrow> rat" where
  "pow2 e = (if 0 \<le> e then 2 ^ nat e else 1 / 2 ^ nat (- e))"

definition round_half_even :: "rat \<Rightarrow> int" where
  "round_half_even x =
     (let f = \<lfloor>x\<rfloor>; r = x - of_int f
      in if r < 1 / 2 then f else if r > 1 / 2 then f + 1 else if even f then f else f + 1)"

definition rat_exponent :: "rat \<Rightarrow> int" where
  "rat_exponent x =
     (case quotient_of x of (n, d) \<Rightarrow>
        let e = int (floorlog 2 (nat n)) - int (floorlog 2 (nat d))
        in if pow2 e \<le> x then e else e - 1)"

definition double_of_pos :: "rat \<Rightarrow> pyfloat" where
  "double_of_pos x =
     (let q = max (rat_exponent x - 52) (- 1074);
          r = of_int (round_half_even (x / pow2 q)) * pow2 q
      in if r < pow2 1024 then Fin r else PosInf)"

definition flt_neg :: "pyfloat \<Rightarrow> pyfloat" where
  "flt_neg x = (case x of Fin r \<Rightarrow> Fin (- r) | PosInf \<Rightarrow> NegInf | NegInf \<Rightarrow> PosInf | NaN \<Rightarrow> NaN)"

definition double_of_rat :: "rat \<Rightarrow> pyfloat" where
  "double_of_rat x =
     (if x = 0 then Fin 0 else if 0 < x then double_of_pos x else flt_neg (double_of_pos (- x)))"

text \<open>\<^verbatim>\<open>int(x)\<close> of a finite float truncates towards zero.\<close>

definition trunc_rat :: "rat \<Rightarrow> int" where
  "trunc_rat x = (if 0 \<le> x then \<lfloor>x\<rfloor> else \<lceil>x\<rceil>)"

section \<open>Strings\<close>

abbreviation starts_with :: "string \<Rightarrow> string \<Rightarrow> bool" where
  "starts_with s p \<equiv> prefix p s"

definition code :: "char \<Rightarrow> nat" where
  "code c = of_char c"

definition is_space :: "char \<Rightarrow> bool" where
  "is_space c = (code c = 32 \<or> (9 \<le> code c \<and> code c \<le> 13) \<or> (28 \<le> code c \<and> code c \<le> 31))"

definition is_digit :: "char \<Rightarrow> bool" where
  "is_digit c = (48 \<le> code c \<and> code c \<le> 57)"

definition is_word :: "char \<Rightarrow> bool" where
  "is_word c = ((48 \<le> code c \<and> code c \<le> 57) \<or> (65 \<le> code c \<and> code c \<le> 90) \<or>
     code c = 95 \<or> (97 \<le> code c \<and> code c \<le> 122))"

lemmas char_class_defs [str_simps] = code_def is_space_def is_digit_def is_word_def

definition lstrip :: "string \<Rightarrow> string" where
  "lstrip s = dropWhile is_space s"

definition strip :: "string \<Rightarrow> string" where
  "strip s = rev (dropWhile is_space (rev (dropWhile is_space s)))"

definition lower_char :: "char \<Rightarrow> char" where
  "lower_char c = (if 65 \<le> code c \<and> code c \<le> 90 then char_of (code c + 32) else c)"

definition upper_char :: "char \<Rightarrow> char" where
  "upper_char c = (if 97 \<le> code c \<and> code c \<le> 122 then char_of (code c - 32) else c)"

definition lower :: "string \<Rightarrow> string" where
  "lower s = map lower_char s"

definition upper :: "string \<Rightarrow> string" where
  "upper s = map upper_char s"

text \<open>Evaluation on the bits of a character.\<close>

lemma char_class_code [code]:
  "is_digit (Char b0 b1 b2 b3 b4 b5 b6 b7) \<longleftrightarrow> \<not> b7 \<and> \<not> b6 \<and> b5 \<and> b4 \<and> (b3 \<longrightarrow> \<not> b2 \<and> \<not> b1)"
  "is_space (Char b0 b1 b2 b3 b4 b5 b6 b7) \<longleftrightarrow> \<not> b7 \<and> \<not> b6 \<and>
     (if b5 then \<not> b4 \<and> \<not> b3 \<and> \<not> b2 \<and> \<not> b1 \<and> \<not> b0 else b3 \<and> (if b4 then b2 else (b0 \<or> b1 \<or> b2) \<and> \<not> (b2 \<and> b1)))"
  "is_word (Char b0 b1 b2 b3 b4 b5 b6 b7) \<longleftrightarrow> \<not> b7 \<and>
     (if b6 then (b0 \<or> b1 \<or> b2 \<or> b3 \<or> b4) \<and> \<not> (b4 \<and> b3 \<and> (b2 \<or> b1 \<and> b0)) \<or> \<not> b5 \<and> b4 \<and> b3 \<and> b2 \<and> b1 \<and> b0
      else b5 \<and> b4 \<and> (b3 \<longrightarrow> \<not> b2 \<and> \<not> b1))"
  by (cases b0; cases b1; cases b2; cases b3; cases b4; cases b5; cases b6; cases b7;
      simp add: is_digit_def is_space_def is_word_def code_def)+

lemma case_char_code [code]:
  "lower_char (Char b0 b1 b2 b3 b4 b5 b6 b7) =
     (if \<not> b7 \<and> b6 \<and> \<not> b5 \<and> (b0 \<or> b1 \<or> b2 \<or> b3 \<or> b4) \<and> \<not> (b4 \<and> b3 \<and> (b2 \<or> b1 \<and> b0))
      then Char b0 b1 b2 b3 b4 True b6 b7 else Char b0 b1 b2 b3 b4 b5 b6 b7)"
  "upper_char (Char b0 b1 b2 b3 b4 b5 b6 b7) =
     (if \<not> b7 \<and> b6 \<and> b5 \<and> (b0 \<or> b1 \<or> b2 \<or> b3 \<or> b4) \<and> \<not> (b4 \<and> b3 \<and> (b2 \<or> b1 \<and> b0))
      then Char b0 b1 b2 b3 b4 False b6 b7 else Char b0 b1 b2 b3 b4 b5 b6 b7)"
  by (cases b0; cases b1; cases b2; cases b3; cases b4; cases b5; cases b6; cases b7;
      simp add: lower_char_def upper_char_def code_def char_of_eq_iff)+

lemmas str_fun_defs [str_simps] =
  lstrip_def strip_def lower_char_def upper_char_def lower_def upper_def

lemma code_distinct: "code a \<noteq> code b \<Longrightarrow> a \<noteq> b"
  by auto

lemma starts_with_drop: "starts_with s p \<longleftrightarrow> s = p @ drop (length p) s"
  by (auto simp: prefix_def)

text \<open>\<^verbatim>\<open>s.split(".")\<close>: never empty, the pieces hold no dot, and joining them gives \<^term>\<open>s\<close> back.\<close>

fun split_dot :: "string \<Rightarrow> string list" where
  "split_dot [] = [[]]"
| "split_dot (c # s) =
     (if c = CHR ''.'' then [] # split_dot s
      else case split_dot s of [] \<Rightarrow> [[c]] | p # ps \<Rightarrow> (c # p) # ps)"

fun join_dot :: "string list \<Rightarrow> string" where
  "join_dot [] = []"
| "join_dot [p] = p"
| "join_dot (p # ps) = p @ ''.'' @ join_dot ps"

abbreviation dot_free :: "string \<Rightarrow> bool" where
  "dot_free s \<equiv> CHR ''.'' \<notin> set s"

lemma split_dot_nonempty [simp]: "split_dot s \<noteq> []"
  by (induction s) (auto split: list.splits)

lemma join_split_dot [simp]: "join_dot (split_dot s) = s"
proof (induction s)
  case (Cons c s)
  then show ?case by (cases "split_dot s" rule: join_dot.cases) auto
qed simp

lemma split_dot_dot_free: "p \<in> set (split_dot s) \<Longrightarrow> dot_free p"
proof (induction s arbitrary: p)
  case (Cons c s)
  then show ?case by (cases "split_dot s") (auto split: if_splits)
qed simp

lemma split_dot_no_dot: "dot_free s \<Longrightarrow> split_dot s = [s]"
  by (induction s) auto

lemma split_dot_append: "dot_free p \<Longrightarrow> split_dot (p @ CHR ''.'' # s) = p # split_dot s"
  by (induction p) auto

lemma split_join_dot:
  "ps \<noteq> [] \<Longrightarrow> (\<forall>p \<in> set ps. dot_free p) \<Longrightarrow> split_dot (join_dot ps) = ps"
  by (induction ps rule: join_dot.induct) (auto simp: split_dot_no_dot split_dot_append)

lemma join_dot_append:
  "ps \<noteq> [] \<Longrightarrow> qs \<noteq> [] \<Longrightarrow> join_dot (ps @ qs) = join_dot ps @ CHR ''.'' # join_dot qs"
proof (induction ps rule: join_dot.induct)
  case (2 p)
  then show ?case by (cases qs) auto
qed auto

lemma split_dot_concat: "split_dot (a @ CHR ''.'' # b) = split_dot a @ split_dot b"
proof (induction a)
  case (Cons c a)
  then show ?case by (cases "split_dot a") auto
qed simp

text \<open>\<^verbatim>\<open>a.startswith(b + ".")\<close> says that the components of \<^term>\<open>b\<close> are a proper prefix of those of \<^term>\<open>a\<close>.\<close>

lemma starts_with_dot_iff:
  "starts_with a (b @ ''.'') = (\<exists>r. r \<noteq> [] \<and> split_dot a = split_dot b @ r)"
proof
  assume "starts_with a (b @ ''.'')"
  then obtain s where "a = b @ CHR ''.'' # s" by (auto simp: prefix_def)
  then show "\<exists>r. r \<noteq> [] \<and> split_dot a = split_dot b @ r"
    by (auto simp: split_dot_concat)
next
  assume "\<exists>r. r \<noteq> [] \<and> split_dot a = split_dot b @ r"
  then obtain r where r: "r \<noteq> []" "split_dot a = split_dot b @ r" by auto
  then have "join_dot (split_dot a) = join_dot (split_dot b) @ CHR ''.'' # join_dot r"
    using join_dot_append [of "split_dot b" r] by simp
  then show "starts_with a (b @ ''.'')" by simp
qed

lemma split_dot_inject: "split_dot a = split_dot b \<Longrightarrow> a = b"
  by (metis join_split_dot)

subsection \<open>Numbers as text\<close>

definition digit_char :: "nat \<Rightarrow> char" where
  "digit_char n = char_of (48 + n)"

fun show_nat :: "nat \<Rightarrow> string" where
  "show_nat n = (if n < 10 then [digit_char n] else show_nat (n div 10) @ [digit_char (n mod 10)])"

declare show_nat.simps [simp del]

definition show_int :: "int \<Rightarrow> string" where
  "show_int i = (if i < 0 then CHR ''-'' # show_nat (nat (- i)) else show_nat (nat i))"

definition digit_val :: "char \<Rightarrow> nat" where
  "digit_val c = code c - 48"

definition nat_of_digits :: "string \<Rightarrow> nat" where
  "nat_of_digits s = foldl (\<lambda>n c. 10 * n + digit_val c) 0 s"

text \<open>\<^verbatim>\<open>f"{x:.1f}"\<close> and \<^verbatim>\<open>f"{x:.0f}"\<close>.\<close>

definition fmt1 :: "rat \<Rightarrow> string" where
  "fmt1 x = (let n = round_half_even (10 * \<bar>x\<bar>)
     in (if x < 0 then ''-'' else '''') @ show_nat (nat (n div 10)) @ ''.'' @ show_nat (nat (n mod 10)))"

definition fmt0 :: "rat \<Rightarrow> string" where
  "fmt0 x = (if x < 0 then ''-'' else '''') @ show_nat (nat (round_half_even \<bar>x\<bar>))"

lemma code_digit_char: "n < 10 \<Longrightarrow> code (digit_char n) = 48 + n"
  by (simp add: code_def digit_char_def)

lemma digit_val_char: "n < 10 \<Longrightarrow> digit_val (digit_char n) = n"
  by (simp add: digit_val_def code_digit_char)

lemma is_digit_char: "n < 10 \<Longrightarrow> is_digit (digit_char n)"
  by (simp add: is_digit_def code_digit_char)

lemma show_nat_digits: "\<forall>c \<in> set (show_nat n). is_digit c"
proof (induction n rule: show_nat.induct)
  case (1 n)
  then show ?case by (subst show_nat.simps) (auto simp: is_digit_char)
qed

lemma show_nat_nonempty [simp]: "show_nat n \<noteq> []"
  by (subst show_nat.simps) simp

lemma nat_of_digits_snoc: "nat_of_digits (s @ [c]) = 10 * nat_of_digits s + digit_val c"
  by (simp add: nat_of_digits_def)

text \<open>Reading back a printed number gives the number.\<close>

lemma nat_of_digits_show [simp]: "nat_of_digits (show_nat n) = n"
proof (induction n rule: show_nat.induct)
  case (1 n)
  show ?case
  proof (cases "n < 10")
    case True
    then show ?thesis
      by (subst show_nat.simps) (simp add: nat_of_digits_def digit_val_char)
  next
    case False
    with 1 show ?thesis
      by (subst show_nat.simps) (simp add: nat_of_digits_snoc digit_val_char)
  qed
qed

section \<open>Lists\<close>

text \<open>\<^verbatim>\<open>max(xs, default=0)\<close>.\<close>

definition max_default0 :: "int list \<Rightarrow> int" where
  "max_default0 xs = (if xs = [] then 0 else Max (set xs))"

lemma max_default0_ge: "x \<in> set xs \<Longrightarrow> x \<le> max_default0 xs"
  by (auto simp: max_default0_def)

lemma max_default0_in: "xs \<noteq> [] \<Longrightarrow> max_default0 xs \<in> set xs"
  by (simp add: max_default0_def)

lemma max_default0_cong: "set xs = set ys \<Longrightarrow> max_default0 xs = max_default0 ys"
  unfolding max_default0_def by (metis set_empty)

lemma max_default0_le: "0 \<le> n \<Longrightarrow> (\<forall>x \<in> set xs. x \<le> n) \<Longrightarrow> max_default0 xs \<le> n"
  by (simp add: max_default0_def)

lemma max_default0_less: "0 < n \<Longrightarrow> (\<forall>x \<in> set xs. x < n) \<Longrightarrow> max_default0 xs < n"
  by (simp add: max_default0_def)

lemma dropWhile_stop: "(xs = [] \<or> \<not> P (hd xs)) \<Longrightarrow> dropWhile P xs = xs"
  by (cases xs) auto

lemma takeWhile_append_stop:
  "(\<forall>x \<in> set xs. P x) \<Longrightarrow> (ys = [] \<or> \<not> P (hd ys)) \<Longrightarrow>
   takeWhile P (xs @ ys) = xs \<and> dropWhile P (xs @ ys) = ys"
  by (induction xs) (auto simp: dropWhile_stop takeWhile_eq_Nil_iff)

end
