(* ===== verification/Json_Context.thy ===== *)
theory Json_Context
  imports Xair_Prelude
begin

text \<open>
  The context document: JSON values, \<^verbatim>\<open>deep_merge\<close> (\<^verbatim>\<open>xair/core/deep_merge.py\<close>) and the part of
  \<^verbatim>\<open>xair/core/versioning.py\<close> that compares a document with a patch. The main result is that
  \<^verbatim>\<open>changed_paths\<close> misses nothing: if merging a patch changes what a path evaluates to, some
  changed leaf is related to that path.
\<close>

section \<open>JSON values\<close>

datatype json =
    JNull
  | JBool bool
  | JInt int
  | JFloat pyfloat
  | JStr string
  | JList "json list"
  | JObj "(string \<times> json) list"

type_synonym ctx = "(string, json) dict"

definition is_obj :: "json \<Rightarrow> bool" where
  "is_obj v = (case v of JObj _ \<Rightarrow> True | _ \<Rightarrow> False)"

definition is_number :: "json \<Rightarrow> bool" where
  "is_number v = (case v of JInt _ \<Rightarrow> True | JFloat _ \<Rightarrow> True | _ \<Rightarrow> False)"

definition num_val :: "json \<Rightarrow> pyfloat" where
  "num_val v = (case v of JInt i \<Rightarrow> Fin (of_int i) | JFloat f \<Rightarrow> f | _ \<Rightarrow> NaN)"

lemma is_obj_simps [simp]:
  "is_obj (JObj kvs)" "\<not> is_obj JNull" "\<not> is_obj (JBool b)" "\<not> is_obj (JInt i)"
  "\<not> is_obj (JFloat f)" "\<not> is_obj (JStr s)" "\<not> is_obj (JList xs)"
  by (simp_all add: is_obj_def)

lemma is_objE: "is_obj v \<Longrightarrow> (\<And>kvs. v = JObj kvs \<Longrightarrow> P) \<Longrightarrow> P"
  by (cases v) auto

lemma json_shape:
  obtains kv kvs where "v = JObj (kv # kvs)" | "v = JObj []" | "\<not> is_obj v"
proof (cases v)
  case (JObj kvs)
  with that show ?thesis by (cases kvs) auto
qed (use that in auto)

lemma is_number_simps [simp]:
  "is_number (JInt i)" "is_number (JFloat f)" "\<not> is_number JNull" "\<not> is_number (JBool b)"
  "\<not> is_number (JStr s)" "\<not> is_number (JList xs)" "\<not> is_number (JObj kvs)"
  by (simp_all add: is_number_def)

lemma is_numberE:
  assumes "is_number v"
  obtains i where "v = JInt i" | f where "v = JFloat f"
  using assms by (cases v) auto

lemma num_val_simps [simp]: "num_val (JInt i) = Fin (of_int i)" "num_val (JFloat f) = f"
  by (simp_all add: num_val_def)

text \<open>Python's \<^verbatim>\<open>==\<close> on decoded JSON: Booleans are the integers 0 and 1, dictionaries ignore order.\<close>

fun py_eq :: "json \<Rightarrow> json \<Rightarrow> bool" where
  "py_eq JNull JNull = True"
| "py_eq (JBool a) (JBool b) = (a = b)"
| "py_eq (JBool a) (JInt i) = (i = of_bool a)"
| "py_eq (JBool a) (JFloat f) = flt_eq (Fin (of_bool a)) f"
| "py_eq (JInt i) (JBool b) = (i = of_bool b)"
| "py_eq (JFloat f) (JBool b) = flt_eq f (Fin (of_bool b))"
| "py_eq (JInt i) (JInt j) = (i = j)"
| "py_eq (JInt i) (JFloat f) = flt_eq (Fin (of_int i)) f"
| "py_eq (JFloat f) (JInt i) = flt_eq f (Fin (of_int i))"
| "py_eq (JFloat f) (JFloat g) = flt_eq f g"
| "py_eq (JStr s) (JStr t) = (s = t)"
| "py_eq (JList xs) (JList ys) = list_all2 py_eq xs ys"
| "py_eq (JObj xs) (JObj ys) =
     (length xs = length ys \<and>
      list_all (\<lambda>p. case map_of ys (fst p) of None \<Rightarrow> False | Some w \<Rightarrow> py_eq (snd p) w) xs)"
| "py_eq _ _ = False"

text \<open>JSON objects have distinct keys.\<close>

fun wf_json :: "json \<Rightarrow> bool" where
  "wf_json (JObj kvs) = (wf_dict kvs \<and> list_all (\<lambda>p. wf_json (snd p)) kvs)"
| "wf_json (JList xs) = list_all wf_json xs"
| "wf_json _ = True"

abbreviation wf_ctx :: "ctx \<Rightarrow> bool" where
  "wf_ctx c \<equiv> wf_json (JObj c)"

lemma wf_json_map_of: "wf_ctx c \<Longrightarrow> map_of c k = Some v \<Longrightarrow> wf_json v"
  by (fastforce simp: list_all_iff dest: map_of_SomeD)

section \<open>Deep merge\<close>

function deep_merge :: "ctx \<Rightarrow> ctx \<Rightarrow> ctx" where
  "deep_merge out [] = out"
| "deep_merge out ((key, val) # patch) =
     deep_merge
       (case map_of out key of
          Some (JObj b) \<Rightarrow> (case val of JObj p \<Rightarrow> dict_set key (JObj (deep_merge b p)) out
                                  | _ \<Rightarrow> dict_set key val out)
        | _ \<Rightarrow> dict_set key val out)
       patch"
  by pat_completeness auto
termination by (relation "measure (\<lambda>(b, p). size (JObj p))") auto

definition merge_value :: "json option \<Rightarrow> json \<Rightarrow> json" where
  "merge_value old v =
     (case old of
        Some (JObj b) \<Rightarrow> (case v of JObj p \<Rightarrow> JObj (deep_merge b p) | _ \<Rightarrow> v)
      | _ \<Rightarrow> v)"

lemma deep_merge_Cons:
  "deep_merge out ((k, v) # patch) = deep_merge (dict_set k (merge_value (map_of out k) v) out) patch"
  by (auto simp: merge_value_def split: option.splits json.splits)

lemma deep_merge_other: "map_of p k = None \<Longrightarrow> map_of (deep_merge b p) k = map_of b k"
proof (induction p arbitrary: b)
  case (Cons a p)
  then show ?case by (cases a) (auto simp del: deep_merge.simps simp: deep_merge_Cons split: if_splits)
qed simp

text \<open>What a key holds after a merge: the patch wins, two objects are merged.\<close>

lemma map_of_deep_merge:
  "wf_dict p \<Longrightarrow> map_of (deep_merge b p) k =
     (case map_of p k of None \<Rightarrow> map_of b k | Some v \<Rightarrow> Some (merge_value (map_of b k) v))"
proof (induction p arbitrary: b)
  case (Cons a p)
  obtain k' v where a: "a = (k', v)" by (cases a)
  show ?case
  proof (cases "k = k'")
    case True
    with Cons.prems a have "map_of p k = None" by (simp add: map_of_eq_None_iff)
    with a True show ?thesis by (simp add: deep_merge_other deep_merge_Cons del: deep_merge.simps)
  next
    case False
    with a Cons show ?thesis by (simp add: deep_merge_Cons del: deep_merge.simps split: option.splits)
  qed
qed simp

lemma wf_dict_deep_merge: "wf_dict b \<Longrightarrow> wf_dict (deep_merge b p)"
proof (induction p arbitrary: b)
  case (Cons a p)
  then show ?case by (cases a) (simp del: deep_merge.simps add: deep_merge_Cons wf_dict_set)
qed simp

lemma wf_ctx_map_ofI: "wf_dict c \<Longrightarrow> (\<And>k v. map_of c k = Some v \<Longrightarrow> wf_json v) \<Longrightarrow> wf_ctx c"
  by (auto simp: list_all_iff)

lemma size_map_of: "map_of p k = Some v \<Longrightarrow> size v < size (JObj p)"
  by (induction p) (auto split: if_splits)

lemma wf_ctx_deep_merge: "wf_ctx b \<Longrightarrow> wf_ctx p \<Longrightarrow> wf_ctx (deep_merge b p)"
proof (induction p arbitrary: b rule: measure_induct_rule [where f = "\<lambda>p. size (JObj p)"])
  case (less p)
  show ?case
  proof (rule wf_ctx_map_ofI)
    show "wf_dict (deep_merge b p)" using less.prems(1) by (simp add: wf_dict_deep_merge)
  next
    fix k v
    assume v: "map_of (deep_merge b p) k = Some v"
    have wfp: "wf_dict p" using less.prems(2) by simp
    show "wf_json v"
    proof (cases "map_of p k")
      case None
      with v show ?thesis
        using wf_json_map_of [OF less.prems(1)] by (simp add: map_of_deep_merge [OF wfp])
    next
      case (Some w)
      have w: "wf_json w" using less.prems(2) Some by (rule wf_json_map_of)
      have rec: "wf_ctx (deep_merge x y)" if "map_of b k = Some (JObj x)" "w = JObj y" for x y
        using less.IH [of y x] size_map_of [OF Some] that w less.prems(1) wf_json_map_of by blast
      show ?thesis
        using v Some w rec by (auto simp: map_of_deep_merge [OF wfp] merge_value_def
            simp del: wf_json.simps split: option.splits json.splits)
    qed
  qed
qed

section \<open>Paths\<close>

text \<open>\<^verbatim>\<open>get_path\<close>: \<^const>\<open>None\<close> stands for \<^verbatim>\<open>_MISSING\<close>.\<close>

fun walk :: "json \<Rightarrow> string list \<Rightarrow> json option" where
  "walk node [] = Some node"
| "walk node (part # parts) =
     (case node of
        JObj kvs \<Rightarrow> (case map_of kvs part of None \<Rightarrow> None | Some v \<Rightarrow> walk v parts)
      | _ \<Rightarrow> None)"

definition get_path :: "ctx \<Rightarrow> string \<Rightarrow> json option" where
  "get_path ctx path = walk (JObj ctx) (split_dot path)"

lemma walk_append:
  "walk v (xs @ ys) = (case walk v xs of None \<Rightarrow> None | Some w \<Rightarrow> walk w ys)"
  by (induction v xs rule: walk.induct) (auto split: json.splits option.splits)

lemma walk_non_obj: "\<not> is_obj v \<Longrightarrow> ps \<noteq> [] \<Longrightarrow> walk v ps = None"
  by (cases ps; cases v) auto

fun leaf_items :: "ctx \<Rightarrow> string \<Rightarrow> (string \<times> json) list" where
  "leaf_items [] pre = []"
| "leaf_items ((key, val) # rest) pre =
     (let path = (if pre \<noteq> [] then pre @ ''.'' @ key else key)
      in (case val of
            JObj (kv # kvs) \<Rightarrow> leaf_items (kv # kvs) path
          | _ \<Rightarrow> [(path, val)])
         @ leaf_items rest pre)"

definition same_value :: "json option \<Rightarrow> json option \<Rightarrow> bool" where
  "same_value a b =
     (case (a, b) of
        (None, None) \<Rightarrow> True
      | (Some (JBool x), Some (JBool y)) \<Rightarrow> x = y
      | (Some JNull, Some JNull) \<Rightarrow> True
      | (Some (JStr s), Some (JStr t)) \<Rightarrow> s = t
      | (Some (JList xs), Some (JList ys)) \<Rightarrow> py_eq (JList xs) (JList ys)
      | (Some (JObj xs), Some (JObj ys)) \<Rightarrow> py_eq (JObj xs) (JObj ys)
      | (Some x, Some y) \<Rightarrow> is_number x \<and> is_number y \<and> flt_eq (num_val x) (num_val y)
      | _ \<Rightarrow> False)"

text \<open>An empty object merged into an existing object leaves it unchanged.\<close>

definition leaf_unchanged :: "ctx \<Rightarrow> string \<times> json \<Rightarrow> bool" where
  "leaf_unchanged old pv =
     (let cur = get_path old (fst pv)
      in (snd pv = JObj [] \<and> (\<exists>kvs \<in> set_option cur. is_obj kvs)) \<or> same_value cur (Some (snd pv)))"

definition changed_paths :: "ctx \<Rightarrow> ctx \<Rightarrow> string list" where
  "changed_paths old patch = map fst (filter (\<lambda>pv. \<not> leaf_unchanged old pv) (leaf_items patch []))"

definition related :: "string \<Rightarrow> string \<Rightarrow> bool" where
  "related a b = (a = b \<or> starts_with a (b @ ''.'') \<or> starts_with b (a @ ''.''))"

lemma related_iff:
  "related a b = (prefix (split_dot a) (split_dot b) \<or> prefix (split_dot b) (split_dot a))"
  unfolding related_def starts_with_dot_iff
  by (auto simp: prefix_def dest: split_dot_inject) (metis append_Nil2 split_dot_inject)+

lemma related_sym: "related a b = related b a"
  by (auto simp: related_def)

lemma related_refl [simp]: "related a a"
  by (simp add: related_def)

text \<open>Related paths share their first segment.\<close>

lemma related_root: "related a b \<Longrightarrow> hd (split_dot a) = hd (split_dot b)"
  by (cases "split_dot a"; cases "split_dot b") (auto simp: related_iff)

section \<open>No change is missed\<close>

text \<open>
  Two observations of a path are alike if the predicate evaluator cannot tell them apart: equal as
  strictly typed values, both absent or null, both lists, or both objects.
\<close>

definition obs_alike :: "json option \<Rightarrow> json option \<Rightarrow> bool" where
  "obs_alike a b =
     (a = b \<or> (case (a, b) of
        (None, Some JNull) \<Rightarrow> True
      | (Some JNull, None) \<Rightarrow> True
      | (Some (JObj _), Some (JObj _)) \<Rightarrow> True
      | (Some (JList _), Some (JList _)) \<Rightarrow> True
      | _ \<Rightarrow> same_value a b))"

lemma same_value_alike: "same_value a b \<Longrightarrow> obs_alike a b"
  by (auto simp: obs_alike_def split: option.splits json.splits)

lemma obs_alike_refl [simp]: "obs_alike a a"
  by (simp add: obs_alike_def)

lemma obs_alike_obj [simp]: "obs_alike (Some (JObj x)) (Some (JObj y))"
  by (simp add: obs_alike_def)

lemma same_value_obj: "same_value cur (Some v) \<Longrightarrow> \<not> is_obj v \<Longrightarrow> cur = Some w \<Longrightarrow> \<not> is_obj w"
  by (auto simp: same_value_def split: option.splits json.splits)

text \<open>Every leaf of a patch lies below the prefix it was enumerated under.\<close>

definition path_under :: "string \<Rightarrow> string \<Rightarrow> string" where
  "path_under pre key = (if pre \<noteq> [] then pre @ ''.'' @ key else key)"

definition leaves_under :: "string \<Rightarrow> json \<Rightarrow> (string \<times> json) list" where
  "leaves_under path v =
     (case v of JObj (kv # kvs) \<Rightarrow> leaf_items (kv # kvs) path | _ \<Rightarrow> [(path, v)])"

lemma leaves_under_simps:
  "leaves_under path (JObj (kv # kvs)) = leaf_items (kv # kvs) path"
  "\<nexists>kv kvs. v = JObj (kv # kvs) \<Longrightarrow> leaves_under path v = [(path, v)]"
  by (auto simp: leaves_under_def split: json.splits list.splits)

lemma leaf_items_Cons:
  "leaf_items ((key, val) # rest) pre = leaves_under (path_under pre key) val @ leaf_items rest pre"
  by (simp add: Let_def path_under_def leaves_under_def)

declare leaf_items.simps(2) [simp del]

lemma leaf_items_below:
  "(q, v) \<in> set (leaf_items p pre) \<Longrightarrow> pre \<noteq> [] \<Longrightarrow> starts_with q (pre @ ''.'')"
proof (induction p pre arbitrary: q v rule: leaf_items.induct)
  case (2 key val rest pre)
  have under: "path_under pre key = pre @ ''.'' @ key" using "2.prems" by (simp add: path_under_def)
  show ?case
  proof (cases "(q, v) \<in> set (leaf_items rest pre)")
    case True
    with 2 show ?thesis by blast
  next
    case False
    with "2.prems" have q: "(q, v) \<in> set (leaves_under (path_under pre key) val)"
      by (simp add: leaf_items_Cons)
    show ?thesis
    proof (cases "\<exists>kv kvs. val = JObj (kv # kvs)")
      case True
      then obtain kv kvs where val: "val = JObj (kv # kvs)" by auto
      with q have "(q, v) \<in> set (leaf_items (kv # kvs) (path_under pre key))"
        by (simp add: leaves_under_simps)
      with "2.IH"(1) [OF refl val] under "2.prems"
      have "starts_with q (path_under pre key @ ''.'')" by (auto simp: path_under_def)
      with under show ?thesis by (auto simp: prefix_def)
    next
      case False
      with q under show ?thesis by (simp add: leaves_under_simps)
    qed
  qed
qed simp

lemma leaf_items_nonempty: "p \<noteq> [] \<Longrightarrow> leaf_items p pre \<noteq> []"
proof (induction p pre rule: leaf_items.induct)
  case (2 key val rest pre)
  show ?case
  proof (cases "\<exists>kv kvs. val = JObj (kv # kvs)")
    case True
    then obtain kv kvs where val: "val = JObj (kv # kvs)" by auto
    from "2.IH"(1) [OF refl val] have "leaf_items (kv # kvs) (path_under pre key) \<noteq> []"
      by (simp add: path_under_def)
    then show ?thesis by (simp add: val leaf_items_Cons leaves_under_simps)
  qed (simp add: leaf_items_Cons leaves_under_simps)
qed simp

text \<open>The leaves below one key of a patch are leaves of the patch.\<close>

lemma leaf_items_key:
  "map_of p k = Some v \<Longrightarrow> set (leaves_under (path_under pre k) v) \<subseteq> set (leaf_items p pre)"
proof (induction p)
  case (Cons a p)
  obtain k' v' where a: "a = (k', v')" by (cases a)
  with Cons show ?case by (auto simp: leaf_items_Cons split: if_splits)
qed simp

abbreviation plain :: "string \<Rightarrow> bool" where
  "plain s \<equiv> s \<noteq> [] \<and> dot_free s"

lemma path_under_join:
  assumes "\<forall>d \<in> set ds. plain d"
  shows "path_under (join_dot ds) k = join_dot (ds @ [k])"
proof (cases ds)
  case (Cons d ds')
  then have "join_dot ds \<noteq> []" using assms by (cases ds') auto
  moreover have "join_dot (ds @ [k]) = join_dot ds @ CHR ''.'' # k"
    using join_dot_append [of ds "[k]"] Cons by simp
  ultimately show ?thesis by (simp add: path_under_def)
qed (simp add: path_under_def)

text \<open>
  The position of the walk: \<^term>\<open>ds\<close> are the keys from the root of the old document to the
  sub-object \<^term>\<open>b\<close>, and \<^term>\<open>cs\<close> the keys still to follow.
\<close>

lemma get_path_join:
  assumes "ds @ cs \<noteq> []" "\<forall>d \<in> set (ds @ cs). plain d"
  shows "get_path old (join_dot (ds @ cs)) = walk (JObj old) (ds @ cs)"
  using assms split_join_dot [of "ds @ cs"] by (simp add: get_path_def)

lemma walk_leaf_related:
  assumes "walk (JObj y) cs = Some w" and "y \<noteq> []"
    and "\<forall>d \<in> set (ds @ cs). plain d" and "ds \<noteq> []"
  shows "\<exists>q v. (q, v) \<in> set (leaf_items y (join_dot ds)) \<and> related q (join_dot (ds @ cs))"
  using assms
proof (induction cs arbitrary: y ds)
  case Nil
  then obtain q v where "(q, v) \<in> set (leaf_items y (join_dot ds))"
    using leaf_items_nonempty [OF Nil.prems(2), of "join_dot ds"]
    by (cases "leaf_items y (join_dot ds)") auto
  moreover have "join_dot ds \<noteq> []" using Nil.prems(3,4) by (cases ds rule: join_dot.cases) auto
  ultimately show ?case using leaf_items_below by (fastforce simp: related_def)
next
  case (Cons k cs)
  from Cons.prems(1) obtain v where v: "map_of y k = Some v" and wv: "walk v cs = Some w"
    by (auto split: option.splits)
  have pu: "path_under (join_dot ds) k = join_dot (ds @ [k])"
    using Cons.prems(3) by (intro path_under_join) auto
  show ?case
  proof (cases "\<exists>kv kvs. v = JObj (kv # kvs)")
    case True
    then obtain kv kvs where vobj: "v = JObj (kv # kvs)" by auto
    then obtain q u where q: "(q, u) \<in> set (leaf_items (kv # kvs) (join_dot (ds @ [k])))"
        "related q (join_dot ((ds @ [k]) @ cs))"
      using Cons.IH [of "kv # kvs" "ds @ [k]"] wv Cons.prems(3) by auto
    moreover have "(q, u) \<in> set (leaf_items y (join_dot ds))"
      using leaf_items_key [OF v, of "join_dot ds"] q(1) vobj pu by (auto simp: leaves_under_simps)
    ultimately show ?thesis by auto
  next
    case False
    then have leaf: "(join_dot (ds @ [k]), v) \<in> set (leaf_items y (join_dot ds))"
      using leaf_items_key [OF v, of "join_dot ds"] pu by (simp add: leaves_under_simps)
    have "cs = []"
    proof (rule ccontr)
      assume "cs \<noteq> []"
      then have "is_obj v" using wv walk_non_obj by fastforce
      then have "v = JObj []" using False by (cases v rule: json_shape) auto
      then show False using wv \<open>cs \<noteq> []\<close> by (cases cs) auto
    qed
    with leaf show ?thesis by auto
  qed
qed

lemma changed_leaf_below_missing:
  assumes miss: "walk (JObj old) ds = None \<or> (\<exists>w. walk (JObj old) ds = Some w \<and> \<not> is_obj w)"
    and q: "starts_with q (join_dot ds @ ''.'')"
    and ds: "ds \<noteq> []" "\<forall>d \<in> set ds. plain d"
  shows "\<not> leaf_unchanged old (q, v)"
proof -
  from q obtain r where r: "r \<noteq> []" "split_dot q = split_dot (join_dot ds) @ r"
    by (auto simp: starts_with_dot_iff)
  then have "split_dot q = ds @ r" using ds split_join_dot [of ds] by simp
  then have "get_path old q = None"
    using miss r(1) by (auto simp: get_path_def walk_append walk_non_obj)
  then show ?thesis by (simp add: leaf_unchanged_def same_value_def)
qed

text \<open>The induction over the path: a differing observation has a changed, related leaf.\<close>

lemma merge_change_leaf:
  assumes "wf_ctx p" and "cs \<noteq> []" and "\<forall>d \<in> set (ds @ cs). plain d"
    and "walk (JObj old) ds = Some (JObj b)"
    and "\<not> obs_alike (walk (JObj b) cs) (walk (JObj (deep_merge b p)) cs)"
  shows "\<exists>q v. (q, v) \<in> set (leaf_items p (join_dot ds)) \<and> related q (join_dot (ds @ cs)) \<and>
               \<not> leaf_unchanged old (q, v)"
  using assms
proof (induction cs arbitrary: b p ds)
  case (Cons k cs)
  let ?here = "join_dot (ds @ [k])"
  have pu: "path_under (join_dot ds) k = ?here"
    using Cons.prems(3) by (intro path_under_join) auto
  have wold: "walk (JObj old) (ds @ [k]) = map_of b k"
    using Cons.prems(4) by (simp add: walk_append split: option.splits)
  have gp: "get_path old ?here = map_of b k"
    using get_path_join [of ds "[k]" old] Cons.prems(3) wold by simp
  have rel_here: "related ?here (join_dot (ds @ k # cs))"
    using join_dot_append [of "ds @ [k]" cs] by (cases "cs = []") (auto simp: related_def)
  have merged: "map_of (deep_merge b p) k =
      (case map_of p k of None \<Rightarrow> map_of b k | Some v \<Rightarrow> Some (merge_value (map_of b k) v))"
    using Cons.prems(1) by (intro map_of_deep_merge) simp
  obtain v where v: "map_of p k = Some v"
    using Cons.prems(5) merged by (cases "map_of p k") auto
  have wfv: "wf_json v" using Cons.prems(1) v by (rule wf_json_map_of)
  have leaf: "(?here, v) \<in> set (leaf_items p (join_dot ds))" if "\<nexists>kv kvs. v = JObj (kv # kvs)"
    using leaf_items_key [OF v, of "join_dot ds"] pu that by (simp add: leaves_under_simps)
  consider (deep) x kv kvs where "map_of b k = Some (JObj x)" "v = JObj (kv # kvs)"
    | (fresh) kv kvs where "v = JObj (kv # kvs)" "\<nexists>x. map_of b k = Some (JObj x)"
    | (empty) "v = JObj []"
    | (scalar) "\<not> is_obj v"
    by (cases v rule: json_shape) auto
  then show ?case
  proof cases
    case deep
    have cs: "cs \<noteq> []"
      using Cons.prems(5) merged v deep by (auto simp: merge_value_def)
    have diff: "\<not> obs_alike (walk (JObj x) cs) (walk (JObj (deep_merge x (kv # kvs))) cs)"
      using Cons.prems(5) merged v deep by (auto simp: merge_value_def simp del: deep_merge.simps)
    obtain q u where q: "(q, u) \<in> set (leaf_items (kv # kvs) ?here)"
        "related q (join_dot ((ds @ [k]) @ cs))" "\<not> leaf_unchanged old (q, u)"
      using Cons.IH [of "kv # kvs" "ds @ [k]" x] wfv deep cs Cons.prems(3) wold diff by auto
    moreover have "(q, u) \<in> set (leaf_items p (join_dot ds))"
      using leaf_items_key [OF v, of "join_dot ds"] q(1) deep pu by (auto simp: leaves_under_simps)
    ultimately show ?thesis by auto
  next
    case fresh
    have old_none: "walk (JObj b) (k # cs) = None" if "cs \<noteq> []"
      using fresh that by (auto split: option.splits simp: walk_non_obj is_obj_def split: json.splits)
    have mv: "merge_value (map_of b k) v = v"
      using fresh by (auto simp: merge_value_def split: option.splits json.splits)
    have "\<exists>w. walk (JObj (kv # kvs)) cs = Some w"
      using Cons.prems(5) merged v mv fresh old_none
      by (cases "cs = []"; cases "walk (JObj (kv # kvs)) cs") auto
    then obtain q u where q: "(q, u) \<in> set (leaf_items (kv # kvs) ?here)"
        "related q (join_dot ((ds @ [k]) @ cs))"
      using walk_leaf_related [of "kv # kvs" cs _ "ds @ [k]"] Cons.prems(3) by auto
    have ne: "?here \<noteq> []"
      using Cons.prems(3) join_dot_append [of ds "[k]"] by (cases "ds = []") auto
    have "starts_with q (?here @ ''.'')" using leaf_items_below [OF q(1) ne] .
    moreover have "walk (JObj old) (ds @ [k]) = None \<or>
        (\<exists>w. walk (JObj old) (ds @ [k]) = Some w \<and> \<not> is_obj w)"
      using wold fresh by (cases "map_of b k") (auto elim: is_objE)
    ultimately have "\<not> leaf_unchanged old (q, u)"
      using Cons.prems(3) by (intro changed_leaf_below_missing) auto
    moreover have "(q, u) \<in> set (leaf_items p (join_dot ds))"
      using leaf_items_key [OF v, of "join_dot ds"] q(1) fresh pu by (auto simp: leaves_under_simps)
    ultimately show ?thesis using q(2) by auto
  next
    case empty
    have "\<nexists>x. map_of b k = Some (JObj x)"
      using Cons.prems(5) merged v empty by (auto simp: merge_value_def)
    then have "\<not> leaf_unchanged old (?here, v)"
      using empty gp
      by (cases "map_of b k") (auto simp: leaf_unchanged_def Let_def same_value_def is_obj_def split: json.splits)
    with leaf empty rel_here show ?thesis by auto
  next
    case scalar
    then have mv: "merge_value (map_of b k) v = v"
      by (auto simp: merge_value_def split: option.splits json.splits)
    have "\<not> same_value (map_of b k) (Some v)"
    proof
      assume same: "same_value (map_of b k) (Some v)"
      then obtain w where w: "map_of b k = Some w"
        by (cases "map_of b k") (auto simp: same_value_def split: json.splits)
      then have "\<not> is_obj w" using same scalar same_value_obj by blast
      then have "obs_alike (walk w cs) (walk v cs)"
        using same scalar w by (cases "cs = []") (simp_all add: walk_non_obj same_value_alike)
      with w Cons.prems(5) merged v mv show False by simp
    qed
    then have "\<not> leaf_unchanged old (?here, v)"
      using scalar gp by (auto simp: leaf_unchanged_def)
    moreover have "(?here, v) \<in> set (leaf_items p (join_dot ds))"
      using leaf scalar by fastforce
    ultimately show ?thesis using rel_here by blast
  qed
qed simp

text \<open>
  The contract the versioned store relies on: a path whose observation a merge changes is related
  to a path that \<^const>\<open>changed_paths\<close> reports.
\<close>

lemma changed_paths_complete:
  assumes "wf_ctx patch" and "\<forall>d \<in> set (split_dot r). plain d"
    and "\<not> obs_alike (get_path old r) (get_path (deep_merge old patch) r)"
  shows "\<exists>c \<in> set (changed_paths old patch). related c r"
proof -
  obtain q v where "(q, v) \<in> set (leaf_items patch [])" "related q r" "\<not> leaf_unchanged old (q, v)"
    using merge_change_leaf [of patch "split_dot r" "[]" old old] assms
    by (auto simp: get_path_def)
  then have "q \<in> set (changed_paths old patch)"
    by (force simp: changed_paths_def)
  with \<open>related q r\<close> show ?thesis by blast
qed

section \<open>Properties\<close>

text \<open>
  C25: no change is missed. If merging a patch makes any observation of a path differ in a way a predicate
  can see (absent or null against a value, another value of a strict type), then one of the changed leaf
  paths reported for the patch is that path, an ancestor or a descendant of it.
\<close>

theorem no_change_missed:
  assumes "wf_ctx patch" and "\<forall>d \<in> set (split_dot r). d \<noteq> [] \<and> dot_free d"
    and "\<not> obs_alike (get_path old r) (get_path (deep_merge old patch) r)"
  shows "\<exists>c \<in> set (changed_paths old patch). related c r"
  using changed_paths_complete [OF assms] by blast

theorem no_change_missed_witness:
  "\<exists>c \<in> set (changed_paths [(''cell'', JObj [(''temp'', JInt 20)])] [(''cell'', JStr ''off'')]). related c ''cell.temp''"
  by (rule no_change_missed) code_simp+

end
