(* ===== verification/Versioning.thy ===== *)
theory Versioning
  imports Json_Context
begin

text \<open>
  The rest of \<^verbatim>\<open>xair/core/versioning.py\<close>: the read-set of an intent (the context paths its
  predicates name) and the two version functions the gates compare, the read-set version and the
  predicate version.
\<close>

section \<open>Read-sets\<close>

text \<open>\<^verbatim>\<open>\w+(?:\.\w+)*\<close>: the longest path at the front of a string, with what follows it.\<close>

function scan_path :: "string \<Rightarrow> (string \<times> string) option" where
  "scan_path s =
     (let w = takeWhile is_word s; r = dropWhile is_word s
      in if w = [] then None
         else case r of
                [] \<Rightarrow> Some (w, r)
              | c # r' \<Rightarrow>
                  (if c = CHR ''.'' then
                     (case scan_path r' of None \<Rightarrow> Some (w, r) | Some (p, rest) \<Rightarrow> Some (w @ ''.'' @ p, rest))
                   else Some (w, r)))"
  by pat_completeness auto
termination
proof (relation "measure length", goal_cases)
  case (2 s w r c r')
  then have "length (c # r') \<le> length s" by (metis length_dropWhile_le)
  then show ?case by simp
qed simp

declare scan_path.simps [simp del]

definition read_path :: "string \<Rightarrow> string option" where
  "read_path expr = map_option fst (scan_path (dropWhile is_space expr))"

fun read_set_from :: "string list \<Rightarrow> string list \<Rightarrow> string list" where
  "read_set_from out [] = out"
| "read_set_from out (expr # exprs) =
     read_set_from
       (case read_path expr of
          None \<Rightarrow> out
        | Some p \<Rightarrow> if p \<in> set out then out else out @ [p])
       exprs"

definition read_set :: "string list \<Rightarrow> string list" where
  "read_set exprs = read_set_from [] exprs"

lemma set_read_set_from:
  "set (read_set_from out exprs) = set out \<union> {p. \<exists>e \<in> set exprs. read_path e = Some p}"
  by (induction exprs arbitrary: out) (auto split: option.splits)

lemma distinct_read_set_from: "distinct out \<Longrightarrow> distinct (read_set_from out exprs)"
  by (induction exprs arbitrary: out) (auto split: option.splits)

lemma set_read_set: "set (read_set exprs) = {p. \<exists>e \<in> set exprs. read_path e = Some p}"
  by (simp add: read_set_def set_read_set_from)

lemma distinct_read_set: "distinct (read_set exprs)"
  by (simp add: read_set_def distinct_read_set_from)

lemma read_set_singleton: "read_set [e] = (case read_path e of None \<Rightarrow> [] | Some p \<Rightarrow> [p])"
  by (auto simp: read_set_def split: option.splits)

text \<open>A path is a non-empty sequence of words joined by dots.\<close>

definition is_path :: "string \<Rightarrow> bool" where
  "is_path p = (\<forall>d \<in> set (split_dot p). d \<noteq> [] \<and> (\<forall>c \<in> set d. is_word c))"

lemma dot_not_word [simp]: "\<not> is_word CHR ''.''"
  by (simp add: is_word_def code_def)

lemma word_dot_free: "\<forall>c \<in> set d. is_word c \<Longrightarrow> dot_free d"
  by (metis dot_not_word)

lemma is_path_plain: "is_path p \<Longrightarrow> d \<in> set (split_dot p) \<Longrightarrow> plain d"
  using word_dot_free by (auto simp: is_path_def)

lemma is_path_nonempty: "is_path p \<Longrightarrow> p \<noteq> []"
  by (auto simp: is_path_def)

lemma is_path_cons:
  assumes "w \<noteq> []" "\<forall>c \<in> set w. is_word c"
  shows "is_path (w @ CHR ''.'' # p) = is_path p"
proof -
  have "split_dot (w @ CHR ''.'' # p) = w # split_dot p"
    using assms by (intro split_dot_append word_dot_free)
  then show ?thesis using assms by (simp add: is_path_def)
qed

lemma is_path_word: "w \<noteq> [] \<Longrightarrow> \<forall>c \<in> set w. is_word c \<Longrightarrow> is_path w"
  by (simp add: is_path_def split_dot_no_dot word_dot_free)

text \<open>What may follow a scanned path: the scan stopped at neither a word character nor a dot and a word.\<close>

definition path_stop :: "string \<Rightarrow> bool" where
  "path_stop r = (case r of [] \<Rightarrow> True | c # r' \<Rightarrow>
     \<not> is_word c \<and> (c = CHR ''.'' \<longrightarrow> (r' = [] \<or> \<not> is_word (hd r'))))"

lemma scan_path_unfold:
  assumes "\<forall>c \<in> set w. is_word c" "q = [] \<or> \<not> is_word (hd q)"
  shows "scan_path (w @ q) =
     (if w = [] then None
      else case q of
             [] \<Rightarrow> Some (w, q)
           | c # q' \<Rightarrow>
               (if c = CHR ''.'' then
                  (case scan_path q' of None \<Rightarrow> Some (w, q) | Some (p, rest) \<Rightarrow> Some (w @ ''.'' @ p, rest))
                else Some (w, q)))"
  using takeWhile_append_stop [OF assms] by (subst scan_path.simps) (simp add: Let_def)

lemma word_split:
  obtains w q where "s = w @ q" "\<forall>c \<in> set w. is_word c" "q = [] \<or> \<not> is_word (hd q)"
proof
  show "s = takeWhile is_word s @ dropWhile is_word s" by simp
  show "\<forall>c \<in> set (takeWhile is_word s). is_word c" by (auto dest: set_takeWhileD)
  show "dropWhile is_word s = [] \<or> \<not> is_word (hd (dropWhile is_word s))" by (metis hd_dropWhile)
qed

lemma scan_path_None: "scan_path s = None \<longleftrightarrow> (s = [] \<or> \<not> is_word (hd s))"
proof (rule word_split [of s])
  fix w q
  assume s: "s = w @ q" and w: "\<forall>c \<in> set w. is_word c" and q: "q = [] \<or> \<not> is_word (hd q)"
  show ?thesis unfolding s scan_path_unfold [OF w q]
    using w q by (cases w) (auto split: list.splits option.splits)
qed

lemma scan_path_Some:
  "scan_path s = Some (p, r) \<Longrightarrow> s = p @ r \<and> is_path p \<and> path_stop r"
proof (induction s arbitrary: p r rule: length_induct)
  case (1 s)
  obtain w q where s: "s = w @ q" and w: "\<forall>c \<in> set w. is_word c" and q: "q = [] \<or> \<not> is_word (hd q)"
    by (rule word_split)
  note eq = "1.prems" [unfolded s scan_path_unfold [OF w q]]
  then have wne: "w \<noteq> []" by (auto split: if_splits)
  then have wp: "is_path w" using w by (rule is_path_word)
  show ?case
  proof (cases "\<exists>q' p' r'. q = CHR ''.'' # q' \<and> scan_path q' = Some (p', r')")
    case True
    then obtain q' p' r' where q': "q = CHR ''.'' # q'" "scan_path q' = Some (p', r')" by auto
    then have "q' = p' @ r' \<and> is_path p' \<and> path_stop r'"
      using "1.IH" [rule_format, of q' p' r'] s by auto
    with eq q' s w wne show ?thesis by (auto simp: is_path_cons)
  next
    case False
    then have "p = w" "r = q" using eq wne by (auto split: list.splits if_splits option.splits)
    moreover have "path_stop q"
      using False q by (auto simp: path_stop_def split: list.splits) (metis not_None_eq scan_path_None surj_pair)+
    ultimately show ?thesis using s wp by simp
  qed
qed

lemma scan_path_complete: "is_path p \<Longrightarrow> path_stop r \<Longrightarrow> scan_path (p @ r) = Some (p, r)"
proof (induction "split_dot p" arbitrary: p)
  case (Cons w ws)
  have w: "w \<noteq> []" "\<forall>c \<in> set w. is_word c"
    using Cons.hyps(2) Cons.prems(1) by (auto simp: is_path_def) (metis list.set_intros(1))+
  have p: "p = join_dot (w # ws)" using Cons.hyps(2) join_split_dot [of p] by metis
  show ?case
  proof (cases ws)
    case Nil
    have stop: "r = [] \<or> \<not> is_word (hd r)" using Cons.prems(2) by (auto simp: path_stop_def split: list.splits)
    have "scan_path r' = None" if "r = CHR ''.'' # r'" for r'
      using Cons.prems(2) that by (auto simp: path_stop_def scan_path_None)
    then show ?thesis using p Nil w scan_path_unfold [OF w(2) stop] by (auto split: list.splits)
  next
    case ws: (Cons v vs)
    define p' where "p' = join_dot ws"
    have pp: "p = w @ CHR ''.'' # p'" using p ws by (simp add: p'_def)
    have free: "\<forall>d \<in> set ws. dot_free d"
      using split_dot_dot_free [of _ p] Cons.hyps(2) by (metis list.set_intros(2))
    have sp: "split_dot p' = ws" unfolding p'_def using ws free by (intro split_join_dot) auto
    have "is_path p'"
      using Cons.prems(1) sp unfolding is_path_def Cons.hyps(2) [symmetric] by simp
    then have IH: "scan_path (p' @ r) = Some (p', r)"
      using Cons.hyps(1) [of p'] Cons.prems(2) sp by simp
    show ?thesis using scan_path_unfold [OF w(2), of "CHR ''.'' # p' @ r"] w IH pp by simp
  qed
qed (metis split_dot_nonempty)

lemma read_path_is_path: "read_path e = Some p \<Longrightarrow> is_path p"
  by (auto simp: read_path_def dest!: scan_path_Some)

lemma read_set_is_path: "p \<in> set (read_set exprs) \<Longrightarrow> is_path p"
  by (auto simp: set_read_set dest: read_path_is_path)

section \<open>Versions\<close>

type_synonym path_versions = "(string, int) dict"

text \<open>A registered predicate: the version of its last truth change, its truth, and when it was registered (s).\<close>

type_synonym pred_entry = "int \<times> bool \<times> rat"
type_synonym pred_versions = "(string, pred_entry) dict"

definition read_set_version :: "path_versions \<Rightarrow> string list \<Rightarrow> int" where
  "read_set_version pvs paths =
     max_default0 (map snd (filter (\<lambda>pv. \<exists>r \<in> set paths. related (fst pv) r) pvs))"

fun predicate_version_from :: "pred_versions \<Rightarrow> int \<Rightarrow> string list \<Rightarrow> int" where
  "predicate_version_from pvs out [] = out"
| "predicate_version_from pvs out (e # es) =
     (case map_of pvs e of
        None \<Rightarrow> - 1
      | Some entry \<Rightarrow> predicate_version_from pvs (max out (fst entry)) es)"

definition predicate_version :: "pred_versions \<Rightarrow> string list \<Rightarrow> int" where
  "predicate_version pvs exprs = predicate_version_from pvs 0 exprs"

lemma read_set_version_mem:
  "(p, v) \<in> set pvs \<Longrightarrow> r \<in> set paths \<Longrightarrow> related p r \<Longrightarrow> v \<le> read_set_version pvs paths"
  unfolding read_set_version_def by (rule max_default0_ge) force

lemma read_set_version_le:
  "0 \<le> n \<Longrightarrow> (\<And>p v. (p, v) \<in> set pvs \<Longrightarrow> v \<le> n) \<Longrightarrow> read_set_version pvs paths \<le> n"
  unfolding read_set_version_def by (rule max_default0_le) auto

text \<open>Either nothing related is stored and the version is 0, or it is the version of some related path.\<close>

lemma read_set_version_cases:
  "read_set_version pvs paths = 0 \<or>
   (\<exists>p r. (p, read_set_version pvs paths) \<in> set pvs \<and> r \<in> set paths \<and> related p r)"
proof (cases "filter (\<lambda>pv. \<exists>r \<in> set paths. related (fst pv) r) pvs = []")
  case False
  then have "read_set_version pvs paths \<in> snd ` set (filter (\<lambda>pv. \<exists>r \<in> set paths. related (fst pv) r) pvs)"
    using max_default0_in [of "map snd (filter (\<lambda>pv. \<exists>r \<in> set paths. related (fst pv) r) pvs)"]
    by (simp add: read_set_version_def)
  then show ?thesis by auto
qed (simp add: read_set_version_def max_default0_def)

lemma read_set_version_nonneg:
  "(\<And>p v. (p, v) \<in> set pvs \<Longrightarrow> 0 \<le> v) \<Longrightarrow> 0 \<le> read_set_version pvs paths"
  using read_set_version_cases [of pvs paths] by auto

text \<open>Only the entries of related paths matter.\<close>

lemma read_set_version_cong:
  assumes "wf_dict a" "wf_dict b"
    and "\<And>p r. r \<in> set paths \<Longrightarrow> related p r \<Longrightarrow> map_of a p = map_of b p"
  shows "read_set_version a paths = read_set_version b paths"
proof -
  let ?F = "filter (\<lambda>pv. \<exists>r \<in> set paths. related (fst pv) r)"
  have mem: "(p, v) \<in> set d \<longleftrightarrow> map_of d p = Some v" if "wf_dict d" for d :: path_versions and p v
    by (simp add: that)
  have "(p, v) \<in> set (?F a) \<longleftrightarrow> (p, v) \<in> set (?F b)" for p v
  proof (cases "\<exists>r \<in> set paths. related p r")
    case True
    then have "map_of a p = map_of b p" using assms(3) by blast
    then show ?thesis using True mem [OF assms(1), of p v] mem [OF assms(2), of p v] by simp
  qed simp
  then have "set (?F a) = set (?F b)" by (simp only: set_eq_iff split_paired_All) blast
  then have "snd ` set (?F a) = snd ` set (?F b)" by (rule arg_cong)
  then show ?thesis unfolding read_set_version_def by (intro max_default0_cong) (simp only: set_map)
qed

lemma predicate_version_from_neg:
  "predicate_version_from pvs out es < 0 \<longleftrightarrow> (\<exists>e \<in> set es. map_of pvs e = None)" if "0 \<le> out"
  using that by (induction es arbitrary: out) (auto split: option.splits)

lemma predicate_version_from_ge:
  "\<forall>e \<in> set es. map_of pvs e \<noteq> None \<Longrightarrow>
   out \<le> predicate_version_from pvs out es \<and>
   (\<forall>e \<in> set es. \<forall>v. map_of pvs e = Some v \<longrightarrow> fst v \<le> predicate_version_from pvs out es)"
proof (induction es arbitrary: out)
  case (Cons e es)
  then obtain v where v: "map_of pvs e = Some v" by auto
  from Cons.IH [of "max out (fst v)"] Cons.prems v show ?case by auto
qed simp

lemma predicate_version_from_in:
  "\<forall>e \<in> set es. map_of pvs e \<noteq> None \<Longrightarrow>
   predicate_version_from pvs out es = out \<or>
   (\<exists>e \<in> set es. \<exists>v. map_of pvs e = Some v \<and> predicate_version_from pvs out es = fst v)"
proof (induction es arbitrary: out)
  case (Cons e es)
  then obtain v where v: "map_of pvs e = Some v" by auto
  from Cons.IH [of "max out (fst v)"] Cons.prems v show ?case
    by (auto simp: max_def split: if_splits)
qed simp

text \<open>\<^const>\<open>predicate_version\<close> is negative exactly when one of the predicates is not registered.\<close>

lemma predicate_version_neg:
  "predicate_version pvs es < 0 \<longleftrightarrow> (\<exists>e \<in> set es. map_of pvs e = None)"
  unfolding predicate_version_def by (rule predicate_version_from_neg) simp

lemma predicate_version_ge:
  "0 \<le> predicate_version pvs es \<Longrightarrow> e \<in> set es \<Longrightarrow>
   \<exists>v. map_of pvs e = Some v \<and> fst v \<le> predicate_version pvs es"
  using predicate_version_neg [of pvs es] predicate_version_from_ge [of es pvs 0]
  by (fastforce simp: predicate_version_def)

lemma predicate_version_in:
  "0 \<le> predicate_version pvs es \<Longrightarrow>
   predicate_version pvs es = 0 \<or>
   (\<exists>e \<in> set es. \<exists>v. map_of pvs e = Some v \<and> predicate_version pvs es = fst v)"
  using predicate_version_neg [of pvs es] predicate_version_from_in [of es pvs 0]
  by (fastforce simp: predicate_version_def)

end
