(* ===== verification/Predicates.thy ===== *)
theory Predicates
  imports Versioning
begin

text \<open>
  The predicate language of \<^verbatim>\<open>xair/core/context_validator.py\<close>: the parser of \<^verbatim>\<open>Path Op Literal\<close>
  (the regular expression \<^verbatim>\<open>_PATTERN\<close>), the strictly typed, fail-closed evaluation of one predicate
  against a context, and the conjunctive evaluation with its wall-clock bound. The parser is proved
  equivalent to the grammar of the comment above \<^verbatim>\<open>_PATTERN\<close>, and evaluation is shown to depend on
  the context only through the path that the read-set names.
\<close>

section \<open>Parsing\<close>

datatype cmp_op = OpEq | OpNe | OpLt | OpLe | OpGt | OpGe

text \<open>\<^verbatim>\<open>$\<close> matches at the end and before a final newline.\<close>

definition at_end :: "string \<Rightarrow> bool" where
  "at_end r = (r = [] \<or> r = [CHR 0x0A])"

definition scan_op :: "string \<Rightarrow> (cmp_op \<times> string) option" where
  "scan_op s =
     (if starts_with s ''=='' then Some (OpEq, drop 2 s)
      else if starts_with s ''!='' then Some (OpNe, drop 2 s)
      else if starts_with s ''<='' then Some (OpLe, drop 2 s)
      else if starts_with s ''>='' then Some (OpGe, drop 2 s)
      else if starts_with s ''<'' then Some (OpLt, drop 1 s)
      else if starts_with s ''>'' then Some (OpGt, drop 1 s)
      else if starts_with s ''='' then Some (OpEq, drop 1 s)
      else None)"

definition scan_quoted :: "char \<Rightarrow> string \<Rightarrow> json option" where
  "scan_quoted q t =
     (case dropWhile (\<lambda>c. c \<noteq> q) t of
        [] \<Rightarrow> None
      | _ # e \<Rightarrow> if at_end e then Some (JStr (takeWhile (\<lambda>c. c \<noteq> q) t)) else None)"

definition decimal :: "string \<Rightarrow> string \<Rightarrow> rat" where
  "decimal ip fp = of_nat (nat_of_digits (ip @ fp)) / 10 ^ length fp"

definition scan_number :: "string \<Rightarrow> json option" where
  "scan_number s =
     (let neg = starts_with s ''-''; u = (if neg then drop 1 s else s);
          ip = takeWhile is_digit u; r1 = dropWhile is_digit u
      in if ip = [] then None
         else if at_end r1 then Some (JInt ((if neg then - 1 else 1) * int (nat_of_digits ip)))
         else case r1 of
                [] \<Rightarrow> None
              | c # r2 \<Rightarrow>
                  (let fp = takeWhile is_digit r2
                   in if c = CHR ''.'' \<and> fp \<noteq> [] \<and> at_end (dropWhile is_digit r2)
                      then Some (JFloat (double_of_rat ((if neg then - 1 else 1) * decimal ip fp)))
                      else None))"

definition scan_literal :: "string \<Rightarrow> json option" where
  "scan_literal s =
     (if starts_with s [CHR 0x27] then scan_quoted (CHR 0x27) (drop 1 s)
      else if starts_with s [CHR 0x22] then scan_quoted (CHR 0x22) (drop 1 s)
      else if (starts_with s ''true'' \<or> starts_with s ''True'') \<and> at_end (drop 4 s) then Some (JBool True)
      else if (starts_with s ''false'' \<or> starts_with s ''False'') \<and> at_end (drop 5 s) then Some (JBool False)
      else scan_number s)"

definition parse_pred :: "string \<Rightarrow> (string \<times> cmp_op \<times> json) option" where
  "parse_pred expr =
     (case scan_path expr of
        None \<Rightarrow> None
      | Some (path, r1) \<Rightarrow>
          (case scan_op (dropWhile is_space r1) of
             None \<Rightarrow> None
           | Some (op, r2) \<Rightarrow>
               (case scan_literal (dropWhile is_space r2) of
                  None \<Rightarrow> None
                | Some right \<Rightarrow> Some (path, op, right))))"

lemmas scan_number_code [code] = scan_number_def [unfolded Let_def]

section \<open>The grammar\<close>

abbreviation digits :: "string \<Rightarrow> bool" where
  "digits s \<equiv> s \<noteq> [] \<and> (\<forall>c \<in> set s. is_digit c)"

inductive literal_text :: "string \<Rightarrow> json \<Rightarrow> bool" where
  single: "CHR 0x27 \<notin> set t \<Longrightarrow> literal_text (CHR 0x27 # t @ [CHR 0x27]) (JStr t)"
| double: "CHR 0x22 \<notin> set t \<Longrightarrow> literal_text (CHR 0x22 # t @ [CHR 0x22]) (JStr t)"
| true: "s = ''true'' \<or> s = ''True'' \<Longrightarrow> literal_text s (JBool True)"
| false: "s = ''false'' \<or> s = ''False'' \<Longrightarrow> literal_text s (JBool False)"
| int: "digits ip \<Longrightarrow> literal_text ip (JInt (int (nat_of_digits ip)))"
| neg_int: "digits ip \<Longrightarrow> literal_text (CHR ''-'' # ip) (JInt (- int (nat_of_digits ip)))"
| flt: "digits ip \<Longrightarrow> digits fp \<Longrightarrow>
    literal_text (ip @ CHR ''.'' # fp) (JFloat (double_of_rat (decimal ip fp)))"
| neg_flt: "digits ip \<Longrightarrow> digits fp \<Longrightarrow>
    literal_text (CHR ''-'' # ip @ CHR ''.'' # fp) (JFloat (double_of_rat (- decimal ip fp)))"

inductive op_text :: "string \<Rightarrow> cmp_op \<Rightarrow> bool" where
  "op_text ''=='' OpEq" | "op_text ''='' OpEq" | "op_text ''!='' OpNe"
| "op_text ''<'' OpLt" | "op_text ''<='' OpLe" | "op_text ''>'' OpGt" | "op_text ''>='' OpGe"

inductive pred_text :: "string \<Rightarrow> string \<times> cmp_op \<times> json \<Rightarrow> bool" where
  "is_path p \<Longrightarrow> op_text os op \<Longrightarrow> literal_text t v \<Longrightarrow> (\<forall>c \<in> set w1 \<union> set w2. is_space c) \<Longrightarrow> at_end e \<Longrightarrow>
   pred_text (p @ w1 @ os @ w2 @ t @ e) (p, op, v)"

lemma at_end_dropWhile_digit: "at_end e \<Longrightarrow> e = [] \<or> \<not> is_digit (hd e)"
  by (auto simp: at_end_def is_digit_def code_def)

lemma digits_take_drop:
  assumes "\<forall>c \<in> set ip. is_digit c" "r = [] \<or> \<not> is_digit (hd r)"
  shows "takeWhile is_digit (ip @ r) = ip" "dropWhile is_digit (ip @ r) = r"
  using takeWhile_append_stop [OF assms] by auto

lemma digit_span: "u = takeWhile is_digit u @ dropWhile is_digit u"
    "\<forall>c \<in> set (takeWhile is_digit u). is_digit c"
  by (auto dest: set_takeWhileD)

lemma scan_quoted_sound:
  assumes "scan_quoted q t = Some v"
  obtains b e where "t = b @ q # e" "q \<notin> set b" "at_end e" "v = JStr b"
proof -
  from assms obtain c e where d: "dropWhile (\<lambda>c. c \<noteq> q) t = c # e" and e: "at_end e"
      and v: "v = JStr (takeWhile (\<lambda>c. c \<noteq> q) t)"
    by (auto simp: scan_quoted_def split: list.splits if_splits)
  have "c = q" using d by (metis (mono_tags, lifting) hd_dropWhile list.distinct(1) list.sel(1))
  moreover have "t = takeWhile (\<lambda>c. c \<noteq> q) t @ c # e" using d by (metis takeWhile_dropWhile_id)
  moreover have "q \<notin> set (takeWhile (\<lambda>c. c \<noteq> q) t)" by (auto dest: set_takeWhileD)
  ultimately show ?thesis using that e v by blast
qed

lemma scan_quoted_complete: "q \<notin> set b \<Longrightarrow> at_end e \<Longrightarrow> scan_quoted q (b @ q # e) = Some (JStr b)"
proof -
  assume b: "q \<notin> set b" and e: "at_end e"
  have "takeWhile (\<lambda>c. c \<noteq> q) (b @ q # e) = b" "dropWhile (\<lambda>c. c \<noteq> q) (b @ q # e) = q # e"
    using takeWhile_append_stop [of b "\<lambda>c. c \<noteq> q" "q # e"] b by (metis (mono_tags, lifting) list.sel(1))+
  then show ?thesis using e by (simp add: scan_quoted_def)
qed

lemma scan_number_sound:
  assumes "scan_number s = Some v"
  shows "\<exists>t e. s = t @ e \<and> literal_text t v \<and> at_end e"
proof -
  define neg where "neg = starts_with s ''-''"
  define u where "u = (if neg then drop 1 s else s)"
  define ip where "ip = takeWhile is_digit u"
  define r1 where "r1 = dropWhile is_digit u"
  have u: "u = ip @ r1" "\<forall>c \<in> set ip. is_digit c" using digit_span [of u] by (auto simp: ip_def r1_def)
  have s: "s = (if neg then CHR ''-'' # u else u)"
    by (auto simp: u_def neg_def prefix_def)
  note eq = assms [unfolded scan_number_def Let_def, folded neg_def, folded u_def, folded ip_def r1_def]
  then have ip: "digits ip" using u by (auto split: if_splits)
  show ?thesis
  proof (cases "at_end r1")
    case True
    with eq ip have "v = JInt ((if neg then - 1 else 1) * int (nat_of_digits ip))" by simp
    then have "literal_text (if neg then CHR ''-'' # ip else ip) v"
      using ip by (auto intro: literal_text.intros)
    with True s u show ?thesis by (intro exI [of _ "if neg then CHR ''-'' # ip else ip"] exI [of _ r1]) auto
  next
    case False
    then obtain r2 where r2: "r1 = CHR ''.'' # r2" and fp: "takeWhile is_digit r2 \<noteq> []"
        "at_end (dropWhile is_digit r2)"
        and v: "v = JFloat (double_of_rat ((if neg then - 1 else 1) * decimal ip (takeWhile is_digit r2)))"
      using eq ip by (auto split: list.splits if_splits)
    let ?t = "(if neg then [CHR ''-''] else []) @ ip @ CHR ''.'' # takeWhile is_digit r2"
    have "literal_text ?t v"
      using ip fp v digit_span(2) [of r2] by (auto intro: literal_text.intros)
    moreover have "s = ?t @ dropWhile is_digit r2" using s u r2 by auto
    ultimately show ?thesis using fp by blast
  qed
qed

lemma if_chain_cases:
  "(if A then a else if B then b else if C then c else if D then d else n) = x \<Longrightarrow>
   (A \<and> a = x) \<or> (B \<and> b = x) \<or> (C \<and> c = x) \<or> (D \<and> d = x) \<or> n = x"
  by (auto split: if_splits)

lemma scan_literal_cases:
  assumes "scan_literal s = Some v"
  obtains (sq) r where "s = CHR 0x27 # r" "scan_quoted (CHR 0x27) r = Some v"
    | (dq) r where "s = CHR 0x22 # r" "scan_quoted (CHR 0x22) r = Some v"
    | (t) r where "s = ''true'' @ r \<or> s = ''True'' @ r" "at_end r" "v = JBool True"
    | (f) r where "s = ''false'' @ r \<or> s = ''False'' @ r" "at_end r" "v = JBool False"
    | (n) "scan_number s = Some v"
proof -
  consider (sq) "starts_with s [CHR 0x27]" "scan_quoted (CHR 0x27) (drop 1 s) = Some v"
    | (dq) "starts_with s [CHR 0x22]" "scan_quoted (CHR 0x22) (drop 1 s) = Some v"
    | (t) "starts_with s ''true'' \<or> starts_with s ''True''" "at_end (drop 4 s)" "v = JBool True"
    | (f) "starts_with s ''false'' \<or> starts_with s ''False''" "at_end (drop 5 s)" "v = JBool False"
    | (n) "scan_number s = Some v"
    using if_chain_cases [OF assms [unfolded scan_literal_def]] by blast
  then show ?thesis
  proof cases
    case sq
    then show ?thesis using that(1) [of "drop 1 s"] starts_with_drop [of "[CHR 0x27]" s] by simp
  next
    case dq
    then show ?thesis using that(2) [of "drop 1 s"] starts_with_drop [of "[CHR 0x22]" s] by simp
  next
    case t
    from t(1) have "s = ''true'' @ drop 4 s \<or> s = ''True'' @ drop 4 s"
      by (simp only: starts_with_drop [of "''true''" s] starts_with_drop [of "''True''" s]) (simp add: eval_nat_numeral)
    with t that(3) show ?thesis by blast
  next
    case f
    from f(1) have "s = ''false'' @ drop 5 s \<or> s = ''False'' @ drop 5 s"
      by (simp only: starts_with_drop [of "''false''" s] starts_with_drop [of "''False''" s]) (simp add: eval_nat_numeral)
    with f that(4) show ?thesis by blast
  next
    case n
    with that(5) show ?thesis by blast
  qed
qed

lemma scan_literal_sound:
  assumes "scan_literal s = Some v"
  shows "\<exists>t e. s = t @ e \<and> literal_text t v \<and> at_end e"
  using assms
proof (cases rule: scan_literal_cases)
  case (sq r)
  from sq(2) obtain b e where "r = b @ CHR 0x27 # e" "CHR 0x27 \<notin> set b" "at_end e" "v = JStr b"
    by (rule scan_quoted_sound)
  with sq show ?thesis
    by (intro exI [of _ "CHR 0x27 # b @ [CHR 0x27]"] exI [of _ e]) (auto intro: literal_text.single)
next
  case (dq r)
  from dq(2) obtain b e where "r = b @ CHR 0x22 # e" "CHR 0x22 \<notin> set b" "at_end e" "v = JStr b"
    by (rule scan_quoted_sound)
  with dq show ?thesis
    by (intro exI [of _ "CHR 0x22 # b @ [CHR 0x22]"] exI [of _ e]) (auto intro: literal_text.double)
next
  case t
  then show ?thesis by (metis literal_text.true)
next
  case f
  then show ?thesis by (metis literal_text.false)
next
  case n
  then show ?thesis by (rule scan_number_sound)
qed

lemma scan_number_complete:
  assumes ip: "digits ip" and e: "at_end e"
  shows "scan_number ((if neg then [CHR ''-''] else []) @ ip @ e) =
           Some (JInt ((if neg then - 1 else 1) * int (nat_of_digits ip)))"
    and "digits fp \<Longrightarrow> scan_number ((if neg then [CHR ''-''] else []) @ ip @ CHR ''.'' # fp @ e) =
           Some (JFloat (double_of_rat ((if neg then - 1 else 1) * decimal ip fp)))"
proof -
  have nd: "\<not> is_digit CHR ''-''" "\<not> is_digit CHR ''.''" by (simp_all add: is_digit_def code_def)
  have sgn: "starts_with ((if neg then [CHR ''-''] else []) @ ip @ r) ''-'' = neg" for r
    using ip nd(1) by (cases ip) (auto simp: prefix_def)
  have strip_sgn: "(if neg then drop 1 ((if neg then [CHR ''-''] else []) @ x)
      else (if neg then [CHR ''-''] else []) @ x) = x" for x by simp
  have td: "takeWhile is_digit (ip @ e) = ip" "dropWhile is_digit (ip @ e) = e"
    using digits_take_drop [of ip e] ip e at_end_dropWhile_digit by auto
  show "scan_number ((if neg then [CHR ''-''] else []) @ ip @ e) =
           Some (JInt ((if neg then - 1 else 1) * int (nat_of_digits ip)))"
    unfolding scan_number_def Let_def sgn strip_sgn td using ip e by simp
  assume fp: "digits fp"
  let ?r = "CHR ''.'' # fp @ e"
  have td2: "takeWhile is_digit (ip @ ?r) = ip" "dropWhile is_digit (ip @ ?r) = ?r"
    using digits_take_drop [of ip ?r] ip nd(2) by auto
  have td3: "takeWhile is_digit (fp @ e) = fp" "dropWhile is_digit (fp @ e) = e"
    using digits_take_drop [of fp e] fp e at_end_dropWhile_digit by auto
  have "\<not> at_end ?r" by (simp add: at_end_def)
  then show "scan_number ((if neg then [CHR ''-''] else []) @ ip @ ?r) =
           Some (JFloat (double_of_rat ((if neg then - 1 else 1) * decimal ip fp)))"
    unfolding scan_number_def Let_def sgn strip_sgn td2 using ip fp e td3 by simp
qed

text \<open>The first character of a literal is no space, no \<^verbatim>\<open>=\<close>, and tells the alternative apart.\<close>

lemma digit_first:
  assumes "digits ip"
  obtains c r where "ip = c # r" "48 \<le> code c" "code c \<le> 57"
  using assms by (cases ip) (auto simp: is_digit_def)

lemma scan_literal_number:
  assumes "s = c # r" "c = CHR ''-'' \<or> (48 \<le> code c \<and> code c \<le> 57)"
  shows "scan_literal s = scan_number s"
proof -
  have "CHR 0x27 \<noteq> c" "CHR 0x22 \<noteq> c" "CHR ''t'' \<noteq> c" "CHR ''T'' \<noteq> c" "CHR ''f'' \<noteq> c" "CHR ''F'' \<noteq> c"
    using assms(2) by (auto simp: code_def)
  then show ?thesis using assms(1) by (simp add: scan_literal_def)
qed

lemma scan_literal_complete: "literal_text t v \<Longrightarrow> at_end e \<Longrightarrow> scan_literal (t @ e) = Some v"
proof (induction rule: literal_text.induct)
  case (single t)
  then show ?case by (simp add: scan_literal_def scan_quoted_complete)
next
  case (double t)
  then show ?case by (simp add: scan_literal_def scan_quoted_complete)
next
  case (true s)
  then show ?case by (auto simp: scan_literal_def)
next
  case (false s)
  then show ?case by (auto simp: scan_literal_def)
next
  case (int ip)
  from int(1) obtain c r where "ip = c # r" "48 \<le> code c" "code c \<le> 57" by (rule digit_first)
  then have "scan_literal (ip @ e) = scan_number (ip @ e)" by (intro scan_literal_number) auto
  then show ?case using scan_number_complete(1) [OF int, of False] by simp
next
  case (neg_int ip)
  have "scan_literal (CHR ''-'' # ip @ e) = scan_number (CHR ''-'' # ip @ e)"
    by (intro scan_literal_number) auto
  then show ?case using scan_number_complete(1) [OF neg_int, of True] by simp
next
  case (flt ip fp)
  from flt(1) obtain c r where "ip = c # r" "48 \<le> code c" "code c \<le> 57" by (rule digit_first)
  then have "scan_literal (ip @ CHR ''.'' # fp @ e) = scan_number (ip @ CHR ''.'' # fp @ e)"
    by (intro scan_literal_number) auto
  then show ?case using scan_number_complete(2) [OF flt(1,3,2), of False] by simp
next
  case (neg_flt ip fp)
  have "scan_literal (CHR ''-'' # ip @ CHR ''.'' # fp @ e) = scan_number (CHR ''-'' # ip @ CHR ''.'' # fp @ e)"
    by (intro scan_literal_number) auto
  then show ?case using scan_number_complete(2) [OF neg_flt(1,3,2), of True] by simp
qed

lemma digit_no_space_eq: "48 \<le> code c \<Longrightarrow> code c \<le> 57 \<Longrightarrow> \<not> is_space c \<and> c \<noteq> CHR ''=''"
  by (auto simp: is_space_def code_def)

lemma literal_text_first:
  assumes "literal_text t v"
  shows "\<exists>c r. t = c # r \<and> \<not> is_space c \<and> c \<noteq> CHR ''=''"
  using assms
proof (cases rule: literal_text.cases)
  case int
  then obtain c r where "t = c # r" "48 \<le> code c" "code c \<le> 57" using digit_first by metis
  with digit_no_space_eq show ?thesis by blast
next
  case (flt ip fp)
  from flt(3) obtain c r where "ip = c # r" "48 \<le> code c" "code c \<le> 57" by (rule digit_first)
  with flt(1) digit_no_space_eq show ?thesis by (metis append_Cons)
next
  case true
  then show ?thesis by (elim disjE) (simp_all add: is_space_def code_def)
next
  case false
  then show ?thesis by (elim disjE) (simp_all add: is_space_def code_def)
qed (simp_all add: is_space_def code_def)

lemma scan_op_complete:
  "op_text os op \<Longrightarrow> r = [] \<or> hd r \<noteq> CHR ''='' \<Longrightarrow> scan_op (os @ r) = Some (op, r)"
  by (induction rule: op_text.induct) (cases r; auto simp: scan_op_def)+

lemma scan_op_sound: "scan_op s = Some (op, r) \<Longrightarrow> \<exists>os. s = os @ r \<and> op_text os op"
  by (auto simp: scan_op_def prefix_def split: if_splits intro: op_text.intros)

lemma op_text_first: "op_text os op \<Longrightarrow> \<exists>c r. os = c # r \<and> \<not> is_space c \<and> \<not> is_word c \<and> c \<noteq> CHR ''.''"
  by (induction rule: op_text.induct) (auto simp: is_space_def is_word_def code_def)

lemma space_not_word: "is_space c \<Longrightarrow> \<not> is_word c \<and> c \<noteq> CHR ''.''"
  by (auto simp: is_space_def is_word_def code_def)

lemma dropWhile_space: "\<forall>c \<in> set w. is_space c \<Longrightarrow> s = [] \<or> \<not> is_space (hd s) \<Longrightarrow> dropWhile is_space (w @ s) = s"
  using takeWhile_append_stop [of w is_space s] by auto

text \<open>The parser decides the grammar and finds the only reading of a predicate.\<close>

lemma parse_pred_iff: "parse_pred s = Some (p, op, v) \<longleftrightarrow> pred_text s (p, op, v)"
proof
  assume "parse_pred s = Some (p, op, v)"
  then obtain r1 r2 where r: "scan_path s = Some (p, r1)" "scan_op (dropWhile is_space r1) = Some (op, r2)"
      "scan_literal (dropWhile is_space r2) = Some v"
    by (auto simp: parse_pred_def split: option.splits prod.splits)
  obtain os where os: "dropWhile is_space r1 = os @ r2" "op_text os op" using scan_op_sound [OF r(2)] by auto
  obtain t e where t: "dropWhile is_space r2 = t @ e" "literal_text t v" "at_end e"
    using scan_literal_sound [OF r(3)] by auto
  have "s = p @ takeWhile is_space r1 @ os @ takeWhile is_space r2 @ t @ e"
    using scan_path_Some [OF r(1)] os(1) t(1) by (metis takeWhile_dropWhile_id append.assoc)
  moreover have "is_path p" using scan_path_Some [OF r(1)] by simp
  moreover have "\<forall>c \<in> set (takeWhile is_space r1) \<union> set (takeWhile is_space r2). is_space c"
    by (auto dest: set_takeWhileD)
  ultimately show "pred_text s (p, op, v)" using os(2) t(2,3) by (auto intro: pred_text.intros)
next
  assume "pred_text s (p, op, v)"
  then obtain os t w1 w2 e where s: "s = p @ w1 @ os @ w2 @ t @ e" and p: "is_path p"
      and os: "op_text os op" and t: "literal_text t v" and w: "\<forall>c \<in> set w1 \<union> set w2. is_space c"
      and e: "at_end e"
    by (auto elim: pred_text.cases)
  obtain oc orr where oc: "os = oc # orr" "\<not> is_space oc" "\<not> is_word oc" "oc \<noteq> CHR ''.''"
    using op_text_first [OF os] by auto
  obtain tc tr where tc: "t = tc # tr" "\<not> is_space tc" "tc \<noteq> CHR ''=''"
    using literal_text_first [OF t] by metis
  have "path_stop (w1 @ os @ w2 @ t @ e)"
    using w oc space_not_word by (cases w1) (auto simp: path_stop_def)
  then have 1: "scan_path s = Some (p, w1 @ os @ w2 @ t @ e)" unfolding s by (rule scan_path_complete [OF p])
  have 2: "dropWhile is_space (w1 @ os @ w2 @ t @ e) = os @ w2 @ t @ e"
    using dropWhile_space [of w1 "os @ w2 @ t @ e"] w oc by auto
  have "hd (w2 @ t @ e) \<noteq> CHR ''=''"
    using w tc by (cases w2) (auto simp: is_space_def code_def)
  then have 3: "scan_op (os @ w2 @ t @ e) = Some (op, w2 @ t @ e)" using scan_op_complete [OF os] by auto
  have 4: "dropWhile is_space (w2 @ t @ e) = t @ e"
    using dropWhile_space [of w2 "t @ e"] w tc by auto
  show "parse_pred s = Some (p, op, v)"
    using 1 2 3 4 scan_literal_complete [OF t e] by (simp add: parse_pred_def)
qed

section \<open>Evaluating one predicate\<close>

text \<open>\<^verbatim>\<open>_resolve\<close>: a missing key reads as \<^verbatim>\<open>None\<close>, like a null.\<close>

fun resolve_from :: "json \<Rightarrow> string list \<Rightarrow> json" where
  "resolve_from node [] = node"
| "resolve_from node (part # parts) =
     (case node of
        JObj kvs \<Rightarrow> resolve_from (case map_of kvs part of None \<Rightarrow> JNull | Some v \<Rightarrow> v) parts
      | _ \<Rightarrow> JNull)"

definition resolve :: "ctx \<Rightarrow> string \<Rightarrow> json" where
  "resolve ctx path = resolve_from (JObj ctx) (split_dot path)"

text \<open>
  \<^verbatim>\<open>float(s)\<close>: surrounding white space, a sign, \<^verbatim>\<open>inf\<close>, \<^verbatim>\<open>infinity\<close> or \<^verbatim>\<open>nan\<close> in any case, or a decimal
  number with an optional exponent and single underscores between digits. \<^const>\<open>None\<close> is \<^verbatim>\<open>ValueError\<close>.
\<close>

function digitpart :: "string \<Rightarrow> string \<times> string" where
  "digitpart s =
     (case s of
        [] \<Rightarrow> ([], [])
      | c # r \<Rightarrow>
          (if \<not> is_digit c then ([], s)
           else let r' = (case r of u # d # _ \<Rightarrow> if u = CHR ''_'' \<and> is_digit d then tl r else r | _ \<Rightarrow> r);
                    (ds, rest) = digitpart r'
                in (c # ds, rest)))"
  by pat_completeness auto
termination
  by (relation "measure length") (auto split: list.splits)

declare digitpart.simps [simp del]

definition py_exponent :: "string \<Rightarrow> int option" where
  "py_exponent s =
     (case s of
        [] \<Rightarrow> Some 0
      | c # r \<Rightarrow>
          (if c \<noteq> CHR ''e'' \<and> c \<noteq> CHR ''E'' then None
           else let neg = starts_with r ''-'';
                    u = (if neg \<or> starts_with r ''+'' then drop 1 r else r);
                    (ds, rest) = digitpart u
                in if ds \<noteq> [] \<and> rest = [] then Some ((if neg then - 1 else 1) * int (nat_of_digits ds)) else None))"

definition py_unsigned_float :: "string \<Rightarrow> pyfloat option" where
  "py_unsigned_float u =
     (if lower u = ''inf'' \<or> lower u = ''infinity'' then Some PosInf
      else if lower u = ''nan'' then Some NaN
      else let (ip, r1) = digitpart u;
               (fp, r2) = (case r1 of c # r \<Rightarrow> if c = CHR ''.'' then digitpart r else ([], r1) | [] \<Rightarrow> ([], []))
           in if ip = [] \<and> fp = [] then None
              else case py_exponent r2 of
                     None \<Rightarrow> None
                   | Some e \<Rightarrow>
                       (let q = e - int (length fp); n = of_nat (nat_of_digits (ip @ fp))
                        in Some (double_of_rat (if 0 \<le> q then n * 10 ^ nat q else n / 10 ^ nat (- q)))))"

definition py_float :: "string \<Rightarrow> pyfloat option" where
  "py_float s =
     (let t = strip s
      in if starts_with t ''-'' then map_option flt_neg (py_unsigned_float (drop 1 t))
         else py_unsigned_float (if starts_with t ''+'' then drop 1 t else t))"

text \<open>
  Aligning the context value with the literal's type; \<^const>\<open>None\<close> is the \<^verbatim>\<open>ill_typed\<close> return.
\<close>

definition align :: "json \<Rightarrow> json \<Rightarrow> (json \<times> json) option" where
  "align left right =
     (case (left, right) of
        (JStr s, JBool b) \<Rightarrow>
          Some (if lower s = ''true'' \<or> lower s = ''false'' then JBool (lower s = ''true'') else left, right)
      | (JStr s, JInt _) \<Rightarrow> map_option (\<lambda>f. (JFloat f, right)) (py_float s)
      | (JStr s, JFloat _) \<Rightarrow> map_option (\<lambda>f. (JFloat f, right)) (py_float s)
      | (JInt _, JStr s) \<Rightarrow> map_option (\<lambda>f. (left, JFloat f)) (py_float s)
      | (JFloat _, JStr s) \<Rightarrow> map_option (\<lambda>f. (left, JFloat f)) (py_float s)
      | _ \<Rightarrow> Some (left, right))"

definition is_ordering :: "cmp_op \<Rightarrow> bool" where
  "is_ordering op = (op \<noteq> OpEq \<and> op \<noteq> OpNe)"

definition ordering_holds :: "cmp_op \<Rightarrow> json \<Rightarrow> json \<Rightarrow> bool" where
  "ordering_holds op l r =
     (case op of
        OpLt \<Rightarrow> flt_lt (num_val l) (num_val r)
      | OpLe \<Rightarrow> flt_le (num_val l) (num_val r)
      | OpGt \<Rightarrow> flt_lt (num_val r) (num_val l)
      | OpGe \<Rightarrow> flt_le (num_val r) (num_val l)
      | _ \<Rightarrow> False)"

text \<open>\<^const>\<open>None\<close>: the operands are not comparable.\<close>

definition equality_holds :: "json \<Rightarrow> json \<Rightarrow> bool option" where
  "equality_holds l r =
     (case (l, r) of
        (JBool a, JBool b) \<Rightarrow> Some (a = b)
      | (JStr s, JStr t) \<Rightarrow> Some (s = t)
      | _ \<Rightarrow> if is_number l \<and> is_number r then Some (flt_eq (num_val l) (num_val r)) else None)"

definition compare_values :: "cmp_op \<Rightarrow> json \<Rightarrow> json \<Rightarrow> bool option" where
  "compare_values op left right =
     (case align left right of
        None \<Rightarrow> None
      | Some (l, r) \<Rightarrow>
          (if is_ordering op then
             (if is_number l \<and> is_number r then Some (ordering_holds op l r) else None)
           else map_option (\<lambda>eq. if op = OpEq then eq else \<not> eq) (equality_holds l r)))"

definition check_expression :: "string \<Rightarrow> ctx \<Rightarrow> bool \<times> string" where
  "check_expression expr0 ctx =
     (let expr = strip expr0
      in if expr = [] then (False, ''empty_expression'')
         else case parse_pred expr of
                None \<Rightarrow> (False, ''unsupported: '' @ expr)
              | Some (path, op, right) \<Rightarrow>
                  (let left = resolve ctx path
                   in if left = JNull then (False, ''missing_path: '' @ expr)
                      else case compare_values op left right of
                             None \<Rightarrow> (False, ''ill_typed: '' @ expr)
                           | Some b \<Rightarrow> (b, expr)))"

lemmas check_expression_code [code] = check_expression_def [unfolded Let_def]

definition truth :: "string \<Rightarrow> ctx \<Rightarrow> bool" where
  "truth expr ctx = fst (check_expression expr ctx)"

section \<open>Conjunctive evaluation\<close>

text \<open>
  \<^term>\<open>elapsed i\<close> is the wall-clock time since the start when the \<^term>\<open>i\<close>-th predicate is about to be
  evaluated, \<^term>\<open>timeout_s\<close> the bound.
\<close>

fun eval_exprs :: "(nat \<Rightarrow> rat) \<Rightarrow> rat \<Rightarrow> nat \<Rightarrow> string \<Rightarrow> string list \<Rightarrow> ctx \<Rightarrow> (bool \<times> string) option" where
  "eval_exprs elapsed timeout_s i label [] ctx = None"
| "eval_exprs elapsed timeout_s i label (expr # exprs) ctx =
     (if elapsed i \<ge> timeout_s then Some (False, ''eval_timeout'')
      else case check_expression expr ctx of
             (ok, msg) \<Rightarrow>
               if \<not> ok then Some (False, label @ '': '' @ msg)
               else eval_exprs elapsed timeout_s (Suc i) label exprs ctx)"

definition evaluate_predicates ::
  "(nat \<Rightarrow> rat) \<Rightarrow> rat \<Rightarrow> string list \<Rightarrow> string list \<Rightarrow> ctx \<Rightarrow> bool \<times> string" where
  "evaluate_predicates elapsed timeout_s safety pre ctx =
     (case eval_exprs elapsed timeout_s 0 ''safety_constraint_failed'' safety ctx of
        Some r \<Rightarrow> r
      | None \<Rightarrow>
          (case eval_exprs elapsed timeout_s (length safety) ''precondition_failed'' pre ctx of
             Some r \<Rightarrow> r
           | None \<Rightarrow> (True, ''context_ok'')))"

text \<open>\<^verbatim>\<open>ContextValidator\<close> keeps the installed snapshot.\<close>

definition update_context :: "ctx \<Rightarrow> ctx \<Rightarrow> ctx" where
  "update_context installed patch = deep_merge installed patch"

definition replace_context :: "ctx \<Rightarrow> ctx \<Rightarrow> ctx" where
  "replace_context installed snapshot = snapshot"

section \<open>What evaluation depends on\<close>

lemma resolve_from_walk:
  "resolve_from v ps = (case walk v ps of None \<Rightarrow> JNull | Some w \<Rightarrow> w)"
proof (induction v ps rule: resolve_from.induct)
  case (2 node part parts)
  then show ?case
    by (cases node; cases parts) (auto split: option.splits)
qed simp

lemma resolve_get_path: "resolve ctx p = (case get_path ctx p of None \<Rightarrow> JNull | Some v \<Rightarrow> v)"
  by (simp add: resolve_def get_path_def resolve_from_walk)

lemma flt_eq_le: "flt_eq a b \<Longrightarrow> flt_le a c = flt_le b c" "flt_eq a b \<Longrightarrow> flt_le c a = flt_le c b"
  unfolding flt_le_def using flt_eq_lt flt_eq_eq by blast+

text \<open>Numbers of equal value compare alike with every literal.\<close>

lemma equality_holds_num:
  "is_number a \<Longrightarrow>
   equality_holds a x = (if is_number x then Some (flt_eq (num_val a) (num_val x)) else None)"
  by (elim is_numberE; cases x) (simp_all add: equality_holds_def)

lemma compare_values_num:
  assumes "is_number a" "is_number b" "flt_eq (num_val a) (num_val b)"
  shows "compare_values op a r = compare_values op b r"
proof -
  have ord: "ordering_holds op a x = ordering_holds op b x" for x
    using assms(3) flt_eq_lt flt_eq_le by (auto simp: ordering_holds_def split: cmp_op.splits)
  have eq: "equality_holds a x = equality_holds b x" for x
    using flt_eq_eq(1) [OF assms(3)] by (simp add: equality_holds_num assms(1,2))
  have "align a r = map_option (\<lambda>p. (a, snd p)) (align b r)"
    using assms(1,2) by (elim is_numberE; cases r) (simp_all add: align_def option.map_comp comp_def)
  moreover have "align b r = map_option (\<lambda>p. (b, snd p)) (align b r)"
    using assms(2) by (elim is_numberE; cases r) (simp_all add: align_def option.map_comp comp_def)
  ultimately show ?thesis
    using ord eq assms(1,2) by (cases "align b r") (auto simp: compare_values_def)
qed

lemma compare_values_collection:
  "is_obj a \<Longrightarrow> compare_values op a r = None" "compare_values op (JList xs) r = None"
  by (elim is_objE; cases r; simp add: compare_values_def align_def equality_holds_def)
    (cases r; simp add: compare_values_def align_def equality_holds_def)

definition value_of :: "json option \<Rightarrow> json" where
  "value_of v = (case v of None \<Rightarrow> JNull | Some w \<Rightarrow> w)"

lemma obs_alike_null: "obs_alike a b \<Longrightarrow> (value_of a = JNull) = (value_of b = JNull)"
  by (auto simp: obs_alike_def same_value_def value_of_def split: option.splits json.splits)

lemma obs_alike_compare:
  assumes "obs_alike a b"
  shows "compare_values op (value_of a) r = compare_values op (value_of b) r"
proof (cases "\<exists>x y. a = Some x \<and> b = Some y \<and> is_number x \<and> is_number y \<and> flt_eq (num_val x) (num_val y)")
  case True
  then show ?thesis using compare_values_num by (auto simp: value_of_def)
next
  case False
  with assms show ?thesis
    by (auto simp: obs_alike_def same_value_def value_of_def compare_values_collection
        split: option.splits json.splits)
qed

text \<open>
  A predicate reads its own path only: contexts that agree there up to \<^const>\<open>obs_alike\<close> give the
  same verdict and the same message.
\<close>

lemma check_expression_path:
  assumes "\<And>p op r. parse_pred (strip e) = Some (p, op, r) \<Longrightarrow> obs_alike (get_path c1 p) (get_path c2 p)"
  shows "check_expression e c1 = check_expression e c2"
proof (cases "parse_pred (strip e)")
  case (Some t)
  obtain p op r where t: "t = (p, op, r)" by (cases t)
  with Some assms have "obs_alike (get_path c1 p) (get_path c2 p)" by simp
  then have "(value_of (get_path c1 p) = JNull) = (value_of (get_path c2 p) = JNull)"
    "compare_values op (value_of (get_path c1 p)) r = compare_values op (value_of (get_path c2 p)) r"
    by (rule obs_alike_null, rule obs_alike_compare)
  then show ?thesis using Some t
    by (simp add: check_expression_def Let_def resolve_get_path value_of_def)
qed (simp add: check_expression_def Let_def)

lemma strip_decompose:
  obtains sp where "dropWhile is_space e = strip e @ sp" "\<forall>c \<in> set sp. is_space c"
proof
  let ?l = "dropWhile is_space e"
  have "rev ?l = takeWhile is_space (rev ?l) @ dropWhile is_space (rev ?l)" by simp
  then show "?l = strip e @ rev (takeWhile is_space (rev ?l))"
    by (metis rev_append rev_rev_ident strip_def)
  show "\<forall>c \<in> set (rev (takeWhile is_space (rev ?l))). is_space c" by (auto dest: set_takeWhileD)
qed

text \<open>The read-set of a predicate that parses is the path it is evaluated at.\<close>

lemma parse_read_path:
  assumes "parse_pred (strip e) = Some (p, op, r)"
  shows "read_path e = Some p"
proof -
  obtain r1 where r1: "scan_path (strip e) = Some (p, r1)"
    using assms by (auto simp: parse_pred_def split: option.splits prod.splits)
  obtain sp where sp: "dropWhile is_space e = strip e @ sp" "\<forall>c \<in> set sp. is_space c"
    by (rule strip_decompose)
  have s: "strip e = p @ r1" "is_path p" "path_stop r1" using scan_path_Some [OF r1] by auto
  have "path_stop (r1 @ sp)"
  proof (cases r1)
    case Nil
    then show ?thesis using sp(2) space_not_word by (cases sp) (auto simp: path_stop_def)
  next
    case (Cons c r')
    then show ?thesis using s(3) sp(2) space_not_word by (cases sp; cases r') (auto simp: path_stop_def)
  qed
  then have "scan_path (dropWhile is_space e) = Some (p, r1 @ sp)"
    using scan_path_complete [OF s(2)] sp(1) s(1) by simp
  then show ?thesis by (simp add: read_path_def)
qed

lemma check_expression_read_path:
  assumes "\<And>p. read_path e = Some p \<Longrightarrow> obs_alike (get_path c1 p) (get_path c2 p)"
  shows "check_expression e c1 = check_expression e c2"
  using assms parse_read_path by (intro check_expression_path) blast

lemma truth_read_path:
  "(\<And>p. read_path e = Some p \<Longrightarrow> obs_alike (get_path c1 p) (get_path c2 p)) \<Longrightarrow> truth e c1 = truth e c2"
  using check_expression_read_path [of e c1 c2] by (simp add: truth_def)

text \<open>A patch that changes no path related to a predicate's path leaves its verdict alone.\<close>

lemma check_expression_unrelated:
  assumes "wf_ctx patch" and "\<And>p c. read_path e = Some p \<Longrightarrow> c \<in> set (changed_paths old patch) \<Longrightarrow> \<not> related c p"
  shows "check_expression e (deep_merge old patch) = check_expression e old"
proof (rule check_expression_read_path [symmetric])
  fix p
  assume p: "read_path e = Some p"
  show "obs_alike (get_path old p) (get_path (deep_merge old patch) p)"
    using changed_paths_complete [OF assms(1), of p old] assms(2) p is_path_plain [OF read_path_is_path [OF p]]
    by blast
qed

section \<open>Conjunction\<close>

lemma eval_exprs_None:
  "eval_exprs el t i label es ctx = None \<longleftrightarrow>
   (\<forall>j < length es. el (i + j) < t \<and> truth (es ! j) ctx)"
proof (induction es arbitrary: i)
  case (Cons e es)
  have "(\<forall>j < length (e # es). el (i + j) < t \<and> truth ((e # es) ! j) ctx) \<longleftrightarrow>
      el i < t \<and> truth e ctx \<and> (\<forall>j < length es. el (Suc i + j) < t \<and> truth (es ! j) ctx)"
    by (auto simp: less_Suc_eq_0_disj)
  then show ?case using Cons.IH [of "Suc i"]
    by (cases "check_expression e ctx") (auto simp: truth_def)
qed simp

lemma eval_exprs_not_ok: "eval_exprs el t i label es ctx = Some r \<Longrightarrow> \<not> fst r"
  by (induction el t i label es ctx rule: eval_exprs.induct) (auto split: if_splits prod.splits)

lemma evaluate_predicates_ok:
  "fst (evaluate_predicates el t safety pre ctx) \<longleftrightarrow>
     (\<forall>e \<in> set safety \<union> set pre. truth e ctx) \<and> (\<forall>i < length safety + length pre. el i < t)"
proof -
  have "fst (evaluate_predicates el t safety pre ctx) \<longleftrightarrow>
      eval_exprs el t 0 ''safety_constraint_failed'' safety ctx = None \<and>
      eval_exprs el t (length safety) ''precondition_failed'' pre ctx = None"
    by (auto simp: evaluate_predicates_def split: option.splits dest: eval_exprs_not_ok)
  also have "\<dots> \<longleftrightarrow> (\<forall>e \<in> set safety \<union> set pre. truth e ctx) \<and> (\<forall>i < length safety + length pre. el i < t)"
    unfolding eval_exprs_None
    by (auto simp: all_set_conv_all_nth [of safety] all_set_conv_all_nth [of pre] ball_Un)
      (metis add.commute add_diff_inverse_nat nat_add_left_cancel_less not_less)
  finally show ?thesis .
qed

section \<open>Properties\<close>


text \<open>
  A predicate depends only on its read-set: a patch none of whose changed leaf paths is related to the
  path the predicate names leaves both its verdict and its reason alone.
\<close>

theorem predicate_locality:
  assumes "wf_ctx patch"
    and "\<forall>p \<in> set (read_set [e]). \<forall>c \<in> set (changed_paths old patch). \<not> related c p"
  shows "check_expression e (deep_merge old patch) = check_expression e old"
  using assms by (intro check_expression_unrelated) (auto simp: set_read_set)

theorem predicate_locality_witness:
  "check_expression ''cell.temp < 50'' (deep_merge [(''cell'', JObj [(''temp'', JInt 20)])] [(''cell'', JObj [(''hum'', JInt 1)])]) =
   check_expression ''cell.temp < 50'' [(''cell'', JObj [(''temp'', JInt 20)])]"
  by (rule predicate_locality) code_simp+

text \<open>
  The conjunction is accepted exactly when every safety constraint and every precondition is true in
  the snapshot and each was started before the evaluation bound.
\<close>

theorem conjunction_exact:
  "fst (evaluate_predicates elapsed timeout_s safety pre c) \<longleftrightarrow>
     list_all (\<lambda>e. fst (check_expression e c)) (safety @ pre) \<and>
     list_all (\<lambda>i. elapsed i < timeout_s) [0..<length (safety @ pre)]"
  unfolding evaluate_predicates_ok by (auto simp: list_all_iff truth_def)

end
