(* ===== verification/Context_Store.thy ===== *)
theory Context_Store
  imports Predicates
begin

text \<open>
  \<^verbatim>\<open>xair/core/context_store.py\<close>: the versioned context store. The snapshot document (context, global
  version, per-path versions, truth-change versions of the registered predicates) is the record
  \<^verbatim>\<open>snap\<close>; it is what the process keeps in memory and what the document layout keeps under one Redis
  key. The file holds the update step, the registration of predicates, the authorization commit in its
  two implementations (in memory and the Lua script) and the operations of \<^verbatim>\<open>RedisContextStore\<close>.

  Redis itself is not part of the program. What the server answers is an argument of each operation
  (\<^verbatim>\<open>'r io\<close>), and what a transaction relies on is stated as a hypothesis where it is used. The text form
  of stored values is left out: a stored document is the JSON value it decodes to. \<^verbatim>\<open>time.time()\<close> is an
  argument, read once per operation; the monotonic I/O bounds that only feed measurements are left out.
\<close>

declare map_of_eq_Some_iff [simp del]

section \<open>Changed paths as an index\<close>

text \<open>\<^verbatim>\<open>_Changed\<close>: the changed leaf paths, their proper prefixes and their roots.\<close>

record changed_index =
  ch_paths :: "string set"
  ch_prefixes :: "string set"
  ch_roots :: "string set"

definition path_root :: "string \<Rightarrow> string" where
  "path_root p = takeWhile (\<lambda>c. c \<noteq> CHR ''.'') p"

definition dot_prefixes :: "string \<Rightarrow> string list" where
  "dot_prefixes c = map (\<lambda>i. take i c) (filter (\<lambda>i. c ! i = CHR ''.'') [0..<length c])"

definition make_changed :: "string list \<Rightarrow> changed_index" where
  "make_changed changed =
     \<lparr>ch_paths = set changed,
      ch_prefixes = set (concat (map dot_prefixes changed)),
      ch_roots = set (map path_root changed)\<rparr>"

definition ch_related :: "changed_index \<Rightarrow> string \<Rightarrow> bool" where
  "ch_related ch path =
     (if path \<in> ch_paths ch \<or> path \<in> ch_prefixes ch then True
      else list_ex (\<lambda>q. q \<in> ch_paths ch) (dot_prefixes path))"

definition expr_path :: "string \<Rightarrow> string \<times> string" where
  "expr_path expr = (let paths = read_set [expr]; path = (if paths \<noteq> [] then hd paths else '''') in (path, path_root path))"

lemma set_dot_prefixes: "q \<in> set (dot_prefixes c) \<longleftrightarrow> starts_with c (q @ ''.'')"
proof
  assume "q \<in> set (dot_prefixes c)"
  then obtain i where i: "i < length c" "c ! i = CHR ''.''" "q = take i c" by (auto simp: dot_prefixes_def)
  then have "c = take i c @ c ! i # drop (Suc i) c" using id_take_nth_drop by blast
  with i show "starts_with c (q @ ''.'')" by (metis append.assoc append_Cons append_Nil prefixI)
next
  assume "starts_with c (q @ ''.'')"
  then obtain s where "c = q @ CHR ''.'' # s" by (auto simp: prefix_def)
  then show "q \<in> set (dot_prefixes c)" by (auto simp: dot_prefixes_def intro!: image_eqI [of _ _ "length q"])
qed

text \<open>The index answers exactly the pairwise test of \<^verbatim>\<open>versioning._related\<close>.\<close>

lemma ch_related_iff: "ch_related (make_changed cs) p \<longleftrightarrow> (\<exists>c \<in> set cs. related c p)"
  by (auto simp: ch_related_def make_changed_def related_def set_dot_prefixes list_ex_iff)

lemma path_root_hd: "path_root p = hd (split_dot p)"
proof (induction p)
  case (Cons c p)
  then show ?case by (cases "split_dot p") (auto simp: path_root_def)
qed (simp add: path_root_def)

lemma related_path_root: "related a b \<Longrightarrow> path_root a = path_root b"
  by (simp add: path_root_hd related_root)

lemma expr_path_simp: "expr_path e = (case read_path e of None \<Rightarrow> ('''', '''') | Some p \<Rightarrow> (p, path_root p))"
  by (simp add: expr_path_def read_set_singleton path_root_def split: option.splits)

section \<open>The snapshot document\<close>

record snap =
  sn_context :: ctx
  sn_version :: int
  sn_pv :: path_versions
  sn_preds :: pred_versions

definition empty_snap :: snap where
  "empty_snap = \<lparr>sn_context = [], sn_version = 0, sn_pv = [], sn_preds = []\<rparr>"

text \<open>\<^verbatim>\<open>PREDICATE_RETENTION_S\<close> is the argument \<^term>\<open>ret\<close>, the clock (s) the argument \<^term>\<open>now\<close>.\<close>

definition retire :: "rat \<Rightarrow> rat \<Rightarrow> pred_versions \<Rightarrow> pred_versions" where
  "retire ret now preds = (if preds \<noteq> [] then filter (\<lambda>p. snd (snd (snd p)) \<ge> now - ret) preds else [])"

definition bump_pred :: "changed_index \<Rightarrow> ctx \<Rightarrow> int \<Rightarrow> string \<times> pred_entry \<Rightarrow> string \<times> pred_entry" where
  "bump_pred ch merged version p =
     (case p of (expr, (v, t, reg)) \<Rightarrow>
        case expr_path expr of (path, rt) \<Rightarrow>
          if rt \<in> ch_roots ch \<and> ch_related ch path
          then let now = truth expr merged in if now \<noteq> t then (expr, (version, now, reg)) else p
          else p)"

definition stamp_paths :: "int \<Rightarrow> string list \<Rightarrow> path_versions \<Rightarrow> path_versions" where
  "stamp_paths version changed pv = foldl (\<lambda>pv path. dict_set path version pv) pv changed"

definition apply_patch :: "rat \<Rightarrow> rat \<Rightarrow> ctx \<Rightarrow> snap \<Rightarrow> snap" where
  "apply_patch ret now patch s =
     (let version = sn_version s + 1;
          changed = changed_paths (sn_context s) patch;
          pv = stamp_paths version changed (sn_pv s);
          merged = deep_merge (sn_context s) patch;
          preds = retire ret now (sn_preds s);
          preds' = (if changed \<noteq> [] \<and> preds \<noteq> []
                    then map (bump_pred (make_changed changed) merged version) preds
                    else preds)
      in \<lparr>sn_context = merged, sn_version = version, sn_pv = pv, sn_preds = preds'\<rparr>)"

text \<open>Registration of one predicate, and of all of an intent's predicates.\<close>

definition register_one :: "rat \<Rightarrow> rat \<Rightarrow> string \<Rightarrow> snap \<Rightarrow> snap" where
  "register_one ret now e s =
     (case map_of (sn_preds s) e of
        None \<Rightarrow> s\<lparr>sn_preds := dict_set e (sn_version s, truth e (sn_context s), now) (sn_preds s)\<rparr>
      | Some (v, t, reg) \<Rightarrow>
          if reg < now - ret / 2 then s\<lparr>sn_preds := dict_set e (v, t, now) (sn_preds s)\<rparr> else s)"

definition register_snap :: "rat \<Rightarrow> rat \<Rightarrow> string list \<Rightarrow> snap \<Rightarrow> snap" where
  "register_snap ret now exprs s = foldl (\<lambda>s e. register_one ret now e s) s exprs"

section \<open>Invariant of the document\<close>

text \<open>
  Keys are unique, no version exceeds the global one, and the stored truth value of a registered
  predicate is its truth value in the stored context.
\<close>

definition snap_inv :: "snap \<Rightarrow> bool" where
  "snap_inv s \<longleftrightarrow>
     wf_ctx (sn_context s) \<and> 0 \<le> sn_version s \<and> wf_dict (sn_pv s) \<and> wf_dict (sn_preds s) \<and>
     (\<forall>p v. map_of (sn_pv s) p = Some v \<longrightarrow> 0 < v \<and> v \<le> sn_version s) \<and>
     (\<forall>e v t r. map_of (sn_preds s) e = Some (v, t, r) \<longrightarrow>
        0 \<le> v \<and> v \<le> sn_version s \<and> t = truth e (sn_context s))"

lemma snap_inv_empty: "snap_inv empty_snap"
  by (simp add: snap_inv_def empty_snap_def)

lemma wf_stamp_paths: "wf_dict pv \<Longrightarrow> wf_dict (stamp_paths n cs pv)"
  unfolding stamp_paths_def by (induction cs arbitrary: pv) auto

lemma map_of_stamp_paths:
  "map_of (stamp_paths n cs pv) p = (if p \<in> set cs then Some n else map_of pv p)"
  unfolding stamp_paths_def by (induction cs arbitrary: pv) auto

lemma wf_retire: "wf_dict ps \<Longrightarrow> wf_dict (retire ret now ps)"
  by (simp add: retire_def distinct_map_filter)

lemma map_of_retire:
  "wf_dict ps \<Longrightarrow> map_of (retire ret now ps) e =
     (case map_of ps e of None \<Rightarrow> None | Some (v, t, r) \<Rightarrow> if now - ret \<le> r then Some (v, t, r) else None)"
  using map_of_filter_val [of ps "\<lambda>_ x. snd (snd x) \<ge> now - ret" e]
  by (auto simp: retire_def split: option.splits)

lemma fst_bump_pred [simp]: "fst (bump_pred ch m n p) = fst p"
  by (auto simp: bump_pred_def Let_def split: prod.splits)

lemma map_of_map_keep:
  assumes "\<And>p. fst (f p) = fst p"
  shows "map_of (map f ps) e = map_option (\<lambda>v. snd (f (e, v))) (map_of ps e)"
proof (induction ps)
  case (Cons p ps)
  then show ?case using assms [of p] by (cases p; cases "f p") auto
qed simp

text \<open>What the entry of a predicate is after an update: the stored truth follows the context.\<close>

lemma bump_pred_entry:
  assumes "wf_ctx patch" "t = truth e old"
  shows "snd (bump_pred (make_changed (changed_paths old patch)) (deep_merge old patch) n (e, (v, t, r))) =
         (if truth e (deep_merge old patch) = t then (v, t, r) else (n, truth e (deep_merge old patch), r))"
proof (cases "truth e (deep_merge old patch) = t")
  case False
  then have "check_expression e (deep_merge old patch) \<noteq> check_expression e old"
    using assms(2) by (auto simp: truth_def)
  then obtain p c where p: "read_path e = Some p" "c \<in> set (changed_paths old patch)" "related c p"
    using check_expression_unrelated [OF assms(1)] by metis
  then have "ch_related (make_changed (changed_paths old patch)) p" by (auto simp: ch_related_iff)
  moreover have "path_root p \<in> ch_roots (make_changed (changed_paths old patch))"
    using p(2) related_path_root [OF p(3)] by (auto simp: make_changed_def intro!: image_eqI [of _ path_root c])
  ultimately show ?thesis using False p by (simp add: bump_pred_def expr_path_simp Let_def)
qed (auto simp: bump_pred_def Let_def split: prod.splits)

lemma changed_empty_truth:
  "wf_ctx patch \<Longrightarrow> changed_paths old patch = [] \<Longrightarrow> truth e (deep_merge old patch) = truth e old"
  using check_expression_unrelated [of patch e old] by (simp add: truth_def)

lemma preds_apply_patch:
  assumes "snap_inv s" "wf_ctx patch"
  shows "map_of (sn_preds (apply_patch ret now patch s)) e =
     (case map_of (sn_preds s) e of
        None \<Rightarrow> None
      | Some (v, t, r) \<Rightarrow>
          if r < now - ret then None
          else if truth e (deep_merge (sn_context s) patch) = t then Some (v, t, r)
          else Some (sn_version s + 1, truth e (deep_merge (sn_context s) patch), r))"
proof -
  let ?cs = "changed_paths (sn_context s) patch"
  let ?b = "bump_pred (make_changed ?cs) (deep_merge (sn_context s) patch) (sn_version s + 1)"
  let ?ps = "retire ret now (sn_preds s)"
  have wf: "wf_dict (sn_preds s)" using assms(1) by (simp add: snap_inv_def)
  have tr: "t = truth e (sn_context s)" if "map_of (sn_preds s) e = Some (v, t, r)" for v t r
    using assms(1) that by (simp add: snap_inv_def)
  have "sn_preds (apply_patch ret now patch s) = (if ?cs \<noteq> [] \<and> ?ps \<noteq> [] then map ?b ?ps else ?ps)"
    by (simp add: apply_patch_def Let_def)
  moreover have "map_of (if ?cs \<noteq> [] \<and> ?ps \<noteq> [] then map ?b ?ps else ?ps) e =
      map_option (\<lambda>v. if ?cs = [] then v else snd (?b (e, v))) (map_of ?ps e)"
    by (cases "map_of ?ps e") (auto simp: map_of_map_keep)
  ultimately show ?thesis
    using bump_pred_entry [OF assms(2) tr] changed_empty_truth [OF assms(2), of "sn_context s" e] tr
    by (auto simp: map_of_retire [OF wf] split: option.splits)
qed

lemma apply_patch_sel [simp]:
  "sn_version (apply_patch ret now patch s) = sn_version s + 1"
  "sn_context (apply_patch ret now patch s) = deep_merge (sn_context s) patch"
  "sn_pv (apply_patch ret now patch s) =
     stamp_paths (sn_version s + 1) (changed_paths (sn_context s) patch) (sn_pv s)"
  by (simp_all add: apply_patch_def Let_def)

lemma wf_preds_apply_patch: "wf_dict (sn_preds s) \<Longrightarrow> wf_dict (sn_preds (apply_patch ret now patch s))"
  by (simp add: apply_patch_def Let_def wf_retire comp_def)

lemma snap_inv_apply_patch:
  assumes "snap_inv s" "wf_ctx patch"
  shows "snap_inv (apply_patch ret now patch s)"
proof -
  have "wf_ctx (deep_merge (sn_context s) patch)"
    using assms by (intro wf_ctx_deep_merge) (simp_all add: snap_inv_def)
  moreover have "0 \<le> v \<and> v \<le> sn_version s + 1 \<and> t = truth e (deep_merge (sn_context s) patch)"
    if "map_of (sn_preds (apply_patch ret now patch s)) e = Some (v, t, r)" for e v t r
    using that assms(1) unfolding preds_apply_patch [OF assms]
    by (auto simp: snap_inv_def split: option.splits prod.splits if_splits) force+
  ultimately show ?thesis using assms(1)
    unfolding snap_inv_def
    by (auto simp: wf_stamp_paths wf_preds_apply_patch map_of_stamp_paths simp del: wf_json.simps split: if_splits)
      force+
qed

lemma register_one_sel [simp]:
  "sn_version (register_one ret now e s) = sn_version s"
  "sn_context (register_one ret now e s) = sn_context s"
  "sn_pv (register_one ret now e s) = sn_pv s"
  by (simp_all add: register_one_def split: option.splits prod.splits)

lemma preds_register_one:
  "map_of (sn_preds (register_one ret now e s)) e' =
     (if e' \<noteq> e then map_of (sn_preds s) e'
      else case map_of (sn_preds s) e of
             None \<Rightarrow> Some (sn_version s, truth e (sn_context s), now)
           | Some (v, t, r) \<Rightarrow> Some (v, t, if r < now - ret / 2 then now else r))"
  by (auto simp: register_one_def split: option.splits prod.splits)

lemma wf_preds_register_one: "wf_dict (sn_preds s) \<Longrightarrow> wf_dict (sn_preds (register_one ret now e s))"
  by (auto simp: register_one_def split: option.splits prod.splits)

lemma snap_inv_register_one: "snap_inv s \<Longrightarrow> snap_inv (register_one ret now e s)"
  unfolding snap_inv_def
  by (auto simp: preds_register_one wf_preds_register_one simp del: wf_json.simps
      split: option.splits prod.splits if_splits)

lemma register_snap_sel [simp]:
  "sn_version (register_snap ret now es s) = sn_version s"
  "sn_context (register_snap ret now es s) = sn_context s"
  "sn_pv (register_snap ret now es s) = sn_pv s"
  unfolding register_snap_def by (induction es arbitrary: s) auto

lemma snap_inv_register: "snap_inv s \<Longrightarrow> snap_inv (register_snap ret now es s)"
  unfolding register_snap_def by (induction es arbitrary: s) (auto simp: snap_inv_register_one)

text \<open>
  Registration adds the missing predicates at the current version and truth; it never changes the
  version or the truth of a registered one.
\<close>

lemma preds_register:
  "map_of (sn_preds (register_snap ret now es s)) e =
     (case map_of (sn_preds s) e of
        None \<Rightarrow> if e \<in> set es then Some (sn_version s, truth e (sn_context s), now) else None
      | Some (v, t, r) \<Rightarrow> Some (v, t, if e \<in> set es \<and> r < now - ret / 2 then now else r))"
proof (induction es arbitrary: s)
  case (Cons a es)
  have eq: "register_snap ret now (a # es) s = register_snap ret now es (register_one ret now a s)"
    by (simp add: register_snap_def)
  show ?case unfolding eq Cons.IH
    by (auto simp: preds_register_one split: option.splits)
qed (simp add: register_snap_def split: option.splits)

section \<open>Histories of the document\<close>

datatype store_event = Update rat ctx | Register rat "string list"

fun store_step :: "rat \<Rightarrow> store_event \<Rightarrow> snap \<Rightarrow> snap" where
  "store_step ret (Update now patch) s = apply_patch ret now patch s"
| "store_step ret (Register now exprs) s = register_snap ret now exprs s"

fun event_ok :: "store_event \<Rightarrow> bool" where
  "event_ok (Update now patch) = wf_ctx patch"
| "event_ok (Register now exprs) = True"

lemma snap_inv_step: "snap_inv s \<Longrightarrow> event_ok ev \<Longrightarrow> snap_inv (store_step ret ev s)"
  by (cases ev) (simp_all add: snap_inv_apply_patch snap_inv_register)

text \<open>
  What the gates rely on when they compare two reads of a version. A \<^emph>\<open>view\<close> of the document has a
  version and a verdict; every step keeps both, or moves the version above the clock, or makes it
  negative while the clock moves, and a negative version comes back at the clock or above it. Then two
  equal non-negative readings mean that the verdict was the same in every state between them.
\<close>

locale versioned_view =
  fixes step :: "'e \<Rightarrow> 's \<Rightarrow> 's"
    and ok :: "'e \<Rightarrow> bool"
    and inv :: "'s \<Rightarrow> bool"
    and clock :: "'s \<Rightarrow> int"
    and ver :: "'s \<Rightarrow> int"
    and verdict :: "'s \<Rightarrow> 'v"
  assumes inv_step: "inv s \<Longrightarrow> ok e \<Longrightarrow> inv (step e s)"
    and clock_step: "inv s \<Longrightarrow> ok e \<Longrightarrow> clock s \<le> clock (step e s)"
    and ver_le: "inv s \<Longrightarrow> ver s \<le> clock s"
    and ver_step: "inv s \<Longrightarrow> ok e \<Longrightarrow> 0 \<le> ver s \<Longrightarrow>
      (ver (step e s) = ver s \<and> verdict (step e s) = verdict s) \<or>
      (ver (step e s) < 0 \<and> clock s < clock (step e s)) \<or> clock s < ver (step e s)"
    and ver_back: "inv s \<Longrightarrow> ok e \<Longrightarrow> ver s < 0 \<Longrightarrow> ver (step e s) < 0 \<or> clock s \<le> ver (step e s)"
begin

definition gone :: "int \<Rightarrow> 's \<Rightarrow> bool" where
  "gone c s = (c < ver s \<or> (ver s < 0 \<and> c < clock s))"

lemma gone_step:
  assumes "inv s" "ok e" "gone c s" "0 \<le> c"
  shows "gone c (step e s)"
proof (cases "ver s < 0")
  case True
  then show ?thesis using assms ver_back [OF assms(1,2)] clock_step [OF assms(1,2)] by (auto simp: gone_def)
next
  case False
  then show ?thesis using assms ver_step [OF assms(1,2)] ver_le [OF assms(1)] by (auto simp: gone_def)
qed

lemma inv_run: "inv s \<Longrightarrow> list_all ok es \<Longrightarrow> inv (fold step es s)"
  by (induction es arbitrary: s) (auto simp: inv_step)

lemma gone_run: "inv s \<Longrightarrow> list_all ok es \<Longrightarrow> gone c s \<Longrightarrow> 0 \<le> c \<Longrightarrow> gone c (fold step es s)"
  by (induction es arbitrary: s) (auto simp: inv_step gone_step)

lemma unchanged_run:
  assumes "inv s" "list_all ok es" "0 \<le> ver s" "ver (fold step es s) = ver s"
  shows "ver (fold step (take n es) s) = ver s \<and> verdict (fold step (take n es) s) = verdict s"
  using assms
proof (induction es arbitrary: s n)
  case (Cons e es)
  have e: "inv (step e s)" "ok e" "list_all ok es" using Cons.prems(1,2) by (simp_all add: inv_step)
  have "\<not> gone (clock s) (fold step es (step e s))"
    using Cons.prems ver_le [OF Cons.prems(1)] by (auto simp: gone_def)
  then have "\<not> gone (clock s) (step e s)"
    using gone_run [OF e(1,3), of "clock s"] Cons.prems(1,3) ver_le by fastforce
  then have same: "ver (step e s) = ver s \<and> verdict (step e s) = verdict s"
    using ver_step [OF Cons.prems(1) e(2) Cons.prems(3)] by (auto simp: gone_def)
  then show ?case using Cons.IH [OF e(1,3), of "n - 1"] Cons.prems by (cases n) auto
qed simp

end

text \<open>The read-set version is such a view, with the verdicts and reasons of the predicates.\<close>

definition readset_view :: "string list \<Rightarrow> snap \<Rightarrow> int" where
  "readset_view exprs s = read_set_version (sn_pv s) (read_set exprs)"

definition verdicts :: "string list \<Rightarrow> snap \<Rightarrow> (bool \<times> string) list" where
  "verdicts exprs s = map (\<lambda>e. check_expression e (sn_context s)) exprs"

lemma readset_view_le: "snap_inv s \<Longrightarrow> readset_view es s \<le> sn_version s"
  unfolding readset_view_def
  by (rule read_set_version_le) (auto simp: snap_inv_def dest: map_of_is_SomeI)

lemma readset_view_nonneg: "snap_inv s \<Longrightarrow> 0 \<le> readset_view es s"
  unfolding readset_view_def
  by (rule read_set_version_nonneg) (force simp: snap_inv_def dest: map_of_is_SomeI)

lemma readset_view_update:
  assumes "snap_inv s" "wf_ctx patch"
  shows "(readset_view es (apply_patch ret now patch s) = readset_view es s \<and>
          verdicts es (apply_patch ret now patch s) = verdicts es s) \<or>
         sn_version s < readset_view es (apply_patch ret now patch s)"
proof (cases "\<exists>c \<in> set (changed_paths (sn_context s) patch). \<exists>r \<in> set (read_set es). related c r")
  case True
  then obtain c r where cr: "c \<in> set (changed_paths (sn_context s) patch)" "r \<in> set (read_set es)" "related c r"
    by blast
  have "map_of (sn_pv (apply_patch ret now patch s)) c = Some (sn_version s + 1)"
    using cr(1) by (simp add: map_of_stamp_paths)
  then have "sn_version s + 1 \<le> readset_view es (apply_patch ret now patch s)"
    unfolding readset_view_def using cr by (intro read_set_version_mem [of c]) (auto dest: map_of_SomeD)
  then show ?thesis by simp
next
  case False
  have "check_expression e (deep_merge (sn_context s) patch) = check_expression e (sn_context s)"
    if "e \<in> set es" for e
    using False that by (intro check_expression_unrelated [OF assms(2)]) (auto simp: set_read_set)
  then have "verdicts es (apply_patch ret now patch s) = verdicts es s" by (simp add: verdicts_def)
  moreover have "readset_view es (apply_patch ret now patch s) = readset_view es s"
    unfolding readset_view_def
    using False assms(1) by (intro read_set_version_cong) (auto simp: map_of_stamp_paths snap_inv_def wf_stamp_paths)
  ultimately show ?thesis by blast
qed

lemma verdicts_register [simp]: "verdicts es (register_snap ret now xs s) = verdicts es s"
  by (simp add: verdicts_def)

lemma readset_view_register [simp]: "readset_view es (register_snap ret now xs s) = readset_view es s"
  by (simp add: readset_view_def)

interpretation rs: versioned_view "store_step ret" event_ok snap_inv sn_version "readset_view es" "verdicts es"
  for ret es
proof (unfold_locales, goal_cases)
  case (4 s e)
  then show ?case using readset_view_update [of s _ es ret] by (cases e) auto
next
  case (2 s e)
  then show ?case by (cases e) auto
next
  case (5 s e)
  then show ?case using readset_view_nonneg [of s es] by simp
qed (simp_all add: snap_inv_step readset_view_le)

text \<open>So is the truth-change version, with the truth values of the predicates.\<close>

definition truth_view :: "string list \<Rightarrow> snap \<Rightarrow> int" where
  "truth_view exprs s = predicate_version (sn_preds s) exprs"

definition truths :: "string list \<Rightarrow> snap \<Rightarrow> bool list" where
  "truths exprs s = map (\<lambda>e. truth e (sn_context s)) exprs"

lemma snap_inv_preds:
  "snap_inv s \<Longrightarrow> map_of (sn_preds s) e = Some (v, t, r) \<Longrightarrow>
   0 \<le> v \<and> v \<le> sn_version s \<and> t = truth e (sn_context s)"
  unfolding snap_inv_def by blast

lemma truth_view_le: "snap_inv s \<Longrightarrow> truth_view es s \<le> sn_version s"
proof (cases "0 \<le> truth_view es s")
  case True
  assume inv: "snap_inv s"
  from predicate_version_in [OF True [unfolded truth_view_def]] show ?thesis
    using inv snap_inv_preds [OF inv] by (auto simp: truth_view_def snap_inv_def)
qed (simp add: snap_inv_def)

lemma truth_view_neg: "truth_view es s < 0 \<longleftrightarrow> (\<exists>e \<in> set es. map_of (sn_preds s) e = None)"
  by (simp add: truth_view_def predicate_version_neg)

lemma truth_view_registered:
  assumes "0 \<le> truth_view es s" "e \<in> set es"
  obtains v t r where "map_of (sn_preds s) e = Some (v, t, r)"
  using truth_view_neg [of es s] assms by (cases "map_of (sn_preds s) e") auto

lemma truth_view_ge:
  "0 \<le> truth_view es s \<Longrightarrow> e \<in> set es \<Longrightarrow> map_of (sn_preds s) e = Some (v, t, r) \<Longrightarrow> v \<le> truth_view es s"
  unfolding truth_view_def using predicate_version_ge by fastforce

lemma predicate_version_cong:
  assumes "\<And>e. e \<in> set es \<Longrightarrow> map_option fst (map_of a e) = map_option fst (map_of b e)"
  shows "predicate_version a es = predicate_version b es"
proof -
  have "predicate_version_from a out es = predicate_version_from b out es" for out
    using assms
  proof (induction es arbitrary: out)
    case (Cons e es)
    have e: "map_option fst (map_of a e) = map_option fst (map_of b e)" by (rule Cons.prems) simp
    have "predicate_version_from a out' es = predicate_version_from b out' es" for out'
      using Cons.prems by (intro Cons.IH) simp
    with e show ?case by (cases "map_of a e"; cases "map_of b e") auto
  qed simp
  then show ?thesis by (simp add: predicate_version_def)
qed

lemma truth_view_update:
  assumes "snap_inv s" "wf_ctx patch" "0 \<le> truth_view es s"
  shows "(truth_view es (apply_patch ret now patch s) = truth_view es s \<and>
          truths es (apply_patch ret now patch s) = truths es s) \<or>
         truth_view es (apply_patch ret now patch s) < 0 \<or>
         sn_version s < truth_view es (apply_patch ret now patch s)"
proof (cases "truth_view es (apply_patch ret now patch s) < 0")
  case False
  let ?s = "apply_patch ret now patch s"
  have pos: "0 \<le> truth_view es ?s" using False by simp
  show ?thesis
  proof (cases "\<forall>e \<in> set es. truth e (sn_context ?s) = truth e (sn_context s)")
    case True
    have "map_option fst (map_of (sn_preds ?s) e) = map_option fst (map_of (sn_preds s) e)" if "e \<in> set es" for e
    proof -
      have ne: "map_of (sn_preds ?s) e \<noteq> None" by (rule truth_view_registered [OF pos that]) simp
      then obtain v t r where e: "map_of (sn_preds s) e = Some (v, t, r)"
        using preds_apply_patch [OF assms(1,2), of ret now e] by (cases "map_of (sn_preds s) e") auto
      have "truth e (deep_merge (sn_context s) patch) = t"
        using True that snap_inv_preds [OF assms(1) e] by simp
      then show ?thesis using ne e preds_apply_patch [OF assms(1,2), of ret now e] by (simp split: if_splits)
    qed
    then have "truth_view es ?s = truth_view es s" unfolding truth_view_def by (rule predicate_version_cong)
    then show ?thesis using True by (simp add: truths_def)
  next
    case False
    then obtain e where e: "e \<in> set es" "truth e (sn_context ?s) \<noteq> truth e (sn_context s)" by blast
    obtain v t r where "map_of (sn_preds s) e = Some (v, t, r)"
      by (rule truth_view_registered [OF assms(3) e(1)])
    moreover have "map_of (sn_preds ?s) e \<noteq> None" by (rule truth_view_registered [OF pos e(1)]) simp
    ultimately have "map_of (sn_preds ?s) e = Some (sn_version s + 1, truth e (sn_context ?s), r)"
      using e(2) snap_inv_preds [OF assms(1), of e] unfolding preds_apply_patch [OF assms(1,2)]
      by (auto split: if_splits)
    then show ?thesis using truth_view_ge [OF pos e(1)] by fastforce
  qed
qed blast

lemma truth_view_register:
  assumes "0 \<le> truth_view es s"
  shows "truth_view es (register_snap ret now xs s) = truth_view es s"
proof -
  have "map_of (sn_preds s) e \<noteq> None" if "e \<in> set es" for e
    by (rule truth_view_registered [OF assms that]) simp
  then show ?thesis unfolding truth_view_def
    by (intro predicate_version_cong) (fastforce simp: preds_register split: option.splits)
qed

lemma truth_view_register_back:
  assumes "truth_view es s < 0" "0 \<le> truth_view es (register_snap ret now xs s)"
  shows "sn_version s \<le> truth_view es (register_snap ret now xs s)"
proof -
  from assms(1) obtain e where e: "e \<in> set es" "map_of (sn_preds s) e = None" using truth_view_neg by blast
  moreover have "map_of (sn_preds (register_snap ret now xs s)) e \<noteq> None"
    by (rule truth_view_registered [OF assms(2) e(1)]) simp
  ultimately have "map_of (sn_preds (register_snap ret now xs s)) e = Some (sn_version s, truth e (sn_context s), now)"
    by (auto simp: preds_register split: if_splits)
  then show ?thesis using truth_view_ge [OF assms(2) e(1)] by blast
qed

lemma truth_view_update_back:
  assumes "snap_inv s" "wf_ctx patch" "truth_view es s < 0"
  shows "truth_view es (apply_patch ret now patch s) < 0"
proof -
  from assms(3) obtain e where "e \<in> set es" "map_of (sn_preds s) e = None" using truth_view_neg by blast
  then show ?thesis unfolding truth_view_neg preds_apply_patch [OF assms(1,2)] by force
qed

lemma truths_register [simp]: "truths es (register_snap ret now xs s) = truths es s"
  by (simp add: truths_def)

interpretation tv: versioned_view "store_step ret" event_ok snap_inv sn_version "truth_view es" "truths es"
  for ret es
proof (unfold_locales, goal_cases)
  case (4 s e)
  then show ?case using truth_view_update [of s _ es ret] truth_view_register [of es s ret] by (cases e) auto
next
  case (2 s e)
  then show ?case by (cases e) auto
next
  case (5 s e)
  then show ?case
    using truth_view_update_back [of s _ es ret] truth_view_register_back [of es s ret] by (cases e) force+
qed (simp_all add: snap_inv_step truth_view_le)

section \<open>Properties\<close>

text \<open>
  C5: if the read-set version of an intent's predicates reads the same before and after any sequence of
  updates and registrations, then every predicate had the same verdict and the same reason in every
  state in between; a value that was changed and changed back is not missed.
\<close>

theorem readset_version_guards:
  assumes "snap_inv s" and "list_all event_ok evs"
    and "read_set_version (sn_pv (fold (store_step ret) evs s)) (read_set es) =
         read_set_version (sn_pv s) (read_set es)"
  shows "map (\<lambda>e. check_expression e (sn_context (fold (store_step ret) (take k evs) s))) es =
         map (\<lambda>e. check_expression e (sn_context s)) es"
  using rs.unchanged_run [OF assms(1,2) readset_view_nonneg, of es ret k] assms(1,3)
  by (simp add: readset_view_def verdicts_def)

text \<open>A small history used by the witnesses: a humidity reading below a temperature predicate's root.\<close>

definition demo_snap :: snap where
  "demo_snap = \<lparr>sn_context = [(''cell'', JObj [(''temp'', JInt 20), (''hum'', JInt 40)])], sn_version = 3,
     sn_pv = [(''cell.temp'', 2), (''cell.hum'', 3)], sn_preds = [(''cell.temp < 50'', (2, True, 0))]\<rparr>"

definition demo_event :: store_event where
  "demo_event = Update 1 [(''cell'', JObj [(''hum'', JInt 41)])]"

lemma demo_truth: "truth ''cell.temp < 50'' (sn_context demo_snap)"
  by (simp add: demo_snap_def) code_simp

lemma demo_inv: "snap_inv demo_snap"
  using demo_truth by (auto simp: snap_inv_def demo_snap_def)

theorem readset_version_guards_witness:
  "map (\<lambda>e. check_expression e (sn_context (fold (store_step 3600) (take 1 [demo_event]) demo_snap))) [''cell.temp < 50''] =
   map (\<lambda>e. check_expression e (sn_context demo_snap)) [''cell.temp < 50'']"
proof (rule readset_version_guards [OF demo_inv, of "[demo_event]" 3600 "[''cell.temp < 50'']" 1])
  show "list_all event_ok [demo_event]" by (simp add: demo_event_def)
  show "read_set_version (sn_pv (fold (store_step 3600) [demo_event] demo_snap)) (read_set [''cell.temp < 50'']) =
        read_set_version (sn_pv demo_snap) (read_set [''cell.temp < 50''])"
    by code_simp
qed

text \<open>
  C6: the same for the truth-change version, which moves only when a registered predicate's truth value
  changes: two equal non-negative readings mean that no truth value changed in between, whatever was
  updated, retired or registered again.
\<close>

theorem truth_version_guards:
  assumes "snap_inv s" and "list_all event_ok evs" and "0 \<le> predicate_version (sn_preds s) es"
    and "predicate_version (sn_preds (fold (store_step ret) evs s)) es = predicate_version (sn_preds s) es"
  shows "map (\<lambda>e. truth e (sn_context (fold (store_step ret) (take k evs) s))) es =
         map (\<lambda>e. truth e (sn_context s)) es"
  using tv.unchanged_run [OF assms(1,2), of es ret k] assms(3,4)
  by (simp add: truth_view_def truths_def)

theorem truth_version_guards_witness:
  "map (\<lambda>e. truth e (sn_context (fold (store_step 3600) (take 1 [demo_event]) demo_snap))) [''cell.temp < 50''] =
   map (\<lambda>e. truth e (sn_context demo_snap)) [''cell.temp < 50'']"
proof (rule truth_version_guards [OF demo_inv, of "[demo_event]" "[''cell.temp < 50'']" 3600 1])
  show "list_all event_ok [demo_event]" by (simp add: demo_event_def)
  show "0 \<le> predicate_version (sn_preds demo_snap) [''cell.temp < 50'']" by code_simp
  show "predicate_version (sn_preds (fold (store_step 3600) [demo_event] demo_snap)) [''cell.temp < 50''] =
        predicate_version (sn_preds demo_snap) [''cell.temp < 50'']"
    by code_simp
qed

text \<open>
  C27: updates and registrations keep the document consistent: keys stay unique, no path or predicate
  version runs ahead of the global one, and the truth value stored with a predicate is its truth value
  in the stored context.
\<close>

theorem document_invariant:
  "snap_inv s \<Longrightarrow> list_all event_ok evs \<Longrightarrow> snap_inv (fold (store_step ret) evs s)"
  by (induction evs arbitrary: s) (auto simp: snap_inv_step)

theorem document_invariant_witness: "snap_inv (fold (store_step 3600) [demo_event] demo_snap)"
  by (rule document_invariant [OF demo_inv]) (simp add: demo_event_def)

text \<open>
  The indexed relatedness test of \<^verbatim>\<open>_Changed\<close>, with its skip of other roots, accepts a path exactly
  when the pairwise test relates it to a changed path.
\<close>

theorem changed_index_exact:
  "(path_root p \<in> ch_roots (make_changed cs) \<and> ch_related (make_changed cs) p) \<longleftrightarrow> (\<exists>c \<in> set cs. related c p)"
proof
  assume "\<exists>c \<in> set cs. related c p"
  then obtain c where c: "c \<in> set cs" "related c p" by blast
  then have "path_root p \<in> path_root ` set cs" using related_path_root [OF c(2)] by (auto intro!: image_eqI [of _ _ c])
  then show "path_root p \<in> ch_roots (make_changed cs) \<and> ch_related (make_changed cs) p"
    using c ch_related_iff by (auto simp: make_changed_def)
qed (simp add: ch_related_iff)

end
