(* ===== verification/Redis_Layouts.thy ===== *)
theory Redis_Layouts
  imports Context_Store "HOL-Library.Monad_Syntax" "HOL-Library.Char_ord" "HOL-Library.List_Lexorder"
begin

text \<open>
  The Redis side of \<^verbatim>\<open>xair/core/context_store.py\<close>: the encoding of the snapshot document, the bodies of
  the optimistic transactions on the three layouts (\<^verbatim>\<open>document\<close>, \<^verbatim>\<open>hash\<close>, \<^verbatim>\<open>shard\<close>), the retry loop around
  them, predicate retirement, and the commit script.

  What the server answers during one attempt is the record \<^verbatim>\<open>redis_view\<close>, an argument of every body; a
  body returns what it queues for \<^verbatim>\<open>EXEC\<close>. \<^const>\<open>None\<close> is an exception that leaves the loop (a stored value
  of the wrong shape, a lost connection); the caller treats every exception alike.
\<close>

record redis_view =
  rv_snapshot :: "json option"
  rv_ver :: "int option"
  rv_ctx :: "string \<Rightarrow> json option"
  rv_pred :: "string \<Rightarrow> json option"
  rv_pred_ver :: "string \<Rightarrow> int option"
  rv_members :: "string \<Rightarrow> string list"

section \<open>Documents\<close>

definition falsy :: "json \<Rightarrow> bool" where
  "falsy v = (v = JNull \<or> v = JBool False \<or> v = JInt 0 \<or> v = JFloat (Fin 0) \<or> v = JStr [] \<or> v = JList [] \<or> v = JObj [])"

definition doc_get :: "ctx \<Rightarrow> string \<Rightarrow> json" where
  "doc_get doc k = dict_get doc k JNull"

definition as_dict :: "json \<Rightarrow> ctx option" where
  "as_dict v = (if falsy v then Some [] else case v of JObj kvs \<Rightarrow> Some kvs | _ \<Rightarrow> None)"

definition py_int_opt :: "json \<Rightarrow> int option" where
  "py_int_opt v =
     (case v of JInt i \<Rightarrow> Some i | JBool b \<Rightarrow> Some (of_bool b) | JFloat (Fin r) \<Rightarrow> Some (trunc_rat r) | _ \<Rightarrow> None)"

definition py_bool :: "json \<Rightarrow> bool" where
  "py_bool v = (\<not> falsy v)"

definition py_rat :: "json \<Rightarrow> rat option" where
  "py_rat v = (case v of JInt i \<Rightarrow> Some (of_int i) | JBool b \<Rightarrow> Some (of_bool b) | JFloat (Fin r) \<Rightarrow> Some r | _ \<Rightarrow> None)"

fun map_values :: "(json \<Rightarrow> 'a option) \<Rightarrow> ctx \<Rightarrow> (string, 'a) dict option" where
  "map_values f [] = Some []"
| "map_values f ((k, v) # kvs) = do { x \<leftarrow> f v; xs \<leftarrow> map_values f kvs; Some ((k, x) # xs) }"

definition decode :: "json option \<Rightarrow> (ctx \<times> int \<times> path_versions) option" where
  "decode raw =
     (case raw of
        None \<Rightarrow> Some ([], 0, [])
      | Some (JObj doc) \<Rightarrow>
          do { c \<leftarrow> as_dict (doc_get doc ''context'');
               v \<leftarrow> (let x = doc_get doc ''version'' in if falsy x then Some 0 else py_int_opt x);
               pv \<leftarrow> as_dict (doc_get doc ''path_versions'') \<bind> map_values py_int_opt;
               Some (c, v, pv) }
      | Some _ \<Rightarrow> None)"

definition decode_entry :: "json \<Rightarrow> pred_entry option" where
  "decode_entry x =
     (case x of
        JList (v # t # rest) \<Rightarrow>
          do { n \<leftarrow> py_int_opt v; reg \<leftarrow> (case rest of [] \<Rightarrow> Some 0 | r # _ \<Rightarrow> py_rat r); Some (n, py_bool t, reg) }
      | _ \<Rightarrow> None)"

definition decode_preds :: "json option \<Rightarrow> pred_versions option" where
  "decode_preds raw =
     (case raw of
        None \<Rightarrow> Some []
      | Some (JObj doc) \<Rightarrow> as_dict (doc_get doc ''predicate_versions'') \<bind> map_values decode_entry
      | Some _ \<Rightarrow> None)"

definition encode_entry :: "pred_entry \<Rightarrow> json" where
  "encode_entry x = (case x of (v, t, reg) \<Rightarrow> JList [JInt v, JBool t, JFloat (Fin reg)])"

definition encode_pv :: "path_versions \<Rightarrow> json" where
  "encode_pv pv = JObj (map (\<lambda>(k, v). (k, JInt v)) pv)"

definition encode :: "ctx \<Rightarrow> int \<Rightarrow> path_versions \<Rightarrow> pred_versions \<Rightarrow> json" where
  "encode c version pv preds =
     JObj [(''context'', JObj c), (''version'', JInt version), (''path_versions'', encode_pv pv),
           (''predicate_versions'', JObj (map (\<lambda>(k, x). (k, encode_entry x)) preds))]"

definition encode_snap :: "snap \<Rightarrow> json" where
  "encode_snap s = encode (sn_context s) (sn_version s) (sn_pv s) (sn_preds s)"

definition decode_snap :: "json option \<Rightarrow> snap option" where
  "decode_snap raw =
     do { (c, v, pv) \<leftarrow> decode raw; ps \<leftarrow> decode_preds raw;
          Some \<lparr>sn_context = c, sn_version = v, sn_pv = pv, sn_preds = ps\<rparr> }"

lemma map_values_encode:
  "(\<And>x. f (g x) = Some x) \<Longrightarrow> map_values f (map (\<lambda>(k, x). (k, g x)) kvs) = Some kvs"
  by (induction kvs) auto

lemma as_dict_obj [simp]: "as_dict (JObj kvs) = Some kvs"
  by (simp add: as_dict_def falsy_def)

lemma decode_entry_encode [simp]: "decode_entry (encode_entry x) = Some x"
  by (cases x) (simp add: decode_entry_def encode_entry_def py_int_opt_def py_rat_def py_bool_def falsy_def)

lemma py_int_opt_JInt [simp]: "py_int_opt (JInt i) = Some i"
  by (simp add: py_int_opt_def)

lemma decode_encode [simp]: "decode (Some (encode c v pv ps)) = Some (c, v, pv)"
  by (simp add: decode_def encode_def encode_pv_def doc_get_def dict_get_def Let_def map_values_encode falsy_def)

lemma decode_preds_encode [simp]: "decode_preds (Some (encode c v pv ps)) = Some ps"
  by (simp add: decode_preds_def encode_def doc_get_def dict_get_def map_values_encode)

lemma decode_encode_snap: "decode_snap (Some (encode_snap s)) = Some s"
  by (simp add: decode_snap_def encode_snap_def)

lemma decode_snap_None: "decode_snap None = Some empty_snap"
  by (simp add: decode_snap_def decode_def decode_preds_def empty_snap_def)

section \<open>The optimistic transaction loop\<close>

definition MAX_TX_RETRIES :: nat where
  "MAX_TX_RETRIES = 32"

text \<open>
  One element of \<^term>\<open>tries\<close> per attempt: what the server answered, and whether \<^verbatim>\<open>EXEC\<close> went through (it
  fails with \<^verbatim>\<open>WatchError\<close> when a watched key was written in between). \<^term>\<open>st\<close> is process-local state that
  an attempt may change even when it fails (the candidate cache). A body that queues nothing ends the
  loop without \<^verbatim>\<open>EXEC\<close>.
\<close>

fun tx_loop :: "nat \<Rightarrow> ('v \<times> bool) list \<Rightarrow> ('v \<Rightarrow> 'st \<Rightarrow> ('w option \<times> 'r) option \<times> 'st) \<Rightarrow> 'st \<Rightarrow>
    ('w option \<times> 'r) option \<times> 'st" where
  "tx_loop 0 tries body st = (None, st)"
| "tx_loop (Suc n) [] body st = (None, st)"
| "tx_loop (Suc n) ((view, exec_ok) # tries) body st =
     (case body view st of
        (None, st') \<Rightarrow> (None, st')
      | (Some (w, r), st') \<Rightarrow>
          if w = None \<or> exec_ok then (Some (w, r), st') else tx_loop n tries body st')"

section \<open>Document layout\<close>

definition update_doc_body :: "rat \<Rightarrow> rat \<Rightarrow> ctx \<Rightarrow> redis_view \<Rightarrow> unit \<Rightarrow> (json option \<times> snap) option \<times> unit" where
  "update_doc_body ret now patch view u =
     (do { s \<leftarrow> decode_snap (rv_snapshot view);
           let s' = apply_patch ret now patch s;
           Some (Some (encode_snap s'), s') }, u)"

definition fresh_all :: "rat \<Rightarrow> pred_versions \<Rightarrow> string list \<Rightarrow> bool" where
  "fresh_all refresh preds exprs =
     list_all (\<lambda>e. case map_of preds e of None \<Rightarrow> False | Some (v, t, reg) \<Rightarrow> reg \<ge> refresh) exprs"

definition register_doc_body ::
  "rat \<Rightarrow> rat \<Rightarrow> string list \<Rightarrow> redis_view \<Rightarrow> unit \<Rightarrow> (json option \<times> snap) option \<times> unit" where
  "register_doc_body ret now exprs view u =
     (do { s \<leftarrow> decode_snap (rv_snapshot view);
           let missing = filter (\<lambda>e. \<not> fresh_all (now - ret / 2) (sn_preds s) [e]) exprs;
           if missing = [] then Some (None, s)
           else let s' = foldl (\<lambda>s e. s\<lparr>sn_preds := dict_set e
                                   (case map_of (sn_preds s) e of
                                      Some (v, t, reg) \<Rightarrow> (v, t, now)
                                    | None \<Rightarrow> (sn_version s, truth e (sn_context s), now)) (sn_preds s)\<rparr>)
                          s missing
                in Some (Some (encode_snap s'), s') }, u)"

text \<open>\<^term>\<open>first\<close> is the plain \<^verbatim>\<open>GET\<close> of the fast path.\<close>

definition register_doc ::
  "rat \<Rightarrow> rat \<Rightarrow> string list \<Rightarrow> redis_view \<Rightarrow> (redis_view \<times> bool) list \<Rightarrow> (json option \<times> snap) option" where
  "register_doc ret now exprs first tries =
     do { preds \<leftarrow> decode_preds (rv_snapshot first);
          if fresh_all (now - ret / 2) preds exprs
          then do { s \<leftarrow> decode_snap (rv_snapshot first); Some (None, s) }
          else fst (tx_loop MAX_TX_RETRIES tries (register_doc_body ret now exprs) ()) }"

section \<open>Hash layout\<close>

text \<open>The process-local index: per root the registry counter it was read at and the expressions.\<close>

type_synonym cand_index = "(string, int option \<times> string list) dict"

fun candidates_from :: "redis_view \<Rightarrow> string list \<Rightarrow> cand_index \<Rightarrow> string list \<times> cand_index" where
  "candidates_from view [] idx = ([], idx)"
| "candidates_from view (r # rs) idx =
     (let v = rv_pred_ver view r;
          (hit, idx') = (case map_of idx r of
                           Some (v0, es) \<Rightarrow>
                             if v0 \<noteq> v then (sort (rv_members view r), dict_set r (v, sort (rv_members view r)) idx)
                             else (es, idx)
                         | None \<Rightarrow> (sort (rv_members view r), dict_set r (v, sort (rv_members view r)) idx));
          (rest, idx'') = candidates_from view rs idx'
      in (hit @ rest, idx''))"

definition candidates :: "redis_view \<Rightarrow> string list \<Rightarrow> cand_index \<Rightarrow> string list \<times> cand_index" where
  "candidates view roots idx = candidates_from view (sort (remdups roots)) idx"

text \<open>The entries to rewrite: related to a change, with another truth value in the merged context.\<close>

fun truth_updates ::
  "redis_view \<Rightarrow> changed_index \<Rightarrow> ctx \<Rightarrow> int \<Rightarrow> string list \<Rightarrow> (string, json) dict option" where
  "truth_updates view ch merged version [] = Some []"
| "truth_updates view ch merged version (e # es) =
     do { ups \<leftarrow> truth_updates view ch merged version es;
          case rv_pred view e of
            None \<Rightarrow> Some ups
          | Some raw \<Rightarrow>
              do { (v, t, reg) \<leftarrow> decode_entry raw;
                   let now = truth e merged;
                   if ch_related ch (fst (expr_path e)) \<and> now \<noteq> t
                   then Some ((e, encode_entry (version, now, reg)) # ups)
                   else Some ups } }"

record hash_write =
  hw_doc :: json
  hw_preds :: "(string, json) dict"

definition update_hash_body ::
  "ctx \<Rightarrow> redis_view \<Rightarrow> cand_index \<Rightarrow> (hash_write option \<times> (ctx \<times> int \<times> path_versions)) option \<times> cand_index" where
  "update_hash_body patch view idx =
     (case decode (rv_snapshot view) of
        None \<Rightarrow> (None, idx)
      | Some (c, v, pv) \<Rightarrow>
          (let changed = changed_paths c patch;
               s' = apply_patch 0 0 patch \<lparr>sn_context = c, sn_version = v, sn_pv = pv, sn_preds = []\<rparr>;
               ch = make_changed changed;
               (cands, idx') = (if changed \<noteq> [] then candidates view (map path_root changed) idx else ([], idx))
           in case truth_updates view ch (sn_context s') (sn_version s') cands of
                None \<Rightarrow> (None, idx')
              | Some ups \<Rightarrow>
                  (Some (Some \<lparr>hw_doc = encode (sn_context s') (sn_version s') (sn_pv s') [], hw_preds = ups\<rparr>,
                         (sn_context s', sn_version s', sn_pv s')), idx')))"

definition read_preds :: "redis_view \<Rightarrow> string list \<Rightarrow> pred_versions option" where
  "read_preds view exprs =
     foldl (\<lambda>acc e. do { ps \<leftarrow> acc;
                         case rv_pred view e of
                           None \<Rightarrow> Some ps
                         | Some raw \<Rightarrow> do { x \<leftarrow> decode_entry raw; Some (dict_set e x ps) } })
       (Some []) exprs"

definition read_hash :: "string list \<Rightarrow> redis_view \<Rightarrow> (json option \<times> pred_versions) option" where
  "read_hash exprs view = do { preds \<leftarrow> read_preds view exprs; Some (rv_snapshot view, preds) }"

text \<open>What a registration queues: entries, additions to the per-root sets, counters to advance.\<close>

record register_write =
  rw_preds :: "(string, json) dict"
  rw_sadd :: "(string \<times> string) list"
  rw_hincrby :: "string list"

definition new_entries :: "rat \<Rightarrow> int \<Rightarrow> ctx \<Rightarrow> pred_versions \<Rightarrow> string list \<Rightarrow> pred_versions" where
  "new_entries now version c cur exprs =
     foldl (\<lambda>new e. dict_set e (case map_of cur e of Some (v, t, reg) \<Rightarrow> (v, t, now)
                                                    | None \<Rightarrow> (version, truth e c, now)) new) [] exprs"

definition register_write_of :: "pred_versions \<Rightarrow> pred_versions \<Rightarrow> string list \<Rightarrow> register_write" where
  "register_write_of cur new exprs =
     \<lparr>rw_preds = map (\<lambda>(e, x). (e, encode_entry x)) new,
      rw_sadd = map (\<lambda>e. (snd (expr_path e), e)) exprs,
      rw_hincrby = remdups (map (\<lambda>e. snd (expr_path e)) (filter (\<lambda>e. map_of cur e = None) exprs))\<rparr>"

definition register_hash_body ::
  "rat \<Rightarrow> string list \<Rightarrow> redis_view \<Rightarrow> unit \<Rightarrow> (register_write option \<times> snap) option \<times> unit" where
  "register_hash_body now exprs view u =
     (do { (c, v, pv) \<leftarrow> decode (rv_snapshot view);
           cur \<leftarrow> read_preds view exprs;
           let new = new_entries now v c cur exprs;
           Some (Some (register_write_of cur new exprs),
                 \<lparr>sn_context = c, sn_version = v, sn_pv = pv, sn_preds = new\<rparr>) }, u)"

definition register_hash ::
  "rat \<Rightarrow> rat \<Rightarrow> string list \<Rightarrow> redis_view \<Rightarrow> (redis_view \<times> bool) list \<Rightarrow> (register_write option \<times> snap) option" where
  "register_hash ret now exprs first tries =
     do { (raw, preds) \<leftarrow> read_hash exprs first;
          if fresh_all (now - ret / 2) preds exprs
          then do { (c, v, pv) \<leftarrow> decode raw;
                    Some (None, \<lparr>sn_context = c, sn_version = v, sn_pv = pv, sn_preds = preds\<rparr>) }
          else fst (tx_loop MAX_TX_RETRIES tries (register_hash_body now exprs) ()) }"

text \<open>
  \<^verbatim>\<open>gc_predicates\<close>: the entries the scan yields, each with its value when it is read again under
  \<^verbatim>\<open>WATCH\<close> and the success of \<^verbatim>\<open>EXEC\<close>; the result is the list of removed expressions (each is deleted
  from the hash and from the set of its root, and the counter of its root advances).
\<close>

fun gc_predicates :: "rat \<Rightarrow> rat \<Rightarrow> (string \<times> json \<times> json option \<times> bool) list \<Rightarrow> string list option" where
  "gc_predicates ret now [] = Some []"
| "gc_predicates ret now ((expr, scanned, cur, exec_ok) # rest) =
     do { (v, t, reg) \<leftarrow> decode_entry scanned;
          if reg \<ge> now - ret then gc_predicates ret now rest
          else case cur of
                 None \<Rightarrow> gc_predicates ret now rest
               | Some raw \<Rightarrow>
                   do { (v', t', reg') \<leftarrow> decode_entry raw;
                        if reg' \<ge> now - ret \<or> \<not> exec_ok then gc_predicates ret now rest
                        else do { removed \<leftarrow> gc_predicates ret now rest; Some (expr # removed) } } }"

section \<open>Shard layout\<close>

definition expr_roots :: "string \<Rightarrow> string list" where
  "expr_roots expr = sort (remdups (map path_root (read_set [expr])))"

fun load_roots :: "redis_view \<Rightarrow> string list \<Rightarrow> ctx \<times> path_versions \<Rightarrow> (ctx \<times> path_versions) option" where
  "load_roots view [] acc = Some acc"
| "load_roots view (r # rs) (c, pv) =
     (case rv_ctx view r of
        None \<Rightarrow> load_roots view rs (c, pv)
      | Some (JObj e) \<Rightarrow>
          do { sub \<leftarrow> map_of e ''c'';
               own \<leftarrow> as_dict (doc_get e ''pv'') \<bind> map_values py_int_opt;
               load_roots view rs (dict_set r sub c, foldl (\<lambda>pv (k, v). dict_set k v pv) pv own) }
      | Some _ \<Rightarrow> None)"

definition group_pv :: "path_versions \<Rightarrow> (string, path_versions) dict" where
  "group_pv pv =
     foldl (\<lambda>out (k, v). dict_set (path_root k) (dict_set k v (dict_get out (path_root k) [])) out) [] pv"

record shard_write =
  sw_ctx :: "(string, json) dict"
  sw_ver :: int
  sw_preds :: "(string, json) dict"

text \<open>
  Only the roots the patch names are read and rewritten; the context a candidate predicate is evaluated in
  is completed with the other roots it reads. \<^verbatim>\<open>HSET\<close> with an empty mapping is refused by the client
  library, so an empty patch is an exception here.
\<close>

definition update_shard_body ::
  "ctx \<Rightarrow> redis_view \<Rightarrow> cand_index \<Rightarrow> (shard_write option \<times> int) option \<times> cand_index" where
  "update_shard_body patch view idx =
     (let version = (case rv_ver view of None \<Rightarrow> 0 | Some v \<Rightarrow> v) + 1;
          roots = sort (map fst patch)
      in case load_roots view roots ([], []) of
           None \<Rightarrow> (None, idx)
         | Some (c, pv) \<Rightarrow>
             (let changed = changed_paths c patch;
                  pv' = stamp_paths version changed pv;
                  merged = deep_merge c patch;
                  ch = make_changed changed;
                  (cands, idx') = (if changed \<noteq> [] then candidates view (map path_root changed) idx else ([], idx));
                  need = sort (remdups (filter (\<lambda>r. r \<notin> fst ` set merged) (concat (map expr_roots cands))))
              in (do { (extra, _) \<leftarrow> load_roots view need ([], []);
                       ups \<leftarrow> truth_updates view ch (foldl (\<lambda>d (k, v). dict_set k v d) extra merged) version cands;
                       if roots = [] then None
                       else Some (Some \<lparr>sw_ctx = map (\<lambda>r. (r, JObj [(''c'', doc_get merged r),
                                                      (''pv'', encode_pv (dict_get (group_pv pv') r []))])) roots,
                                        sw_ver = version, sw_preds = ups\<rparr>, version) }, idx')))"

definition intent_roots :: "string list \<Rightarrow> string list" where
  "intent_roots exprs = sort (remdups (concat (map expr_roots exprs)))"

text \<open>One \<^verbatim>\<open>MULTI\<close>/\<^verbatim>\<open>EXEC\<close> read: version, context and path versions of the roots read, predicate entries.\<close>

definition read_shard :: "string list \<Rightarrow> redis_view \<Rightarrow> snap option" where
  "read_shard exprs view =
     do { (c, pv) \<leftarrow> load_roots view (intent_roots exprs) ([], []);
          preds \<leftarrow> read_preds view exprs;
          Some \<lparr>sn_context = c, sn_version = (case rv_ver view of None \<Rightarrow> 0 | Some v \<Rightarrow> v),
                sn_pv = pv, sn_preds = preds\<rparr> }"

definition register_shard_body ::
  "rat \<Rightarrow> string list \<Rightarrow> redis_view \<Rightarrow> unit \<Rightarrow> (register_write option \<times> snap) option \<times> unit" where
  "register_shard_body now exprs view u =
     (do { s \<leftarrow> read_shard exprs view;
           let new = new_entries now (sn_version s) (sn_context s) (sn_preds s) exprs;
           Some (Some (register_write_of (sn_preds s) new exprs), s\<lparr>sn_preds := new\<rparr>) }, u)"

definition register_shard ::
  "rat \<Rightarrow> rat \<Rightarrow> string list \<Rightarrow> redis_view \<Rightarrow> (redis_view \<times> bool) list \<Rightarrow> (register_write option \<times> snap) option" where
  "register_shard ret now exprs first tries =
     do { s \<leftarrow> read_shard exprs first;
          if fresh_all (now - ret / 2) (sn_preds s) exprs then Some (None, s)
          else fst (tx_loop MAX_TX_RETRIES tries (register_shard_body now exprs) ()) }"

section \<open>The loop\<close>

text \<open>Bodies without process-local state, reduced to their result.\<close>

lemma tx_loop_unit:
  "fst (tx_loop (Suc n) ((view, exec_ok) # tries) body ()) =
     (case fst (body view ()) of
        None \<Rightarrow> None
      | Some (w, r) \<Rightarrow> if w = None \<or> exec_ok then Some (w, r) else fst (tx_loop n tries body ()))"
  by (auto split: prod.splits option.splits)

lemma tx_loop_Some:
  assumes "fst (tx_loop n tries body ()) = Some (w, r)"
  shows "\<exists>i < min n (length tries). fst (body (fst (tries ! i)) ()) = Some (w, r) \<and> (w = None \<or> snd (tries ! i))"
  using assms
proof (induction n arbitrary: tries)
  case (Suc n)
  then obtain view ok tries' where tries: "tries = (view, ok) # tries'" by (cases tries) auto
  obtain w' r' where b: "fst (body view ()) = Some (w', r')"
    using Suc.prems unfolding tries tx_loop_unit by (auto split: option.splits)
  show ?case
  proof (cases "w' = None \<or> ok")
    case True
    then show ?thesis using Suc.prems b unfolding tries tx_loop_unit by (intro exI [of _ 0]) auto
  next
    case False
    then obtain i where "i < min n (length tries')" "fst (body (fst (tries' ! i)) ()) = Some (w, r)"
      "w = None \<or> snd (tries' ! i)"
      using Suc.IH [of tries'] Suc.prems b unfolding tries tx_loop_unit by auto
    then show ?thesis unfolding tries by (intro exI [of _ "Suc i"]) auto
  qed
qed simp

lemma tx_loop_returns:
  assumes "i < min n (length tries)" "snd (tries ! i)"
    and "\<forall>j \<le> i. fst (body (fst (tries ! j)) ()) \<noteq> None"
  shows "fst (tx_loop n tries body ()) \<noteq> None"
  using assms
proof (induction n arbitrary: tries i)
  case (Suc n)
  then obtain view ok tries' where tries: "tries = (view, ok) # tries'" by (cases tries) auto
  obtain w r where b: "fst (body view ()) = Some (w, r)" using Suc.prems(3) [rule_format, of 0] tries by auto
  show ?case
  proof (cases "w = None \<or> ok")
    case False
    then obtain i' where i': "i = Suc i'" using Suc.prems(2) tries by (cases i) auto
    have "fst (tx_loop n tries' body ()) \<noteq> None"
      using Suc.prems tries i' by (intro Suc.IH [of i']) (auto dest: spec [of _ "Suc _"])
    then show ?thesis using False b unfolding tries tx_loop_unit by auto
  qed (use b in \<open>simp only: tries tx_loop_unit\<close>, simp)
qed simp

section \<open>The document layout refines the in-memory document\<close>

definition set_entry :: "rat \<Rightarrow> string \<Rightarrow> snap \<Rightarrow> snap" where
  "set_entry now e s = s\<lparr>sn_preds := dict_set e
     (case map_of (sn_preds s) e of
        Some (v, t, reg) \<Rightarrow> (v, t, now)
      | None \<Rightarrow> (sn_version s, truth e (sn_context s), now)) (sn_preds s)\<rparr>"

abbreviation stale :: "rat \<Rightarrow> snap \<Rightarrow> string \<Rightarrow> bool" where
  "stale refresh s e \<equiv> \<not> fresh_all refresh (sn_preds s) [e]"

lemma register_one_set_entry: "register_one ret now e s = (if stale (now - ret / 2) s e then set_entry now e s else s)"
  by (auto simp: register_one_def set_entry_def fresh_all_def split: option.splits)

lemma set_entry_twice: "set_entry now e (set_entry now e s) = set_entry now e s"
  by (auto simp: set_entry_def dict_set_id split: option.splits)

lemma stale_set_entry: "e' \<noteq> e \<Longrightarrow> stale x (set_entry now e s) e' = stale x s e'"
  by (simp add: set_entry_def fresh_all_def)

lemma set_entry_id: "map_of (sn_preds s) e = Some (v, t, now) \<Longrightarrow> set_entry now e s = s"
  by (simp add: set_entry_def dict_set_id)

lemma set_entry_get: "\<exists>v t. map_of (sn_preds (set_entry now e s)) e = Some (v, t, now)"
  by (auto simp: set_entry_def split: option.splits)

text \<open>Filtering the stale predicates first and then writing them is the same as deciding one by one.\<close>

lemma register_filtered:
  assumes "\<And>e. stale x s0 e \<Longrightarrow> stale x s e \<or> (\<exists>v t. map_of (sn_preds s) e = Some (v, t, now))"
    and "\<And>e. \<not> stale x s0 e \<Longrightarrow> \<not> stale x s e"
  shows "foldl (\<lambda>s e. set_entry now e s) s (filter (stale x s0) es) =
         foldl (\<lambda>s e. if stale x s e then set_entry now e s else s) s es"
  using assms
proof (induction es arbitrary: s)
  case (Cons e es)
  have step: "(if stale x s e then set_entry now e s else s) = (if stale x s0 e then set_entry now e s else s)"
    using Cons.prems [of e] set_entry_id [of s e _ _ now] by auto
  define s' where "s' = (if stale x s0 e then set_entry now e s else s)"
  have "foldl (\<lambda>s e. set_entry now e s) s' (filter (stale x s0) es) =
        foldl (\<lambda>s e. if stale x s e then set_entry now e s else s) s' es"
  proof (rule Cons.IH)
    fix d
    assume d: "stale x s0 d"
    show "stale x s' d \<or> (\<exists>v t. map_of (sn_preds s') d = Some (v, t, now))"
      using Cons.prems(1) [OF d] set_entry_get [of now d s] stale_set_entry [of d e x now s] d
      by (cases "d = e") (auto simp: s'_def set_entry_def)
  next
    fix d
    assume d: "\<not> stale x s0 d"
    show "\<not> stale x s' d"
      using Cons.prems(2) [OF d] stale_set_entry [of d e x now s] d by (cases "d = e") (auto simp: s'_def)
  qed
  moreover have "foldl (\<lambda>s e. set_entry now e s) s (filter (stale x s0) (e # es)) =
      foldl (\<lambda>s e. set_entry now e s) s' (filter (stale x s0) es)"
    by (simp add: s'_def)
  moreover have "foldl (\<lambda>s e. if stale x s e then set_entry now e s else s) s (e # es) =
      foldl (\<lambda>s e. if stale x s e then set_entry now e s else s) s' es"
    unfolding foldl_Cons step s'_def ..
  ultimately show ?case by simp
qed simp

lemma register_doc_body_eq:
  assumes "decode_snap (rv_snapshot view) = Some s"
  shows "\<exists>w. fst (register_doc_body ret now exprs view ()) = Some (w, register_snap ret now exprs s) \<and>
     (w = None \<and> register_snap ret now exprs s = s \<or> w = Some (encode_snap (register_snap ret now exprs s)))"
proof -
  let ?x = "now - ret / 2"
  have eq: "foldl (\<lambda>s e. set_entry now e s) s (filter (stale ?x s) exprs) = register_snap ret now exprs s"
    using register_filtered [of ?x s s now exprs] by (simp add: register_snap_def register_one_set_entry)
  show ?thesis
  proof (cases "filter (stale ?x s) exprs = []")
    case True
    then show ?thesis using assms eq by (simp add: register_doc_body_def)
  next
    case False
    then show ?thesis using assms eq by (simp add: register_doc_body_def set_entry_def Let_def)
  qed
qed

definition doc_body :: "rat \<Rightarrow> store_event \<Rightarrow> redis_view \<Rightarrow> unit \<Rightarrow> (json option \<times> snap) option \<times> unit" where
  "doc_body ret ev =
     (case ev of Update now patch \<Rightarrow> update_doc_body ret now patch | Register now exprs \<Rightarrow> register_doc_body ret now exprs)"

lemma doc_body_step:
  assumes "decode_snap (rv_snapshot view) = Some s"
  shows "\<exists>w. fst (doc_body ret ev view ()) = Some (w, store_step ret ev s) \<and>
     (w = None \<and> store_step ret ev s = s \<or> w = Some (encode_snap (store_step ret ev s)))"
proof (cases ev)
  case (Update now patch)
  then show ?thesis using assms by (simp add: doc_body_def update_doc_body_def Let_def)
next
  case (Register now exprs)
  then show ?thesis using register_doc_body_eq [OF assms] by (simp add: doc_body_def)
qed

text \<open>
  A history of transactions that went through, each with what it had read. \<^verbatim>\<open>WATCH\<close> is honoured when each
  read the key as the previous one left it; \<^verbatim>\<open>doc_key\<close> is the key at the end, \<^verbatim>\<open>doc_results\<close> what the
  clients were told.
\<close>

fun after_write :: "json option \<Rightarrow> (json option \<times> snap) option \<Rightarrow> json option" where
  "after_write raw (Some (Some doc, _)) = Some doc"
| "after_write raw _ = raw"

fun watch_honoured :: "rat \<Rightarrow> json option \<Rightarrow> (store_event \<times> redis_view) list \<Rightarrow> bool" where
  "watch_honoured ret raw [] = True"
| "watch_honoured ret raw ((ev, view) # txs) =
     (rv_snapshot view = raw \<and> watch_honoured ret (after_write raw (fst (doc_body ret ev view ()))) txs)"

fun doc_key :: "rat \<Rightarrow> json option \<Rightarrow> (store_event \<times> redis_view) list \<Rightarrow> json option" where
  "doc_key ret raw [] = raw"
| "doc_key ret raw ((ev, view) # txs) = doc_key ret (after_write raw (fst (doc_body ret ev view ()))) txs"

definition doc_results :: "rat \<Rightarrow> (store_event \<times> redis_view) list \<Rightarrow> snap option list" where
  "doc_results ret txs = map (\<lambda>(ev, view). map_option snd (fst (doc_body ret ev view ()))) txs"

definition sequential_results :: "rat \<Rightarrow> store_event list \<Rightarrow> snap \<Rightarrow> snap option list" where
  "sequential_results ret evs s = map (\<lambda>k. Some (fold (store_step ret) (take (Suc k) evs) s)) [0..<length evs]"

lemma sequential_results_Cons:
  "sequential_results ret (ev # evs) s = Some (store_step ret ev s) # sequential_results ret evs (store_step ret ev s)"
proof -
  have "[0..<length (ev # evs)] = 0 # map Suc [0..<length evs]"
    by (simp add: map_Suc_upt upt_conv_Cons del: upt_Suc)
  then show ?thesis unfolding sequential_results_def by (simp only: list.map map_map comp_def) simp
qed

text \<open>
  C13: the transactions of any number of processes on the document key are equivalent to running them one
  after the other on the in-memory document, in the order in which they went through: the key decodes to
  the same document, and every process was told the state its own step produced.
\<close>

theorem document_layout_serializable:
  assumes "decode_snap raw = Some s" and "watch_honoured ret raw txs"
  shows "decode_snap (doc_key ret raw txs) = Some (fold (store_step ret) (map fst txs) s) \<and>
         doc_results ret txs = sequential_results ret (map fst txs) s"
  using assms
proof (induction txs arbitrary: raw s)
  case (Cons tx txs)
  obtain ev view where tx: "tx = (ev, view)" by (cases tx)
  then have "rv_snapshot view = raw" using Cons.prems(2) by simp
  then obtain w where w: "fst (doc_body ret ev view ()) = Some (w, store_step ret ev s)"
    "w = None \<and> store_step ret ev s = s \<or> w = Some (encode_snap (store_step ret ev s))"
    using doc_body_step [of view s ret ev] Cons.prems(1) by auto
  then have "decode_snap (after_write raw (fst (doc_body ret ev view ()))) = Some (store_step ret ev s)"
    using Cons.prems(1) decode_encode_snap by auto
  from Cons.IH [OF this] Cons.prems(2) tx w(1) show ?case
    by (simp add: doc_results_def sequential_results_Cons)
qed (simp add: doc_results_def sequential_results_def)

definition demo_view :: redis_view where
  "demo_view = \<lparr>rv_snapshot = Some (encode_snap demo_snap), rv_ver = None, rv_ctx = Map.empty, rv_pred = Map.empty,
                rv_pred_ver = Map.empty, rv_members = (\<lambda>_. [])\<rparr>"

lemma demo_view_decodes: "decode_snap (rv_snapshot demo_view) = Some demo_snap"
  by (simp add: demo_view_def decode_encode_snap)

theorem document_layout_serializable_witness:
  "decode_snap (doc_key 3600 (rv_snapshot demo_view) [(demo_event, demo_view)]) =
   Some (fold (store_step 3600) [demo_event] demo_snap)"
  using document_layout_serializable [OF demo_view_decodes, of 3600 "[(demo_event, demo_view)]"] by simp

text \<open>
  The update loop ends after at most 32 attempts. It returns whenever one of them goes through and the
  documents read are well-formed; what it then wrote and returned is the update of the document it read in
  the attempt that went through.
\<close>

theorem update_loop_outcome:
  assumes "\<forall>t \<in> set tries. \<exists>s. decode_snap (rv_snapshot (fst t)) = Some s"
  shows "(\<exists>i < min MAX_TX_RETRIES (length tries). snd (tries ! i)) \<longleftrightarrow>
         (\<exists>i s. i < min MAX_TX_RETRIES (length tries) \<and> snd (tries ! i) \<and>
            decode_snap (rv_snapshot (fst (tries ! i))) = Some s \<and>
            fst (tx_loop MAX_TX_RETRIES tries (update_doc_body ret now patch) ()) =
              Some (Some (encode_snap (apply_patch ret now patch s)), apply_patch ret now patch s))"
proof
  assume "\<exists>i < min MAX_TX_RETRIES (length tries). snd (tries ! i)"
  then obtain i where i: "i < min MAX_TX_RETRIES (length tries)" "snd (tries ! i)" by blast
  have body: "fst (update_doc_body ret now patch view ()) =
      map_option (\<lambda>s. (Some (encode_snap (apply_patch ret now patch s)), apply_patch ret now patch s))
        (decode_snap (rv_snapshot view))" for view
    by (cases "decode_snap (rv_snapshot view)") (simp_all add: update_doc_body_def Let_def)
  have "\<forall>j \<le> i. fst (update_doc_body ret now patch (fst (tries ! j)) ()) \<noteq> None"
    using assms i(1) body by (simp add: all_set_conv_all_nth)
  then obtain w r where wr: "fst (tx_loop MAX_TX_RETRIES tries (update_doc_body ret now patch) ()) = Some (w, r)"
    using tx_loop_returns [OF i, of "update_doc_body ret now patch"] by fast
  from tx_loop_Some [OF this] obtain j where j: "j < min MAX_TX_RETRIES (length tries)"
    "fst (update_doc_body ret now patch (fst (tries ! j)) ()) = Some (w, r)" "w = None \<or> snd (tries ! j)" by blast
  then show "\<exists>i s. i < min MAX_TX_RETRIES (length tries) \<and> snd (tries ! i) \<and>
      decode_snap (rv_snapshot (fst (tries ! i))) = Some s \<and>
      fst (tx_loop MAX_TX_RETRIES tries (update_doc_body ret now patch) ()) =
        Some (Some (encode_snap (apply_patch ret now patch s)), apply_patch ret now patch s)"
    using wr body by auto
qed blast

theorem update_loop_outcome_witness:
  "\<exists>i s. i < min MAX_TX_RETRIES 2 \<and> snd ([(demo_view, False), (demo_view, True)] ! i) \<and>
     fst (tx_loop MAX_TX_RETRIES [(demo_view, False), (demo_view, True)] (update_doc_body 3600 1 []) ()) =
       Some (Some (encode_snap (apply_patch 3600 1 [] s)), apply_patch 3600 1 [] s)"
proof -
  let ?tries = "[(demo_view, False), (demo_view, True)]"
  have "\<exists>i < min MAX_TX_RETRIES (length ?tries). snd (?tries ! i)"
    by (intro exI [of _ 1]) (simp add: MAX_TX_RETRIES_def)
  then obtain i s where "i < min MAX_TX_RETRIES (length ?tries)" "snd (?tries ! i)"
      "fst (tx_loop MAX_TX_RETRIES ?tries (update_doc_body 3600 1 []) ()) =
         Some (Some (encode_snap (apply_patch 3600 1 [] s)), apply_patch 3600 1 [] s)"
    using update_loop_outcome [of ?tries 3600 1 "[]"] demo_view_decodes by auto
  then show ?thesis by (intro exI [of _ i] exI [of _ s]) simp
qed

text \<open>
  Reading back the stored document gives the document: context, version, path versions and predicate
  entries survive the encoding.
\<close>

theorem document_roundtrip: "decode_snap (Some (encode_snap s)) = Some s"
  by (rule decode_encode_snap)

end
