(* ===== verification/Store.thy ===== *)
theory Store
  imports Redis_Layouts
begin

text \<open>
  The class \<^verbatim>\<open>RedisContextStore\<close> of \<^verbatim>\<open>xair/core/context_store.py\<close>: its state, the authorization commit in
  memory and as the Lua script, and the public operations. Each operation takes what Redis did as an
  argument of type \<^verbatim>\<open>'r io\<close>: no client could be obtained, the call raised, or the server's replies. The
  commit script is a function of the values it reads; \<^term>\<open>cj\<close> is what \<^verbatim>\<open>cjson\<close> makes of a record when it
  decodes and encodes it.
\<close>

datatype 'r io = NoClient | Fails | Replies 'r

datatype layout = Document | Hash | Shard

record store =
  st_snap :: snap
  st_actuations :: "ctx list"
  st_committed :: "string set"
  st_kv :: "(string, string) dict"
  st_required :: bool
  st_available :: bool
  st_layout :: layout
  st_last_gc :: rat
  st_index :: cand_index

definition new_store :: "bool \<Rightarrow> layout \<Rightarrow> store" where
  "new_store has_url lay =
     \<lparr>st_snap = empty_snap, st_actuations = [], st_committed = {}, st_kv = [], st_required = has_url,
      st_available = False, st_layout = (if has_url then lay else Document), st_last_gc = 0, st_index = []\<rparr>"

section \<open>The authorization commit\<close>

datatype commit_status = Committed | Changed | Expired | Duplicate | FutureSkew | Unavailable

record commit_result =
  cr_status :: commit_status
  cr_observed :: int
  cr_version :: int
  cr_store_time :: "rat option"
  cr_age :: "rat option"
  cr_seq :: "nat option"

record commit_args =
  ca_id :: string
  ca_paths :: "string list"
  ca_expected :: int
  ca_record :: ctx
  ca_decision :: rat
  ca_bound :: "rat option"
  ca_max_ahead :: "rat option"
  ca_scope :: string

definition committed_record :: "commit_args \<Rightarrow> int \<Rightarrow> rat \<Rightarrow> rat \<Rightarrow> ctx" where
  "committed_record a version now_ms age =
     dict_set ''age_at_commit_ms'' (JFloat (Fin age))
       (dict_set ''store_time_ms'' (JFloat (Fin now_ms))
         (dict_set ''commit_version'' (JInt version)
           (dict_set ''intent_id'' (JStr (ca_id a)) (ca_record a))))"

definition commit_observed :: "commit_args \<Rightarrow> snap \<Rightarrow> int" where
  "commit_observed a s =
     (if ca_scope a = ''truth'' then predicate_version (sn_preds s) (ca_paths a)
      else read_set_version (sn_pv s) (ca_paths a))"

definition commit_memory :: "rat \<Rightarrow> commit_args \<Rightarrow> store \<Rightarrow> store \<times> commit_result" where
  "commit_memory now a st =
     (let now_ms = now * 1000; age = now_ms - ca_decision a; s = st_snap st;
          observed = commit_observed a s;
          out = (\<lambda>status seq. \<lparr>cr_status = status, cr_observed = observed, cr_version = sn_version s,
                                cr_store_time = Some now_ms, cr_age = Some age, cr_seq = seq\<rparr>)
      in if ca_id a \<in> st_committed st then (st, out Duplicate None)
         else if \<exists>m \<in> set_option (ca_max_ahead a). age < - m then (st, out FutureSkew None)
         else if \<exists>b \<in> set_option (ca_bound a). age > b then (st, out Expired None)
         else if observed < 0 \<or> ca_expected a < 0 \<or> observed \<noteq> ca_expected a then (st, out Changed None)
         else (st\<lparr>st_actuations := st_actuations st @ [committed_record a (sn_version s) now_ms age],
                  st_committed := insert (ca_id a) (st_committed st)\<rparr>,
               out Committed (Some (length (st_actuations st) + 1))))"

section \<open>The commit script\<close>

text \<open>
  What the script reads: membership of the committed set, the server clock, the snapshot document or
  the version key, the entries of the predicate hash and of the root hash, and the length of the log.
\<close>

record lua_view =
  lv_member :: bool
  lv_time_ms :: rat
  lv_view :: redis_view
  lv_log_len :: nat

fun lua_max :: "(string \<Rightarrow> bool) \<Rightarrow> int \<Rightarrow> path_versions \<Rightarrow> int" where
  "lua_max rel observed [] = observed"
| "lua_max rel observed ((p, v) # pv) =
     lua_max rel (if rel p \<and> v > observed then v else observed) pv"

definition lua_related :: "string list \<Rightarrow> string \<Rightarrow> bool" where
  "lua_related paths p =
     list_ex (\<lambda>r. p = r \<or> take (length r + 1) p = r @ ''.'' \<or> take (length p + 1) r = p @ ''.'') paths"

fun lua_truth :: "(string \<Rightarrow> pred_entry option) \<Rightarrow> int \<Rightarrow> string list \<Rightarrow> int" where
  "lua_truth entry observed [] = observed"
| "lua_truth entry observed (e # es) =
     (case entry e of
        None \<Rightarrow> - 1
      | Some (v, _) \<Rightarrow> lua_truth entry (if v > observed then v else observed) es)"

fun lua_shard :: "redis_view \<Rightarrow> (string \<Rightarrow> bool) \<Rightarrow> string list \<Rightarrow> int \<Rightarrow> string list \<Rightarrow> int option" where
  "lua_shard view rel seen observed [] = Some observed"
| "lua_shard view rel seen observed (r # rs) =
     (let rt = path_root r
      in if rt \<in> set seen then lua_shard view rel seen observed rs
         else case rv_ctx view rt of
                None \<Rightarrow> lua_shard view rel (rt # seen) observed rs
              | Some (JObj e) \<Rightarrow>
                  do { pv \<leftarrow> as_dict (doc_get e ''pv'') \<bind> map_values py_int_opt;
                       lua_shard view rel (rt # seen) (lua_max rel observed pv) rs }
              | Some _ \<Rightarrow> None)"

definition lua_version :: "layout \<Rightarrow> redis_view \<Rightarrow> int option" where
  "lua_version lay view =
     (if lay = Shard then Some (case rv_ver view of None \<Rightarrow> 0 | Some v \<Rightarrow> v)
      else map_option (\<lambda>(c, v, pv). v) (decode (rv_snapshot view)))"

definition lua_observed :: "layout \<Rightarrow> string \<Rightarrow> string list \<Rightarrow> redis_view \<Rightarrow> int option" where
  "lua_observed lay scope paths view =
     (if scope = ''truth'' then
        (if lay = Document
         then do { preds \<leftarrow> decode_preds (rv_snapshot view); Some (lua_truth (map_of preds) 0 paths) }
         else Some (lua_truth (\<lambda>e. rv_pred view e \<bind> decode_entry) 0 paths))
      else if lay = Shard then lua_shard view (lua_related paths) [] 0 paths
      else do { (c, v, pv) \<leftarrow> decode (rv_snapshot view); Some (lua_max (lua_related paths) 0 pv) })"

text \<open>
  \<^const>\<open>None\<close> is a script error. The second component is what the script pushes on the log (and then adds
  the id to the committed set).
\<close>

definition commit_lua ::
  "(ctx \<Rightarrow> ctx) \<Rightarrow> layout \<Rightarrow> lua_view \<Rightarrow> commit_args \<Rightarrow> (commit_result \<times> ctx option) option" where
  "commit_lua cj lay lv a =
     (if lv_member lv
      then Some (\<lparr>cr_status = Duplicate, cr_observed = - 1, cr_version = - 1, cr_store_time = Some 0,
                  cr_age = Some 0, cr_seq = None\<rparr>, None)
      else
        let now_ms = lv_time_ms lv; age = now_ms - ca_decision a
        in do { version \<leftarrow> lua_version lay (lv_view lv);
                observed \<leftarrow> lua_observed lay (ca_scope a) (ca_paths a) (lv_view lv);
                let out = (\<lambda>status obs seq. \<lparr>cr_status = status, cr_observed = obs, cr_version = version,
                                               cr_store_time = Some now_ms, cr_age = Some age, cr_seq = seq\<rparr>);
                if \<exists>m \<in> set_option (ca_max_ahead a). age < - m then Some (out FutureSkew (- 1) None, None)
                else if \<exists>b \<in> set_option (ca_bound a). age > b then Some (out Expired observed None, None)
                else if observed < 0 \<or> ca_expected a < 0 \<or> observed \<noteq> ca_expected a
                then Some (out Changed observed None, None)
                else Some (out Committed observed (Some (lv_log_len lv + 1)),
                           Some (cj (committed_record a version now_ms age))) })"

section \<open>Operations of the store\<close>

text \<open>\<^verbatim>\<open>_ensure_client\<close> and \<^verbatim>\<open>_drop_client\<close>: the availability flag follows the outcome of the call.\<close>

definition set_available :: "bool \<Rightarrow> store \<Rightarrow> store" where
  "set_available b st = st\<lparr>st_available := b\<rparr>"

text \<open>
  The common shape of the operations: the Redis branch if it succeeds, otherwise the client is dropped
  and the fallback runs.
\<close>

definition redis_first :: "'r io \<Rightarrow> ('r \<Rightarrow> store \<Rightarrow> (store \<times> 'a) option) \<Rightarrow> (store \<Rightarrow> store \<times> 'a) \<Rightarrow> store \<Rightarrow> store \<times> 'a" where
  "redis_first io branch fallback st =
     (case io of
        Replies r \<Rightarrow>
          (case branch r st of
             Some (st', x) \<Rightarrow> (set_available True st', x)
           | None \<Rightarrow> fallback (set_available False st))
      | _ \<Rightarrow> fallback (set_available False st))"

definition update_redis :: "rat \<Rightarrow> rat \<Rightarrow> ctx \<Rightarrow> (redis_view \<times> bool) list \<Rightarrow> store \<Rightarrow> (store \<times> int) option" where
  "update_redis ret now patch tries st =
     (case st_layout st of
        Document \<Rightarrow>
          do { (_, s) \<leftarrow> fst (tx_loop MAX_TX_RETRIES tries (update_doc_body ret now patch) ());
               Some (st\<lparr>st_snap := s\<rparr>, sn_version s) }
      | Hash \<Rightarrow>
          (case tx_loop MAX_TX_RETRIES tries (update_hash_body patch) (st_index st) of
             (None, idx) \<Rightarrow> None
           | (Some (_, c, v, pv), idx) \<Rightarrow>
               Some (st\<lparr>st_snap := (st_snap st)\<lparr>sn_context := c, sn_version := v, sn_pv := pv\<rparr>, st_index := idx\<rparr>, v))
      | Shard \<Rightarrow>
          (case tx_loop MAX_TX_RETRIES tries (update_shard_body patch) (st_index st) of
             (None, idx) \<Rightarrow> None
           | (Some (_, v), idx) \<Rightarrow> Some (st\<lparr>st_snap := (st_snap st)\<lparr>sn_version := v\<rparr>, st_index := idx\<rparr>, v)))"

definition update_store :: "rat \<Rightarrow> rat \<Rightarrow> ctx \<Rightarrow> (redis_view \<times> bool) list io \<Rightarrow> store \<Rightarrow> store \<times> int" where
  "update_store ret now patch io st =
     redis_first io (update_redis ret now patch)
       (\<lambda>st. if st_required st then (st, sn_version (st_snap st))
              else let s = apply_patch ret now patch (st_snap st) in (st\<lparr>st_snap := s\<rparr>, sn_version s)) st"

text \<open>\<^verbatim>\<open>_register_redis\<close>: the fast-path read, the attempts, and the scan of a due retirement.\<close>

type_synonym register_reply =
  "redis_view \<times> (redis_view \<times> bool) list \<times> (string \<times> json \<times> json option \<times> bool) list"

definition register_redis :: "rat \<Rightarrow> rat \<Rightarrow> string list \<Rightarrow> register_reply \<Rightarrow> store \<Rightarrow> (store \<times> snap) option" where
  "register_redis ret now exprs reply st =
     (case reply of (first, tries, scan) \<Rightarrow>
        (case st_layout st of
           Document \<Rightarrow> do { (_, s) \<leftarrow> register_doc ret now exprs first tries; Some (st\<lparr>st_snap := s\<rparr>, s) }
         | lay \<Rightarrow>
             (let due = now - st_last_gc st > 60; st' = (if due then st\<lparr>st_last_gc := now\<rparr> else st)
              in if due \<and> gc_predicates ret now scan = None then None
                 else if lay = Hash
                 then do { (_, s) \<leftarrow> register_hash ret now exprs first tries; Some (st'\<lparr>st_snap := s\<rparr>, s) }
                 else do { (_, s) \<leftarrow> register_shard ret now exprs first tries;
                           Some (st'\<lparr>st_snap := (st_snap st')\<lparr>sn_version := sn_version s, sn_preds := sn_preds s\<rparr>\<rparr>, s) })))"

text \<open>\<^verbatim>\<open>register_and_snapshot\<close> returns the document and whether it may be trusted.\<close>

definition only_preds :: "string list \<Rightarrow> snap \<Rightarrow> snap" where
  "only_preds exprs s = s\<lparr>sn_preds := filter (\<lambda>p. fst p \<in> set exprs) (sn_preds s)\<rparr>"

definition untrusted_snap :: "int \<Rightarrow> snap" where
  "untrusted_snap version = empty_snap\<lparr>sn_version := version\<rparr>"

definition register_and_snapshot ::
  "rat \<Rightarrow> rat \<Rightarrow> string list \<Rightarrow> register_reply io \<Rightarrow> store \<Rightarrow> store \<times> snap \<times> bool" where
  "register_and_snapshot ret now exprs io st =
     redis_first io
       (\<lambda>reply st. do { (st', s) \<leftarrow> register_redis ret now exprs reply st;
                        Some (st', (if st_layout st = Shard then only_preds exprs s else s), True) })
       (\<lambda>st. if st_required st then (st, untrusted_snap (sn_version (st_snap st)), False)
              else let s = register_snap ret now exprs (st_snap st) in (st\<lparr>st_snap := s\<rparr>, s, True)) st"

text \<open>\<^verbatim>\<open>register_predicates\<close>; \<^const>\<open>None\<close> is its \<^verbatim>\<open>RuntimeError\<close>.\<close>

definition register_predicates ::
  "rat \<Rightarrow> rat \<Rightarrow> string list \<Rightarrow> register_reply io \<Rightarrow> store \<Rightarrow> store \<times> pred_versions option" where
  "register_predicates ret now exprs io st =
     redis_first io
       (\<lambda>reply st. do { (st', s) \<leftarrow> register_redis ret now exprs reply st; Some (st', Some (sn_preds (only_preds exprs s))) })
       (\<lambda>st. if st_required st then (st, None)
              else let s = register_snap ret now exprs (st_snap st)
                   in (st\<lparr>st_snap := s\<rparr>, Some (sn_preds (only_preds exprs s)))) st"

text \<open>\<^verbatim>\<open>_snapshot_locked\<close>; in the shard layout \<^term>\<open>roots\<close> are the fields of the root hash.\<close>

definition snapshot_full ::
  "(redis_view \<times> string list) io \<Rightarrow> store \<Rightarrow> store \<times> (ctx \<times> int \<times> path_versions) \<times> bool" where
  "snapshot_full io st =
     redis_first io
       (\<lambda>(view, roots) st.
          if st_layout st = Shard
          then do { (c, pv) \<leftarrow> load_roots view (sort roots) ([], []);
                    let v = (case rv_ver view of None \<Rightarrow> 0 | Some v \<Rightarrow> v);
                    Some (st\<lparr>st_snap := (st_snap st)\<lparr>sn_context := c, sn_version := v, sn_pv := pv\<rparr>\<rparr>, (c, v, pv), True) }
          else do { s \<leftarrow> decode_snap (rv_snapshot view);
                    Some (st\<lparr>st_snap := s\<rparr>, (sn_context s, sn_version s, sn_pv s), True) })
       (\<lambda>st. (st, (sn_context (st_snap st), sn_version (st_snap st), sn_pv (st_snap st)), \<not> st_required st)) st"

definition snapshot_with_predicates ::
  "string list \<Rightarrow> (redis_view \<times> string list) io \<Rightarrow> store \<Rightarrow> store \<times> snap \<times> bool" where
  "snapshot_with_predicates exprs io st =
     (if st_layout st = Shard \<and> exprs \<noteq> [] then
        redis_first io
          (\<lambda>(view, roots) st. do { s \<leftarrow> read_shard exprs view;
                                    Some (st\<lparr>st_snap := (st_snap st)\<lparr>sn_version := sn_version s\<rparr>\<rparr>, s, True) })
          (\<lambda>st. (st, untrusted_snap (sn_version (st_snap st)), \<not> st_required st)) st
      else if st_layout st = Hash then
        redis_first io
          (\<lambda>(view, roots) st.
             do { (raw, preds) \<leftarrow> read_hash exprs view; (c, v, pv) \<leftarrow> decode raw;
                  let s = (st_snap st)\<lparr>sn_context := c, sn_version := v, sn_pv := pv\<rparr>;
                  Some (st\<lparr>st_snap := s\<rparr>, s\<lparr>sn_preds := preds\<rparr>, True) })
          (\<lambda>st. (st, untrusted_snap (sn_version (st_snap st)), \<not> st_required st)) st
      else
        case snapshot_full io st of (st', (c, v, pv), trusted) \<Rightarrow>
          (st', only_preds exprs \<lparr>sn_context = c, sn_version = v, sn_pv = pv, sn_preds = sn_preds (st_snap st')\<rparr>, trusted))"

text \<open>\<^verbatim>\<open>commit_authorization\<close>; the pushed record is part of the Redis state, not of the process.\<close>

definition commit_authorization ::
  "(ctx \<Rightarrow> ctx) \<Rightarrow> rat \<Rightarrow> commit_args \<Rightarrow> lua_view io \<Rightarrow> store \<Rightarrow> store \<times> commit_result" where
  "commit_authorization cj now a io st =
     redis_first io
       (\<lambda>lv st. do { (res, pushed) \<leftarrow> commit_lua cj (st_layout st) lv a; Some (st, res) })
       (\<lambda>st. if st_required st
              then (st, \<lparr>cr_status = Unavailable, cr_observed = - 1, cr_version = sn_version (st_snap st),
                         cr_store_time = None, cr_age = None, cr_seq = None\<rparr>)
              else commit_memory now a st) st"

text \<open>Small values, the idempotency claim and the log. The outer \<^const>\<open>None\<close> is \<^verbatim>\<open>RuntimeError\<close>.\<close>

definition kv_get :: "string \<Rightarrow> string option io \<Rightarrow> store \<Rightarrow> store \<times> string option option" where
  "kv_get key io st =
     redis_first io (\<lambda>v st. Some (st, Some v))
       (\<lambda>st. (st, if st_required st then None else Some (map_of (st_kv st) key))) st"

definition kv_set :: "string \<Rightarrow> string \<Rightarrow> unit io \<Rightarrow> store \<Rightarrow> store \<times> unit option" where
  "kv_set key val io st =
     redis_first io (\<lambda>_ st. Some (st, Some ()))
       (\<lambda>st. if st_required st then (st, None) else (st\<lparr>st_kv := dict_set key val (st_kv st)\<rparr>, Some ())) st"

definition claim_ttl :: "rat \<Rightarrow> int" where
  "claim_ttl ttl_s = max 1 (trunc_rat ttl_s)"

text \<open>The reply is whether \<^verbatim>\<open>SET NX\<close> with the expiry \<^const>\<open>claim_ttl\<close> set the key.\<close>

definition claim_intent :: "bool io \<Rightarrow> store \<Rightarrow> store \<times> bool" where
  "claim_intent io st =
     (if \<not> st_required st then (st, True)
      else redis_first io (\<lambda>set_ok st. Some (st, set_ok)) (\<lambda>st. (st, False)) st)"

definition append_actuation :: "ctx \<Rightarrow> unit io \<Rightarrow> store \<Rightarrow> store \<times> unit option" where
  "append_actuation rec io st =
     redis_first io (\<lambda>_ st. Some (st, Some ()))
       (\<lambda>st. if st_required st then (st, None) else (st\<lparr>st_actuations := st_actuations st @ [rec]\<rparr>, Some ())) st"

text \<open>\<^verbatim>\<open>xs[start:]\<close>, also for a negative start.\<close>

definition slice_from :: "int \<Rightarrow> 'a list \<Rightarrow> 'a list" where
  "slice_from start xs = (if 0 \<le> start then drop (nat start) xs else drop (length xs - nat (- start)) xs)"

definition actuation_log :: "int \<Rightarrow> ctx list io \<Rightarrow> store \<Rightarrow> store \<times> ctx list" where
  "actuation_log start io st =
     redis_first io (\<lambda>recs st. Some (st, recs)) (\<lambda>st. (st, slice_from start (st_actuations st))) st"

section \<open>The script and the in-memory commit agree\<close>

lemma prefix_take: "prefix xs ys \<longleftrightarrow> take (length xs) ys = xs"
  by (metis append_eq_conv_conj append_take_drop_id prefix_def)

lemma lua_related_iff: "lua_related paths p \<longleftrightarrow> (\<exists>r \<in> set paths. related p r)"
  using prefix_take [of "_ @ ''.''" p] prefix_take [of "p @ ''.''"]
  by (auto simp: lua_related_def related_def list_ex_iff)

lemma lua_max_max:
  "lua_max rel observed pv =
     foldl max observed (map snd (filter (\<lambda>x. rel (fst x)) pv))"
  by (induction rel observed pv rule: lua_max.induct) (auto simp: max_def)

lemma foldl_max_default0:
  assumes "\<forall>x \<in> set xs. 0 \<le> x"
  shows "foldl max (0 :: int) xs = max_default0 xs"
proof (cases "xs = []")
  case False
  have "(\<lambda>x s. max s x) = (max :: int \<Rightarrow> int \<Rightarrow> int)" by (intro ext) (rule max.commute)
  then have "foldl max 0 xs = Max (insert 0 (set xs))"
    using Max.set_eq_fold [of 0 xs] by (simp add: foldl_conv_fold)
  also have "\<dots> = Max (set xs)" using False assms Max_in [of "set xs"] by simp
  finally show ?thesis using False by (simp add: max_default0_def)
qed (simp add: max_default0_def)

lemma lua_max_read_set_version:
  assumes "\<And>p v. (p, v) \<in> set pv \<Longrightarrow> 0 \<le> v"
  shows "lua_max (lua_related paths) 0 pv = read_set_version pv paths"
  unfolding lua_max_max lua_related_iff read_set_version_def
  using assms by (intro foldl_max_default0) auto

lemma lua_truth_predicate_version:
  "lua_truth (map_of preds) observed es = predicate_version_from preds observed es"
  by (induction es arbitrary: observed) (auto simp: max_def split: option.splits)

lemma lua_observed_document:
  assumes "snap_inv s" "rv_snapshot view = Some (encode_snap s)"
  shows "lua_observed Document (ca_scope a) (ca_paths a) view = Some (commit_observed a s)"
proof -
  have "0 \<le> v" if "(p, v) \<in> set (sn_pv s)" for p v
    using assms(1) that map_of_is_SomeI [of "sn_pv s" p v] by (force simp: snap_inv_def)
  then show ?thesis using assms(2) lua_max_read_set_version [of "sn_pv s" "ca_paths a"]
    by (simp add: lua_observed_def commit_observed_def encode_snap_def lua_truth_predicate_version predicate_version_def)
qed

text \<open>\<^term>\<open>lv\<close> is what the script finds in a Redis that holds the state of \<^term>\<open>st\<close>.\<close>

definition redis_mirrors :: "rat \<Rightarrow> commit_args \<Rightarrow> store \<Rightarrow> lua_view \<Rightarrow> bool" where
  "redis_mirrors now a st lv \<longleftrightarrow>
     lv_member lv = (ca_id a \<in> st_committed st) \<and> lv_time_ms lv = now * 1000 \<and>
     rv_snapshot (lv_view lv) = Some (encode_snap (st_snap st)) \<and> lv_log_len lv = length (st_actuations st)"

lemma commit_lua_eq:
  assumes "snap_inv (st_snap st)" "redis_mirrors now a st lv"
  shows "commit_lua cj Document lv a =
    (let (st', r) = commit_memory now a st
     in Some (case cr_status r of
                Duplicate \<Rightarrow> \<lparr>cr_status = Duplicate, cr_observed = - 1, cr_version = - 1, cr_store_time = Some 0,
                              cr_age = Some 0, cr_seq = None\<rparr>
              | FutureSkew \<Rightarrow> r\<lparr>cr_observed := - 1\<rparr>
              | _ \<Rightarrow> r,
              if cr_status r = Committed then Some (cj (last (st_actuations st'))) else None))"
proof -
  have "lua_version Document (lv_view lv) = Some (sn_version (st_snap st))"
    using assms(2) by (simp add: lua_version_def redis_mirrors_def encode_snap_def)
  then show ?thesis using assms lua_observed_document [OF assms(1), of "lv_view lv" a]
    by (simp add: commit_lua_def commit_memory_def redis_mirrors_def Let_def)
qed

section \<open>Properties\<close>

lemma commit_memory_committed:
  assumes "commit_memory now a st = (st', r)" "cr_status r = Committed"
  shows "ca_id a \<notin> st_committed st" "commit_observed a (st_snap st) = ca_expected a" "0 \<le> ca_expected a"
    "st' = st\<lparr>st_actuations := st_actuations st @ [committed_record a (sn_version (st_snap st)) (now * 1000) (now * 1000 - ca_decision a)],
              st_committed := insert (ca_id a) (st_committed st)\<rparr>"
  using assms by (auto simp: commit_memory_def Let_def split: if_splits)

lemma committed_truths_kept:
  assumes inv: "snap_inv s" and evs: "list_all event_ok evs" and now_at: "st_snap st = fold (store_step ret) evs s"
    and paths: "ca_paths a = (if ca_scope a = ''truth'' then es else read_set es)"
    and expected: "ca_expected a = commit_observed a s"
    and commit: "commit_memory now a st = (st', r)" "cr_status r = Committed"
  shows "map (\<lambda>e. truth e (sn_context (fold (store_step ret) (take k evs) s))) es = map (\<lambda>e. truth e (sn_context s)) es"
proof (cases "ca_scope a = ''truth''")
  case True
  then show ?thesis
    using tv.unchanged_run [OF inv evs, of es ret k] commit_memory_committed [OF commit] now_at paths expected
    by (simp add: truth_view_def truths_def commit_observed_def)
next
  case False
  then have "verdicts es (fold (store_step ret) (take k evs) s) = verdicts es s"
    using rs.unchanged_run [OF inv evs readset_view_nonneg [OF inv], of es ret k] commit_memory_committed [OF commit]
      now_at paths expected
    by (simp add: readset_view_def commit_observed_def)
  then show ?thesis by (simp add: verdicts_def truth_def)
qed

text \<open>
  C4: the commit is safe. When an authorization commits against the version that was read together with
  the snapshot the predicates were evaluated on, then no predicate's truth value changed between that
  snapshot and the commit, in any intermediate state, in both version scopes (read-set and truth-change).
\<close>

theorem commit_no_change_between:
  assumes inv: "snap_inv s" and evs: "list_all event_ok evs" and now_at: "st_snap st = fold (store_step ret) evs s"
    and paths: "ca_paths a = (if ca_scope a = ''truth'' then es else read_set es)"
    and expected: "ca_expected a = commit_observed a s"
    and commit: "commit_memory now a st = (st', r)" "cr_status r = Committed"
  shows "map (\<lambda>e. truth e (sn_context (fold (store_step ret) (take k evs) s))) es = map (\<lambda>e. truth e (sn_context s)) es"
  by (rule committed_truths_kept [OF assms])

definition demo_store :: store where
  "demo_store = (new_store False Document)\<lparr>st_snap := store_step 3600 demo_event demo_snap\<rparr>"

definition demo_commit :: commit_args where
  "demo_commit = \<lparr>ca_id = ''i1'', ca_paths = [''cell.temp''], ca_expected = 2, ca_record = [(''target'', JStr ''cell'')],
     ca_decision = 900, ca_bound = Some 500, ca_max_ahead = Some 50, ca_scope = ''readset''\<rparr>"

theorem commit_no_change_between_witness:
  "cr_status (snd (commit_memory 1 demo_commit demo_store)) = Committed \<and>
   map (\<lambda>e. truth e (sn_context (fold (store_step 3600) (take 1 [demo_event]) demo_snap))) [''cell.temp < 50''] =
   map (\<lambda>e. truth e (sn_context demo_snap)) [''cell.temp < 50'']"
proof -
  have c: "cr_status (snd (commit_memory 1 demo_commit demo_store)) = Committed" by code_simp
  have e: "ca_paths demo_commit = (if ca_scope demo_commit = ''truth'' then [''cell.temp < 50''] else read_set [''cell.temp < 50''])"
    by code_simp
  have x: "ca_expected demo_commit = commit_observed demo_commit demo_snap" by code_simp
  show ?thesis
    using c commit_no_change_between [OF demo_inv _ _ e x _ c, of "[demo_event]" demo_store 3600 1 "fst (commit_memory 1 demo_commit demo_store)" 1]
    by (simp add: demo_event_def demo_store_def)
qed

text \<open>
  What the commit decides. It commits exactly when the id has no commit yet, the age on the store's
  clock lies within the declared clock bound and the age bound, and the observed version is defined and
  equal to the expected one; only then does the log grow, by exactly one record that carries the id, the
  global version and the age.
\<close>

theorem commit_decides:
  "(cr_status (snd (commit_memory now a st)) = Committed \<longleftrightarrow>
      ca_id a \<notin> st_committed st \<and>
      (case ca_max_ahead a of None \<Rightarrow> True | Some m \<Rightarrow> - m \<le> now * 1000 - ca_decision a) \<and>
      (case ca_bound a of None \<Rightarrow> True | Some b \<Rightarrow> now * 1000 - ca_decision a \<le> b) \<and>
      0 \<le> ca_expected a \<and> commit_observed a (st_snap st) = ca_expected a) \<and>
   st_actuations (fst (commit_memory now a st)) =
     st_actuations st @
       (if cr_status (snd (commit_memory now a st)) = Committed
        then [committed_record a (sn_version (st_snap st)) (now * 1000) (now * 1000 - ca_decision a)] else [])"
  by (auto simp: commit_memory_def Let_def split: option.splits)

fun commit_run :: "(rat \<times> commit_args) list \<Rightarrow> store \<Rightarrow> (string \<times> commit_status) list" where
  "commit_run [] st = []"
| "commit_run ((now, a) # rest) st =
     (case commit_memory now a st of (st', r) \<Rightarrow> (ca_id a, cr_status r) # commit_run rest st')"

lemma commit_memory_keeps:
  "commit_memory now a st = (st', r) \<Longrightarrow>
   st_committed st' = (if cr_status r = Committed then insert (ca_id a) (st_committed st) else st_committed st)"
  by (auto simp: commit_memory_def Let_def split: if_splits)

lemma commit_run_fresh: "i \<in> st_committed st \<Longrightarrow> (i, Committed) \<notin> set (commit_run calls st)"
proof (induction calls st rule: commit_run.induct)
  case (2 now a rest st)
  obtain st' r where c: "commit_memory now a st = (st', r)" by fastforce
  have "i \<in> st_committed st'" using commit_memory_keeps [OF c] 2(2) by simp
  moreover have "\<not> (i = ca_id a \<and> cr_status r = Committed)" using commit_memory_committed(1) [OF c] 2(2) by auto
  ultimately show ?case using 2(1) [OF c [symmetric]] c by auto
qed simp

text \<open>
  C10: an intent commits at most once: in any run of commits, at whatever instants and with whatever
  arguments, no two results for the same id are commits.
\<close>

theorem commit_at_most_once:
  "distinct (map fst (filter (\<lambda>x. snd x = Committed) (commit_run calls st)))"
proof (induction calls st rule: commit_run.induct)
  case (2 now a rest st)
  obtain st' r where c: "commit_memory now a st = (st', r)" by fastforce
  show ?case
  proof (cases "cr_status r = Committed")
    case True
    then have "ca_id a \<in> st_committed st'" using commit_memory_keeps [OF c] by simp
    then have "(ca_id a, Committed) \<notin> set (commit_run rest st')" by (rule commit_run_fresh)
    then show ?thesis using 2 [OF c [symmetric]] c True by auto
  qed (use 2 [OF c [symmetric]] c in simp)
qed simp

text \<open>
  C11: the Lua script on the document layout and the in-memory commit take the same decision: on a Redis
  that holds the same state they return the same status and log position, and the script pushes exactly
  when the in-memory commit appends, the same record as \<^verbatim>\<open>cjson\<close> writes it.
\<close>

theorem commit_script_equivalent:
  assumes "snap_inv (st_snap st)" and "redis_mirrors now a st lv"
  shows "\<exists>r pushed. commit_lua cj Document lv a = Some (r, pushed) \<and>
     cr_status r = cr_status (snd (commit_memory now a st)) \<and> cr_seq r = cr_seq (snd (commit_memory now a st)) \<and>
     map cj (st_actuations (fst (commit_memory now a st))) =
       map cj (st_actuations st) @ (case pushed of None \<Rightarrow> [] | Some rec \<Rightarrow> [rec])"
  using commit_lua_eq [OF assms, of cj]
  by (auto simp: commit_memory_def Let_def split: if_splits)

theorem commit_script_equivalent_witness:
  "\<exists>r pushed. commit_lua id Document
       \<lparr>lv_member = False, lv_time_ms = 1000, lv_view = demo_view\<lparr>rv_snapshot := Some (encode_snap (st_snap demo_store))\<rparr>, lv_log_len = 0\<rparr>
       demo_commit = Some (r, pushed) \<and> cr_status r = Committed"
proof -
  have "snap_inv (st_snap demo_store)"
    using snap_inv_step [OF demo_inv, of demo_event 3600] by (simp add: demo_store_def demo_event_def)
  moreover have "redis_mirrors 1 demo_commit demo_store
     \<lparr>lv_member = False, lv_time_ms = 1000, lv_view = demo_view\<lparr>rv_snapshot := Some (encode_snap (st_snap demo_store))\<rparr>, lv_log_len = 0\<rparr>"
    by (simp add: redis_mirrors_def demo_store_def new_store_def)
  moreover have "cr_status (snd (commit_memory 1 demo_commit demo_store)) = Committed" by code_simp
  ultimately show ?thesis using commit_script_equivalent [of demo_store 1 demo_commit _ id] by fastforce
qed

definition unreachable :: "'r io \<Rightarrow> bool" where
  "unreachable io = (case io of Replies _ \<Rightarrow> False | _ \<Rightarrow> True)"

lemma redis_first_unreachable:
  "unreachable io \<Longrightarrow> redis_first io branch fallback st = fallback (set_available False st)"
  by (cases io) (simp_all add: unreachable_def redis_first_def)

text \<open>
  C14: the store fails closed. When Redis is configured and cannot be reached (or the call raises), an
  update changes neither the document nor its version, every snapshot is marked untrusted, a commit is
  refused as unavailable, no id can be claimed, and nothing is appended to the log or stored.
\<close>

theorem store_fails_closed:
  assumes "st_required st"
    and "unreachable u" "unreachable g" "unreachable s" "unreachable c" "unreachable k" "unreachable p"
  shows "update_store ret now patch u st = (set_available False st, sn_version (st_snap st)) \<and>
    \<not> snd (snd (register_and_snapshot ret now es g st)) \<and>
    \<not> snd (snd (snapshot_full s st)) \<and> \<not> snd (snd (snapshot_with_predicates es s st)) \<and>
    cr_status (snd (commit_authorization cj now a c st)) = Unavailable \<and>
    \<not> snd (claim_intent k st) \<and>
    append_actuation rec p st = (set_available False st, None) \<and> kv_set key val p st = (set_available False st, None)"
  using assms
  by (simp add: update_store_def redis_first_unreachable set_available_def register_and_snapshot_def
      snapshot_with_predicates_def snapshot_full_def commit_authorization_def claim_intent_def append_actuation_def
      kv_set_def)

theorem store_fails_closed_witness:
  "cr_status (snd (commit_authorization id 1 demo_commit Fails (new_store True Hash))) = Unavailable \<and>
   \<not> snd (claim_intent NoClient (new_store True Hash))"
  using store_fails_closed [of "new_store True Hash" NoClient NoClient NoClient Fails NoClient NoClient]
  by (simp add: new_store_def unreachable_def)

end
