(* ===== verification/Intent_Model.thy ===== *)
theory Intent_Model
  imports Predicates
begin

text \<open>
  The data model of \<^verbatim>\<open>xair/core/models.py\<close>: lifecycle states, outcomes, the action intent and its
  record, and the conversion from and to the JSON form of the Action Intent Schema.
\<close>

datatype py_error =
    KeyError string
  | ValueError string
  | TypeError
  | RuntimeError string

datatype intent_state =
    CREATED | PENDING | VALIDATING | AUTHORIZED | DELAYED | DEGRADED | REVOKED | EXPIRED
  | COMMITTED | RELEASED | WITHHELD | EFFECT_CONFIRMED | FAILED | UNKNOWN_EFFECT

datatype release_decision = RELEASE | WITHHOLD

datatype effect_status = EffConfirmed | EffFailed | EffUnknown

datatype decision_outcome = EXECUTE | DELAY | DEGRADE | REVOKE

fun state_value :: "intent_state \<Rightarrow> string" where
  "state_value CREATED = ''CREATED''"
| "state_value PENDING = ''PENDING''"
| "state_value VALIDATING = ''VALIDATING''"
| "state_value AUTHORIZED = ''AUTHORIZED''"
| "state_value DELAYED = ''DELAYED''"
| "state_value DEGRADED = ''DEGRADED''"
| "state_value REVOKED = ''REVOKED''"
| "state_value EXPIRED = ''EXPIRED''"
| "state_value COMMITTED = ''COMMITTED''"
| "state_value RELEASED = ''RELEASED''"
| "state_value WITHHELD = ''WITHHELD''"
| "state_value EFFECT_CONFIRMED = ''EFFECT_CONFIRMED''"
| "state_value FAILED = ''FAILED''"
| "state_value UNKNOWN_EFFECT = ''UNKNOWN_EFFECT''"

definition effect_value :: "effect_status \<Rightarrow> string" where
  "effect_value s = (case s of EffConfirmed \<Rightarrow> ''confirmed'' | EffFailed \<Rightarrow> ''failed'' | EffUnknown \<Rightarrow> ''unknown'')"

definition DEGRADATION_POLICIES :: "string list" where
  "DEGRADATION_POLICIES = [''none'', ''reduce_speed'']"

record action_descriptor =
  action_type :: string
  target_entity :: string
  parameters :: ctx
  degradation_policy :: string

text \<open>A \<^verbatim>\<open>datetime\<close>: its wall-clock reading (ms) and its UTC offset, absent for a naive one.\<close>

datatype datetime = DateTime rat "rat option"

record action_intent =
  int_id :: string
  int_source :: string
  timestamp_decision :: datetime
  freshness_window_ms :: int
  payload :: action_descriptor
  deadline_ms :: "rat option"
  preconditions :: "string list"
  safety_constraints :: "string list"
  priority :: int
  correlation_id :: "string option"
  policy_added :: "string list option"

record intent_record =
  rec_intent :: action_intent
  rec_state :: intent_state
  rec_outcome :: "decision_outcome option"
  rec_reason :: string
  rec_latency_ms :: rat
  rec_context_version :: int
  rec_read_set :: "string list"
  rec_read_set_version :: int
  rec_policy_predicates :: "string list"
  rec_predicates :: "string list"
  rec_predicate_version :: int
  rec_action_class :: string
  rec_release_decision :: "release_decision option"
  rec_commit_seq :: "nat option"
  rec_effect_status :: "effect_status option"
  rec_effect_detail :: string

definition new_record :: "action_intent \<Rightarrow> intent_record" where
  "new_record intent =
     \<lparr> rec_intent = intent, rec_state = CREATED, rec_outcome = None, rec_reason = [], rec_latency_ms = 0,
       rec_context_version = 0, rec_read_set = [], rec_read_set_version = 0, rec_policy_predicates = [],
       rec_predicates = [], rec_predicate_version = - 1, rec_action_class = ''other'',
       rec_release_decision = None, rec_commit_seq = None, rec_effect_status = None, rec_effect_detail = [] \<rparr>"

section \<open>From and to JSON\<close>

text \<open>\<^verbatim>\<open>data[k]\<close> for a field the schema types as a string; another JSON type is refused.\<close>

definition need :: "ctx \<Rightarrow> string \<Rightarrow> py_error + json" where
  "need d k = (case map_of d k of None \<Rightarrow> Inl (KeyError k) | Some v \<Rightarrow> Inr v)"

definition as_str :: "json \<Rightarrow> py_error + string" where
  "as_str v = (case v of JStr s \<Rightarrow> Inr s | _ \<Rightarrow> Inl TypeError)"

definition as_obj :: "json \<Rightarrow> py_error + ctx" where
  "as_obj v = (case v of JObj kvs \<Rightarrow> Inr kvs | _ \<Rightarrow> Inl TypeError)"

definition as_list :: "json \<Rightarrow> py_error + json list" where
  "as_list v = (case v of JList xs \<Rightarrow> Inr xs | _ \<Rightarrow> Inl TypeError)"

text \<open>\<^verbatim>\<open>int(v)\<close> on a JSON number or Boolean.\<close>

definition py_int :: "json \<Rightarrow> py_error + int" where
  "py_int v =
     (case v of
        JInt i \<Rightarrow> Inr i
      | JBool b \<Rightarrow> Inr (of_bool b)
      | JFloat (Fin r) \<Rightarrow> Inr (trunc_rat r)
      | JFloat _ \<Rightarrow> Inl (ValueError ''cannot convert float to integer'')
      | _ \<Rightarrow> Inl TypeError)"

definition as_num_opt :: "json option \<Rightarrow> py_error + rat option" where
  "as_num_opt v =
     (case v of
        None \<Rightarrow> Inr None
      | Some JNull \<Rightarrow> Inr None
      | Some (JInt i) \<Rightarrow> Inr (Some (of_int i))
      | Some (JFloat (Fin r)) \<Rightarrow> Inr (Some r)
      | _ \<Rightarrow> Inl TypeError)"

definition as_str_opt :: "json option \<Rightarrow> py_error + string option" where
  "as_str_opt v =
     (case v of None \<Rightarrow> Inr None | Some JNull \<Rightarrow> Inr None | Some (JStr s) \<Rightarrow> Inr (Some s) | _ \<Rightarrow> Inl TypeError)"

definition expr_of :: "json \<Rightarrow> py_error + string" where
  "expr_of p = (case p of JObj kvs \<Rightarrow> (case need kvs ''expr'' of Inl e \<Rightarrow> Inl e | Inr v \<Rightarrow> as_str v) | _ \<Rightarrow> as_str p)"

fun map_err :: "('a \<Rightarrow> 'e + 'b) \<Rightarrow> 'a list \<Rightarrow> 'e + 'b list" where
  "map_err f [] = Inr []"
| "map_err f (x # xs) =
     (case f x of Inl e \<Rightarrow> Inl e | Inr y \<Rightarrow> (case map_err f xs of Inl e \<Rightarrow> Inl e | Inr ys \<Rightarrow> Inr (y # ys)))"

definition bind_err :: "'e + 'a \<Rightarrow> ('a \<Rightarrow> 'e + 'b) \<Rightarrow> 'e + 'b" where
  "bind_err m f = (case m of Inl e \<Rightarrow> Inl e | Inr a \<Rightarrow> f a)"

lemma bind_err_simps [simp]: "bind_err (Inl e) f = Inl e" "bind_err (Inr a) f = f a"
  by (simp_all add: bind_err_def)

lemma bind_err_Inr: "bind_err m f = Inr b \<longleftrightarrow> (\<exists>a. m = Inr a \<and> f a = Inr b)"
  by (cases m) auto

definition dict_get_list :: "ctx \<Rightarrow> string \<Rightarrow> py_error + json list" where
  "dict_get_list d k = as_list (dict_get d k (JList []))"

text \<open>
  \<^term>\<open>fromiso\<close> stands for \<^verbatim>\<open>datetime.fromisoformat\<close> applied after the replacement of \<^verbatim>\<open>Z\<close>
  (\<^const>\<open>None\<close>: \<^verbatim>\<open>ValueError\<close>), \<^term>\<open>uuid\<close> for the identifier drawn when none is given.
\<close>

definition descriptor_from_dict :: "ctx \<Rightarrow> py_error + action_descriptor" where
  "descriptor_from_dict raw =
     bind_err (as_str (dict_get raw ''degradation_policy'' (JStr ''none''))) (\<lambda>policy.
     if policy \<notin> set DEGRADATION_POLICIES then Inl (ValueError ''unsupported degradation_policy'')
     else bind_err (bind_err (need raw ''action_type'') as_str) (\<lambda>aty.
          bind_err (bind_err (need raw ''target_entity'') as_str) (\<lambda>te.
          bind_err (as_obj (dict_get raw ''parameters'' (JObj []))) (\<lambda>ps.
          Inr \<lparr> action_type = aty, target_entity = te, parameters = ps, degradation_policy = policy \<rparr>))))"

definition from_dict :: "(string \<Rightarrow> datetime option) \<Rightarrow> string \<Rightarrow> ctx \<Rightarrow> py_error + action_intent" where
  "from_dict fromiso uuid d =
     bind_err (bind_err (need d ''timestamp_decision'') as_str) (\<lambda>raw.
     case fromiso raw of
       None \<Rightarrow> Inl (ValueError ''isoformat'')
     | Some ts \<Rightarrow>
         bind_err (bind_err (need d ''payload'') as_obj) (\<lambda>praw.
         bind_err (descriptor_from_dict praw) (\<lambda>pl.
         bind_err (as_str_opt (map_of d ''id'')) (\<lambda>i.
         bind_err (bind_err (need d ''source'') as_str) (\<lambda>src.
         bind_err (bind_err (need d ''freshness_window_ms'') py_int) (\<lambda>w.
         bind_err (as_num_opt (map_of d ''deadline_ms'')) (\<lambda>dl.
         bind_err (bind_err (dict_get_list d ''preconditions'') (map_err expr_of)) (\<lambda>pre.
         bind_err (bind_err (dict_get_list d ''safety_constraints'') (map_err expr_of)) (\<lambda>safe.
         bind_err (py_int (dict_get d ''priority'' (JInt 0))) (\<lambda>prio.
         bind_err (as_str_opt (map_of d ''correlation_id'')) (\<lambda>corr.
         Inr \<lparr> int_id = (case i of None \<Rightarrow> uuid | Some s \<Rightarrow> if s = [] then uuid else s),
               int_source = src, timestamp_decision = ts, freshness_window_ms = w, payload = pl,
               deadline_ms = dl, preconditions = pre, safety_constraints = safe, priority = prio,
               correlation_id = corr, policy_added = None \<rparr>)))))))))))"

text \<open>\<^term>\<open>isoformat\<close> is \<^verbatim>\<open>datetime.isoformat\<close>; a deadline is written as the number it is.\<close>

definition json_rat :: "rat \<Rightarrow> json" where
  "json_rat r = (if r = of_int \<lfloor>r\<rfloor> then JInt \<lfloor>r\<rfloor> else JFloat (Fin r))"

definition to_dict :: "(datetime \<Rightarrow> string) \<Rightarrow> action_intent \<Rightarrow> ctx" where
  "to_dict isoformat i =
     [(''id'', JStr (int_id i)),
      (''source'', JStr (int_source i)),
      (''timestamp_decision'', JStr (isoformat (timestamp_decision i))),
      (''freshness_window_ms'', JInt (freshness_window_ms i)),
      (''deadline_ms'', case deadline_ms i of None \<Rightarrow> JNull | Some r \<Rightarrow> json_rat r),
      (''preconditions'', JList (map (\<lambda>e. JObj [(''expr'', JStr e)]) (preconditions i))),
      (''safety_constraints'', JList (map (\<lambda>e. JObj [(''expr'', JStr e)]) (safety_constraints i))),
      (''payload'', JObj
         [(''action_type'', JStr (action_type (payload i))),
          (''target_entity'', JStr (target_entity (payload i))),
          (''parameters'', JObj (parameters (payload i))),
          (''degradation_policy'', JStr (degradation_policy (payload i)))]),
      (''priority'', JInt (priority i)),
      (''correlation_id'', case correlation_id i of None \<Rightarrow> JNull | Some s \<Rightarrow> JStr s)]"

lemma map_err_expr_of: "map_err expr_of (map (\<lambda>e. JObj [(''expr'', JStr e)]) es) = Inr es"
  by (induction es) (simp_all add: expr_of_def need_def as_str_def)

lemma as_num_json_rat: "as_num_opt (Some (json_rat r)) = Inr (Some r)"
  by (simp add: as_num_opt_def json_rat_def)

lemma descriptor_roundtrip:
  "degradation_policy p \<in> set DEGRADATION_POLICIES \<Longrightarrow>
   descriptor_from_dict
     [(''action_type'', JStr (action_type p)), (''target_entity'', JStr (target_entity p)),
      (''parameters'', JObj (parameters p)), (''degradation_policy'', JStr (degradation_policy p))] = Inr p"
  by (simp add: descriptor_from_dict_def dict_get_def need_def as_str_def as_obj_def)

text \<open>Whatever \<^const>\<open>from_dict\<close> accepts declares a fallback the runtime implements.\<close>

lemma descriptor_policy: "descriptor_from_dict raw = Inr p \<Longrightarrow> degradation_policy p \<in> set DEGRADATION_POLICIES"
  by (auto simp: descriptor_from_dict_def bind_err_Inr split: if_splits)

lemma from_dict_policy: "from_dict fromiso uuid d = Inr i \<Longrightarrow> degradation_policy (payload i) \<in> set DEGRADATION_POLICIES"
  by (auto simp: from_dict_def bind_err_Inr split: option.splits dest!: descriptor_policy)

lemma from_to_dict:
  assumes "fromiso (isoformat (timestamp_decision i)) = Some (timestamp_decision i)"
    and "degradation_policy (payload i) \<in> set DEGRADATION_POLICIES" and "int_id i \<noteq> []"
    and "policy_added i = None"
  shows "from_dict fromiso uuid (to_dict isoformat i) = Inr i"
proof -
  have dl: "as_num_opt (Some (case deadline_ms i of None \<Rightarrow> JNull | Some r \<Rightarrow> json_rat r)) = Inr (deadline_ms i)"
    by (cases "deadline_ms i") (simp_all add: as_num_json_rat, simp add: as_num_opt_def)
  have corr: "as_str_opt (Some (case correlation_id i of None \<Rightarrow> JNull | Some s \<Rightarrow> JStr s)) = Inr (correlation_id i)"
    by (cases "correlation_id i") (simp_all add: as_str_opt_def)
  have "as_str_opt (Some (JStr (int_id i))) = Inr (Some (int_id i))" by (simp add: as_str_opt_def)
  then show ?thesis
    using assms dl corr descriptor_roundtrip [OF assms(2)]
    by (simp add: from_dict_def to_dict_def need_def as_str_def as_obj_def py_int_def dict_get_def
        dict_get_list_def as_list_def map_err_expr_of)
qed

section \<open>Properties\<close>

text \<open>
  C28: an intent survives its JSON form: reading back what \<^verbatim>\<open>to_dict\<close> writes gives the same intent, for any
  ISO formatter and parser that are inverse on its time stamp, any implemented degradation policy and any
  intent the policy has not touched yet.
\<close>

theorem intent_roundtrip:
  assumes "fromiso (isoformat (timestamp_decision i)) = Some (timestamp_decision i)"
    and "degradation_policy (payload i) \<in> set DEGRADATION_POLICIES" and "int_id i \<noteq> []"
    and "policy_added i = None"
  shows "from_dict fromiso uuid (to_dict isoformat i) = Inr i"
  using assms by (rule from_to_dict)

definition sample_intent :: action_intent where
  "sample_intent = \<lparr>int_id = ''a1'', int_source = ''xr'', timestamp_decision = DateTime 0 None, freshness_window_ms = 500,
     payload = \<lparr>action_type = ''RESUME'', target_entity = ''line'', parameters = [(''speed_factor'', JInt 1)],
                degradation_policy = ''reduce_speed''\<rparr>,
     deadline_ms = Some 800, preconditions = [''line.load < 5''], safety_constraints = [], priority = 2,
     correlation_id = None, policy_added = None\<rparr>"

theorem intent_roundtrip_witness:
  "from_dict (\<lambda>s. if s = ''t0'' then Some (DateTime 0 None) else None) ''u'' (to_dict (\<lambda>d. ''t0'') sample_intent) = Inr sample_intent"
  by (rule intent_roundtrip) (simp_all add: sample_intent_def DEGRADATION_POLICIES_def)

end
