(* ===== verification/Lifecycle.thy ===== *)
theory Lifecycle
  imports Intent_Model
begin

text \<open>
  \<^verbatim>\<open>xair/core/lifecycle.py\<close>: the finite state machine of an intent and the tracker that holds the
  records and the audit trail. A transition the table forbids is an error and changes nothing.
\<close>

section \<open>The state machine\<close>

fun allowed :: "intent_state \<Rightarrow> intent_state list" where
  "allowed CREATED = [PENDING, REVOKED]"
| "allowed PENDING = [VALIDATING, REVOKED]"
| "allowed VALIDATING = [AUTHORIZED, DELAYED, DEGRADED, REVOKED, EXPIRED]"
| "allowed DELAYED = [PENDING, REVOKED, EXPIRED]"
| "allowed DEGRADED = [PENDING, REVOKED, EXPIRED]"
| "allowed AUTHORIZED = [COMMITTED, RELEASED, WITHHELD, REVOKED]"
| "allowed COMMITTED = [RELEASED, WITHHELD]"
| "allowed RELEASED = [EFFECT_CONFIRMED, FAILED, UNKNOWN_EFFECT]"
| "allowed UNKNOWN_EFFECT = [EFFECT_CONFIRMED, FAILED]"
| "allowed WITHHELD = []"
| "allowed EFFECT_CONFIRMED = []"
| "allowed FAILED = []"
| "allowed REVOKED = []"
| "allowed EXPIRED = []"

definition all_states :: "intent_state list" where
  "all_states = [CREATED, PENDING, VALIDATING, DELAYED, DEGRADED, AUTHORIZED, COMMITTED, RELEASED,
     UNKNOWN_EFFECT, WITHHELD, EFFECT_CONFIRMED, FAILED, REVOKED, EXPIRED]"

definition TERMINAL_STATES :: "intent_state list" where
  "TERMINAL_STATES = filter (\<lambda>s. allowed s = []) all_states"

definition SETTLED_STATES :: "intent_state list" where
  "SETTLED_STATES = TERMINAL_STATES @ [UNKNOWN_EFFECT]"

definition RELEASED_STATES :: "intent_state list" where
  "RELEASED_STATES = [RELEASED, EFFECT_CONFIRMED, FAILED, UNKNOWN_EFFECT]"

text \<open>The transition relation and the states an intent can pass through.\<close>

inductive fsm_step :: "intent_state \<Rightarrow> intent_state \<Rightarrow> bool" where
  "t \<in> set (allowed s) \<Longrightarrow> fsm_step s t"

inductive_simps fsm_step_iff: "fsm_step s t"

inductive fsm_path :: "intent_state \<Rightarrow> intent_state list \<Rightarrow> intent_state \<Rightarrow> bool" where
  stop: "fsm_path s [] s"
| go: "fsm_step s t \<Longrightarrow> fsm_path t ts u \<Longrightarrow> fsm_path s (t # ts) u"

inductive_cases fsm_path_NilE: "fsm_path s [] u"
inductive_cases fsm_path_ConsE: "fsm_path s (t # ts) u"

section \<open>The tracker\<close>

record audit_entry =
  aud_id :: string
  aud_state :: intent_state
  aud_outcome :: "decision_outcome option"
  aud_reason :: string

record tracker =
  records :: "(string, intent_record) dict"
  audit :: "audit_entry list"

definition empty_tracker :: tracker where
  "empty_tracker = \<lparr> records = [], audit = [] \<rparr>"

datatype fsm_error = NoRecord string | InvalidTransition string intent_state intent_state

definition log_entry :: "string \<Rightarrow> intent_state \<Rightarrow> string \<Rightarrow> decision_outcome option \<Rightarrow> tracker \<Rightarrow> tracker" where
  "log_entry i s reason out t =
     t\<lparr>audit := audit t @ [\<lparr> aud_id = i, aud_state = s, aud_outcome = out, aud_reason = reason \<rparr>]\<rparr>"

definition get_record :: "tracker \<Rightarrow> string \<Rightarrow> intent_record option" where
  "get_record t i = map_of (records t) i"

definition put_record :: "string \<Rightarrow> intent_record \<Rightarrow> tracker \<Rightarrow> tracker" where
  "put_record i r t = t\<lparr>records := dict_set i r (records t)\<rparr>"

definition register :: "action_intent \<Rightarrow> tracker \<Rightarrow> tracker \<times> intent_record" where
  "register intent t =
     (let r = new_record intent
      in (log_entry (int_id intent) CREATED [] None (put_record (int_id intent) r t), r))"

definition forget :: "string \<Rightarrow> tracker \<Rightarrow> tracker" where
  "forget i t = t\<lparr>records := dict_pop i (records t)\<rparr>"

definition transition ::
  "string \<Rightarrow> intent_state \<Rightarrow> decision_outcome option \<Rightarrow> string \<Rightarrow> rat option \<Rightarrow> tracker \<Rightarrow> fsm_error + tracker \<times> intent_record" where
  "transition i new_state out reason latency t =
     (case get_record t i of
        None \<Rightarrow> Inl (NoRecord i)
      | Some r \<Rightarrow>
          if new_state \<notin> set (allowed (rec_state r)) then Inl (InvalidTransition i (rec_state r) new_state)
          else let r1 = r\<lparr>rec_state := new_state\<rparr>;
                   r2 = (case out of None \<Rightarrow> r1 | Some _ \<Rightarrow> r1\<lparr>rec_outcome := out\<rparr>);
                   r3 = r2\<lparr>rec_reason := reason\<rparr>;
                   r4 = (case latency of None \<Rightarrow> r3 | Some l \<Rightarrow> r3\<lparr>rec_latency_ms := l\<rparr>)
               in Inr (log_entry i new_state reason out (put_record i r4 t), r4))"

definition note_entry :: "string \<Rightarrow> string \<Rightarrow> tracker \<Rightarrow> tracker" where
  "note_entry i reason t =
     (case get_record t i of None \<Rightarrow> t | Some r \<Rightarrow> log_entry i (rec_state r) reason None t)"

fun counts_from :: "(decision_outcome, nat) dict \<Rightarrow> intent_record list \<Rightarrow> (decision_outcome, nat) dict" where
  "counts_from counts [] = counts"
| "counts_from counts (r # rs) =
     counts_from (case rec_outcome r of None \<Rightarrow> counts | Some o' \<Rightarrow> dict_set o' (dict_get counts o' 0 + 1) counts) rs"

definition counts_by_outcome :: "tracker \<Rightarrow> (decision_outcome, nat) dict" where
  "counts_by_outcome t = counts_from [] (map snd (records t))"

section \<open>Lemmas on the state machine\<close>

text \<open>
  A rank that every transition out of the validation cycle lowers: an authorized intent settles after
  at most four more transitions.
\<close>

fun fsm_rank :: "intent_state \<Rightarrow> nat" where
  "fsm_rank AUTHORIZED = 4"
| "fsm_rank COMMITTED = 3"
| "fsm_rank RELEASED = 2"
| "fsm_rank UNKNOWN_EFFECT = 1"
| "fsm_rank s = (if allowed s = [] then 0 else 5)"

lemma fsm_rank_step: "fsm_step s t \<Longrightarrow> fsm_rank s \<le> 4 \<Longrightarrow> fsm_rank t < fsm_rank s"
  by (cases s) (auto simp: fsm_step_iff)

lemma fsm_path_rank: "fsm_path s ts u \<Longrightarrow> fsm_rank s \<le> 4 \<Longrightarrow> length ts + fsm_rank u \<le> fsm_rank s"
proof (induction rule: fsm_path.induct)
  case (go s t ts u)
  then have "fsm_rank t < fsm_rank s" by (rule_tac fsm_rank_step)
  with go show ?case by simp
qed simp

lemma terminal_states_set: "set TERMINAL_STATES = {WITHHELD, EFFECT_CONFIRMED, FAILED, REVOKED, EXPIRED}"
  by (auto simp: TERMINAL_STATES_def all_states_def)

lemma terminal_path: "fsm_path s ts u \<Longrightarrow> s \<in> set TERMINAL_STATES \<Longrightarrow> ts = [] \<and> u = s"
  by (cases rule: fsm_path.cases) (auto simp: terminal_states_set fsm_step_iff)

text \<open>Before authorization: the states from which a release state is reached only through \<^const>\<open>AUTHORIZED\<close>.\<close>

definition before_authorization :: "intent_state \<Rightarrow> bool" where
  "before_authorization s = (s \<in> {CREATED, PENDING, VALIDATING, DELAYED, DEGRADED})"

lemma before_step:
  "fsm_step s t \<Longrightarrow> before_authorization s \<Longrightarrow> t = AUTHORIZED \<or> before_authorization t \<or> t = REVOKED \<or> t = EXPIRED"
  by (auto simp: before_authorization_def fsm_step_iff)

lemma path_through_authorized:
  "fsm_path s ts u \<Longrightarrow> before_authorization s \<Longrightarrow> u \<in> {AUTHORIZED, COMMITTED, RELEASED, WITHHELD, EFFECT_CONFIRMED, FAILED, UNKNOWN_EFFECT}
   \<Longrightarrow> AUTHORIZED \<in> set ts"
proof (induction rule: fsm_path.induct)
  case (stop s)
  then show ?case by (auto simp: before_authorization_def)
next
  case (go s t ts u)
  from before_step [OF go.hyps(1) go.prems(1)]
  consider "t = AUTHORIZED" | "before_authorization t" | "t \<in> set TERMINAL_STATES" "t \<in> {REVOKED, EXPIRED}"
    by (auto simp: terminal_states_set)
  then show ?case
  proof cases
    case 2
    with go show ?thesis by simp
  next
    case 3
    with terminal_path [OF go.hyps(2)] go.prems(2) show ?thesis by auto
  qed simp
qed

section \<open>Lemmas on the tracker\<close>

lemma get_put [simp]: "get_record (put_record i r t) j = (if j = i then Some r else get_record t j)"
  by (simp add: get_record_def put_record_def)

lemma get_log [simp]: "get_record (log_entry i s reason out t) j = get_record t j"
  by (simp add: get_record_def log_entry_def)

lemma get_forget [simp]: "get_record (forget i t) j = (if j = i then None else get_record t j)"
  by (simp add: get_record_def forget_def)

lemma get_note [simp]: "get_record (note_entry i reason t) j = get_record t j"
  by (simp add: note_entry_def split: option.splits)

lemma get_register [simp]:
  "get_record (fst (register intent t)) j = (if j = int_id intent then Some (new_record intent) else get_record t j)"
  by (simp add: register_def Let_def)

text \<open>The record a successful transition leaves.\<close>

definition moved :: "intent_state \<Rightarrow> decision_outcome option \<Rightarrow> string \<Rightarrow> rat option \<Rightarrow> intent_record \<Rightarrow> intent_record" where
  "moved s out reason latency r =
     r\<lparr>rec_state := s, rec_outcome := (case out of None \<Rightarrow> rec_outcome r | Some _ \<Rightarrow> out),
       rec_reason := reason, rec_latency_ms := (case latency of None \<Rightarrow> rec_latency_ms r | Some l \<Rightarrow> l)\<rparr>"

lemma moved_sel [simp]:
  "rec_state (moved s out reason latency r) = s"
  "rec_reason (moved s out reason latency r) = reason"
  "rec_outcome (moved s out reason latency r) = (case out of None \<Rightarrow> rec_outcome r | Some _ \<Rightarrow> out)"
  "rec_intent (moved s out reason latency r) = rec_intent r"
  "rec_release_decision (moved s out reason latency r) = rec_release_decision r"
  "rec_commit_seq (moved s out reason latency r) = rec_commit_seq r"
  "rec_effect_status (moved s out reason latency r) = rec_effect_status r"
  "rec_action_class (moved s out reason latency r) = rec_action_class r"
  "rec_read_set (moved s out reason latency r) = rec_read_set r"
  "rec_read_set_version (moved s out reason latency r) = rec_read_set_version r"
  "rec_context_version (moved s out reason latency r) = rec_context_version r"
  "rec_predicates (moved s out reason latency r) = rec_predicates r"
  "rec_predicate_version (moved s out reason latency r) = rec_predicate_version r"
  "rec_policy_predicates (moved s out reason latency r) = rec_policy_predicates r"
  by (simp_all add: moved_def)

lemma transition_eq:
  "transition i s out reason latency t =
     (case get_record t i of
        None \<Rightarrow> Inl (NoRecord i)
      | Some r \<Rightarrow>
          if s \<in> set (allowed (rec_state r))
          then Inr (log_entry i s reason out (put_record i (moved s out reason latency r) t), moved s out reason latency r)
          else Inl (InvalidTransition i (rec_state r) s))"
  by (auto simp: transition_def moved_def Let_def split: option.splits)

lemma transition_ok:
  "get_record t i = Some r \<Longrightarrow> s \<in> set (allowed (rec_state r)) \<Longrightarrow>
   transition i s out reason latency t =
     Inr (log_entry i s reason out (put_record i (moved s out reason latency r) t), moved s out reason latency r)"
  by (simp add: transition_eq)

lemma transition_Inr:
  "transition i s out reason latency t = Inr (t', r') \<longleftrightarrow>
   (\<exists>r. get_record t i = Some r \<and> s \<in> set (allowed (rec_state r)) \<and> r' = moved s out reason latency r \<and>
        t' = log_entry i s reason out (put_record i r' t))"
  by (auto simp: transition_eq split: option.splits if_splits)

section \<open>The audit trail\<close>

text \<open>
  The trail is faithful: the last entry of a tracked intent shows its current state.
\<close>

definition last_audit :: "tracker \<Rightarrow> string \<Rightarrow> intent_state option" where
  "last_audit t i =
     (let own = filter (\<lambda>a. aud_id a = i) (audit t)
      in if own = [] then None else Some (aud_state (last own)))"

definition audit_inv :: "tracker \<Rightarrow> bool" where
  "audit_inv t = (\<forall>i r. get_record t i = Some r \<longrightarrow> last_audit t i = Some (rec_state r))"

lemma last_audit_log [simp]:
  "last_audit (log_entry i s reason out t) j = (if j = i then Some s else last_audit t j)"
  by (simp add: last_audit_def log_entry_def Let_def)

lemma last_audit_put [simp]: "last_audit (put_record i r t) j = last_audit t j"
  by (simp add: last_audit_def put_record_def)

lemma last_audit_forget [simp]: "last_audit (forget i t) j = last_audit t j"
  by (simp add: last_audit_def forget_def)

lemma audit_inv_empty: "audit_inv empty_tracker"
  by (simp add: audit_inv_def empty_tracker_def get_record_def)

lemma audit_inv_register: "audit_inv t \<Longrightarrow> audit_inv (fst (register intent t))"
  by (auto simp: audit_inv_def register_def Let_def new_record_def)

lemma audit_inv_forget: "audit_inv t \<Longrightarrow> audit_inv (forget i t)"
  by (auto simp: audit_inv_def)

lemma audit_inv_transition: "audit_inv t \<Longrightarrow> transition i s out reason latency t = Inr (t', r') \<Longrightarrow> audit_inv t'"
  by (auto simp: audit_inv_def transition_Inr)

lemma audit_inv_note: "audit_inv t \<Longrightarrow> audit_inv (note_entry i reason t)"
  by (auto simp: audit_inv_def note_entry_def split: option.splits)

lemma audit_inv_put:
  "audit_inv t \<Longrightarrow> get_record t i = Some r \<Longrightarrow> rec_state r' = rec_state r \<Longrightarrow> audit_inv (put_record i r' t)"
  by (auto simp: audit_inv_def)

lemmas audit_inv_ops = audit_inv_register audit_inv_forget audit_inv_note audit_inv_put

section \<open>Properties\<close>

text \<open>
  Once authorized, an intent passes through at most four further states, whatever is reported about it,
  and no path of the state machine leaves a terminal state.
\<close>

theorem authorized_settles:
  "(fsm_path AUTHORIZED ts u \<longrightarrow> length ts \<le> 4) \<and> (fsm_path s ts u \<and> s \<in> set TERMINAL_STATES \<longrightarrow> ts = [] \<and> u = s)"
  using fsm_path_rank [of AUTHORIZED ts u] terminal_path [of s ts u] by auto

theorem authorized_settles_witness:
  "length [COMMITTED, RELEASED, UNKNOWN_EFFECT, FAILED] \<le> 4"
proof -
  have "fsm_path AUTHORIZED [COMMITTED, RELEASED, UNKNOWN_EFFECT, FAILED] FAILED"
    by (intro fsm_path.intros fsm_step.intros) simp_all
  then show ?thesis using authorized_settles by blast
qed

text \<open>
  No intent is committed, released or withheld, and none has an effect, unless it was authorized first:
  every path from the pre-authorization states to such a state passes through the authorized state.
\<close>

theorem release_needs_authorization:
  "fsm_path CREATED ts u \<Longrightarrow> u \<in> set RELEASED_STATES \<union> {COMMITTED, WITHHELD} \<Longrightarrow> AUTHORIZED \<in> set ts"
  by (erule path_through_authorized) (auto simp: before_authorization_def RELEASED_STATES_def)

theorem release_needs_authorization_witness:
  "AUTHORIZED \<in> set [PENDING, VALIDATING, AUTHORIZED, RELEASED]"
  by (rule release_needs_authorization [of _ RELEASED])
    (intro fsm_path.intros fsm_step.intros, simp_all add: RELEASED_STATES_def)

text \<open>
  The audit trail stays faithful: after a transition the last entry of every tracked intent still shows
  its current state, and a transition the table forbids is an error.
\<close>

theorem transition_audited:
  assumes "audit_inv t"
  shows "case transition i s out reason latency t of
      Inr (t', r') \<Rightarrow> audit_inv t' \<and> rec_state r' = s \<and> (\<exists>r. get_record t i = Some r \<and> fsm_step (rec_state r) s)
    | Inl (InvalidTransition j c n) \<Rightarrow> (\<exists>r. get_record t i = Some r \<and> c = rec_state r \<and> \<not> fsm_step c s)
    | Inl (NoRecord j) \<Rightarrow> get_record t i = None"
proof (cases "transition i s out reason latency t")
  case (Inl e)
  then show ?thesis by (auto simp: transition_eq fsm_step_iff split: option.splits if_splits)
next
  case (Inr p)
  then obtain t' r' where p: "transition i s out reason latency t = Inr (t', r')" by (cases p) auto
  have "audit_inv t'" by (rule audit_inv_transition [OF assms p])
  moreover have "rec_state r' = s \<and> (\<exists>r. get_record t i = Some r \<and> fsm_step (rec_state r) s)"
    using p by (auto simp: transition_Inr fsm_step_iff)
  ultimately show ?thesis unfolding p by simp
qed

theorem transition_audited_witness:
  "\<exists>t' r'. transition (int_id sample_intent) PENDING None [] None (fst (register sample_intent empty_tracker)) = Inr (t', r') \<and> audit_inv t'"
proof -
  let ?t = "fst (register sample_intent empty_tracker)"
  have "audit_inv ?t" by (intro audit_inv_register audit_inv_empty)
  moreover have "transition (int_id sample_intent) PENDING None [] None ?t \<noteq> Inl e" for e
    by (simp add: transition_eq new_record_def)
  ultimately show ?thesis using transition_audited [of ?t "int_id sample_intent" PENDING None "[]" None]
    by (cases "transition (int_id sample_intent) PENDING None [] None ?t") auto
qed

end
