(* ===== verification/Temporal.thy ===== *)
theory Temporal
  imports Intent_Model
begin

text \<open>
  \<^verbatim>\<open>xair/core/temporal_validator.py\<close>: the freshness window bounds the age of a decision when it is
  validated, the deadline (or the window) bounds it at release. Ages are measured from the decision
  time, and the declared clock uncertainty is added to every measured age.
\<close>

record temporal_validator =
  max_future_skew_ms :: rat
  clock_uncertainty_ms :: rat

definition make_temporal :: "rat \<Rightarrow> pyfloat \<Rightarrow> py_error + temporal_validator" where
  "make_temporal skew eps =
     (case eps of
        Fin e \<Rightarrow> if 0 \<le> e then Inr \<lparr> max_future_skew_ms = skew, clock_uncertainty_ms = e \<rparr>
                 else Inl (ValueError ''clock uncertainty must be finite and >= 0'')
      | _ \<Rightarrow> Inl (ValueError ''clock uncertainty must be finite and >= 0''))"

definition decision_epoch_ms :: "action_intent \<Rightarrow> rat" where
  "decision_epoch_ms intent =
     (case timestamp_decision intent of
        DateTime wall None \<Rightarrow> wall
      | DateTime wall (Some offset) \<Rightarrow> wall - offset)"

definition release_bound_ms :: "action_intent \<Rightarrow> rat" where
  "release_bound_ms intent =
     (case deadline_ms intent of Some d \<Rightarrow> d | None \<Rightarrow> of_int (freshness_window_ms intent))"

definition age_ms :: "action_intent \<Rightarrow> rat \<Rightarrow> rat" where
  "age_ms intent now = now - decision_epoch_ms intent"

definition future_skew :: "temporal_validator \<Rightarrow> rat \<Rightarrow> string option" where
  "future_skew tv age =
     (if age < - max_future_skew_ms tv
      then Some (''future_skew: decision ahead by '' @ fmt1 (- age) @ ''ms > tolerance ''
                 @ fmt0 (max_future_skew_ms tv) @ ''ms'')
      else None)"

definition validate :: "temporal_validator \<Rightarrow> action_intent \<Rightarrow> rat \<Rightarrow> bool \<times> string" where
  "validate tv intent now =
     (let age0 = age_ms intent now
      in case future_skew tv age0 of
           Some skew \<Rightarrow> (False, skew)
         | None \<Rightarrow>
             (let age = age0 + clock_uncertainty_ms tv
              in if age > of_int (freshness_window_ms intent)
                 then (False, ''obsolete: elapsed '' @ fmt1 age @ ''ms > freshness ''
                              @ show_int (freshness_window_ms intent) @ ''ms'')
                 else case deadline_ms intent of
                        Some d \<Rightarrow>
                          if age > d then (False, ''deadline exceeded: '' @ fmt1 age @ ''ms > '' @ fmt0 d @ ''ms'')
                          else (True, ''temporal_ok'')
                      | None \<Rightarrow> (True, ''temporal_ok'')))"

definition validate_release :: "temporal_validator \<Rightarrow> action_intent \<Rightarrow> rat \<Rightarrow> bool \<times> string" where
  "validate_release tv intent now =
     (let age0 = age_ms intent now
      in case future_skew tv age0 of
           Some skew \<Rightarrow> (False, skew)
         | None \<Rightarrow>
             (let age = age0 + clock_uncertainty_ms tv; bound = release_bound_ms intent
              in if age > bound
                 then (False, (if deadline_ms intent \<noteq> None then ''deadline exceeded'' else ''obsolete'')
                              @ '': elapsed '' @ fmt1 age @ ''ms > '' @ fmt0 bound @ ''ms at release'')
                 else (True, ''temporal_ok'')))"

lemmas temporal_code [code] = validate_def [unfolded Let_def] validate_release_def [unfolded Let_def]

lemmas temporal_defs = age_ms_def future_skew_def validate_def validate_release_def release_bound_ms_def Let_def

section \<open>What an accepted age means\<close>

lemma make_temporal_nonneg: "make_temporal skew eps = Inr tv \<Longrightarrow> 0 \<le> clock_uncertainty_ms tv"
  by (auto simp: make_temporal_def split: pyfloat.splits if_splits)

lemma validate_ok_iff:
  "fst (validate tv intent now) \<longleftrightarrow>
     - max_future_skew_ms tv \<le> age_ms intent now \<and>
     age_ms intent now + clock_uncertainty_ms tv \<le> of_int (freshness_window_ms intent) \<and>
     (\<forall>d. deadline_ms intent = Some d \<longrightarrow> age_ms intent now + clock_uncertainty_ms tv \<le> d)"
  by (auto simp: temporal_defs split: option.splits)

lemma validate_release_ok_iff:
  "fst (validate_release tv intent now) \<longleftrightarrow>
     - max_future_skew_ms tv \<le> age_ms intent now \<and>
     age_ms intent now + clock_uncertainty_ms tv \<le> release_bound_ms intent"
  by (auto simp: temporal_defs split: option.splits)

text \<open>Validation implies the release bound at the same instant.\<close>

lemma validate_imp_release: "fst (validate tv intent now) \<Longrightarrow> fst (validate_release tv intent now)"
  by (auto simp: validate_ok_iff validate_release_ok_iff release_bound_ms_def split: option.splits)

lemma age_ms_mono: "now \<le> now' \<Longrightarrow> age_ms intent now \<le> age_ms intent now'"
  by (simp add: age_ms_def)

text \<open>
  The reasons: the lifecycle state of a refused intent is chosen by the prefix of the reason, so the
  prefixes are told apart by the first character.
\<close>

lemma validate_reason_deadline:
  "\<not> fst (validate tv intent now) \<Longrightarrow>
   starts_with (snd (validate tv intent now)) ''deadline'' \<longleftrightarrow>
     - max_future_skew_ms tv \<le> age_ms intent now \<and>
     age_ms intent now + clock_uncertainty_ms tv \<le> of_int (freshness_window_ms intent)"
  by (auto simp: temporal_defs split: option.splits if_splits)

lemma validate_release_reason_skew:
  "starts_with (snd (validate_release tv intent now)) ''future_skew'' \<longleftrightarrow>
   age_ms intent now < - max_future_skew_ms tv"
  by (auto simp: temporal_defs split: option.splits if_splits)

section \<open>Properties\<close>

text \<open>
  C29: what an accepted age means. If the checking clock is off from the producer's clock by at most the
  declared uncertainty, an intent accepted at validation truly is within its freshness window and its
  deadline, and one accepted at release is within its release bound; an accepted validation is also
  accepted as a release at the same instant.
\<close>

theorem accepted_age_is_true_age:
  assumes "\<bar>offset\<bar> \<le> clock_uncertainty_ms tv"
  shows "(fst (validate tv intent now) \<longrightarrow>
       (now + offset) - decision_epoch_ms intent \<le> of_int (freshness_window_ms intent) \<and>
       (\<forall>d. deadline_ms intent = Some d \<longrightarrow> (now + offset) - decision_epoch_ms intent \<le> d) \<and>
       fst (validate_release tv intent now)) \<and>
     (fst (validate_release tv intent now) \<longrightarrow> (now + offset) - decision_epoch_ms intent \<le> release_bound_ms intent)"
  using assms validate_imp_release [of tv intent now]
  by (auto simp: validate_ok_iff validate_release_ok_iff age_ms_def)

theorem accepted_age_is_true_age_witness:
  "(100 + 5) - decision_epoch_ms sample_intent \<le> release_bound_ms sample_intent"
proof -
  let ?tv = "\<lparr>max_future_skew_ms = 1000, clock_uncertainty_ms = 5\<rparr>"
  have "fst (validate ?tv sample_intent 100)" by code_simp
  moreover have "\<bar>5\<bar> \<le> clock_uncertainty_ms ?tv" by simp
  ultimately show ?thesis using accepted_age_is_true_age [of 5 ?tv sample_intent 100] by blast
qed

end
