(* ===== verification/Dispatch.thy ===== *)
theory Dispatch
  imports Lifecycle Temporal "HOL-Library.Multiset" "HOL-Library.Product_Lexorder"
begin

text \<open>
  The three small components the runtime delegates to: the priority queue of
  \<^verbatim>\<open>xair/core/intent_receiver.py\<close>, the target locks and the winner rule of \<^verbatim>\<open>xair/core/coordinator.py\<close>,
  and the decision table of \<^verbatim>\<open>xair/core/execution_decision.py\<close>.
\<close>

section \<open>The intent queue\<close>

text \<open>
  What the runtime relies on: a queue holds a multiset of items with keys; pushing adds one, popping
  removes one whose key is minimal.
\<close>

locale keyed_queue =
  fixes empty :: "'q"
    and push :: "'k::linorder \<Rightarrow> 'a \<Rightarrow> 'q \<Rightarrow> 'q"
    and pop :: "'q \<Rightarrow> (('k \<times> 'a) \<times> 'q) option"
    and items :: "'q \<Rightarrow> ('k \<times> 'a) multiset"
    and inv :: "'q \<Rightarrow> bool"
  assumes inv_empty: "inv empty" and items_empty: "items empty = {#}"
    and inv_push: "inv q \<Longrightarrow> inv (push k x q)"
    and items_push: "inv q \<Longrightarrow> items (push k x q) = add_mset (k, x) (items q)"
    and pop_None: "inv q \<Longrightarrow> (pop q = None) = (items q = {#})"
    and pop_Some: "inv q \<Longrightarrow> pop q = Some (kx, q') \<Longrightarrow>
      items q = add_mset kx (items q') \<and> inv q' \<and> (\<forall>ky \<in># items q'. fst kx \<le> fst ky)"
begin

primrec drain :: "nat \<Rightarrow> 'q \<Rightarrow> ('k \<times> 'a) list" where
  "drain 0 q = []"
| "drain (Suc n) q = (case pop q of None \<Rightarrow> [] | Some (kx, q') \<Rightarrow> kx # drain n q')"

lemma drain_all:
  "inv q \<Longrightarrow> size (items q) \<le> n \<Longrightarrow> mset (drain n q) = items q \<and> sorted (map fst (drain n q))"
proof (induction n arbitrary: q)
  case (Suc n)
  show ?case
  proof (cases "pop q")
    case None
    then show ?thesis using pop_None [OF Suc.prems(1)] by simp
  next
    case (Some p)
    obtain kx q' where p: "p = (kx, q')" by (cases p)
    note ps = pop_Some [OF Suc.prems(1) Some [unfolded p]]
    then have IH: "mset (drain n q') = items q' \<and> sorted (map fst (drain n q'))"
      using Suc.prems(2) by (intro Suc.IH) auto
    then have "\<forall>ky \<in> set (drain n q'). fst kx \<le> fst ky" using ps by (metis set_mset_mset)
    then show ?thesis using IH ps Some p by simp
  qed
qed simp

end

text \<open>
  The heap with its counter. The key of an item is its negated priority and its sequence number, so
  the order is total; \<^verbatim>\<open>heapq\<close> pops a smallest item, which the list kept in key order has in front.
\<close>

type_synonym queue_key = "int \<times> nat"

record receiver =
  rq_counter :: nat
  rq_heap :: "(queue_key \<times> action_intent) list"

text \<open>\<^verbatim>\<open>dataclass(order=True)\<close> compares the fields in order: the order of pairs is lexicographic.\<close>

fun heap_insert :: "'k::linorder \<Rightarrow> 'a \<Rightarrow> ('k \<times> 'a) list \<Rightarrow> ('k \<times> 'a) list" where
  "heap_insert k x [] = [(k, x)]"
| "heap_insert k x (y # ys) = (if k \<le> fst y then (k, x) # y # ys else y # heap_insert k x ys)"

fun heap_pop :: "('k \<times> 'a) list \<Rightarrow> (('k \<times> 'a) \<times> ('k \<times> 'a) list) option" where
  "heap_pop [] = None"
| "heap_pop (x # xs) = Some (x, xs)"

definition new_receiver :: receiver where
  "new_receiver = \<lparr>rq_counter = 0, rq_heap = []\<rparr>"

definition submit :: "action_intent \<Rightarrow> receiver \<Rightarrow> receiver" where
  "submit intent q =
     \<lparr>rq_counter = rq_counter q + 1, rq_heap = heap_insert (- priority intent, rq_counter q) intent (rq_heap q)\<rparr>"

definition pop :: "receiver \<Rightarrow> receiver \<times> action_intent option" where
  "pop q = (case heap_pop (rq_heap q) of None \<Rightarrow> (q, None) | Some (x, xs) \<Rightarrow> (q\<lparr>rq_heap := xs\<rparr>, Some (snd x)))"

definition queue_len :: "receiver \<Rightarrow> nat" where
  "queue_len q = length (rq_heap q)"

section \<open>Target locks\<close>

type_synonym coordinator = "string set"

definition check_conflict :: "action_intent \<Rightarrow> coordinator \<Rightarrow> bool \<times> string" where
  "check_conflict intent active =
     (let target = target_entity (payload intent)
      in if target \<in> active then (True, ''target_busy:'' @ target) else (False, []))"

definition acquire :: "action_intent \<Rightarrow> coordinator \<Rightarrow> coordinator" where
  "acquire intent active = insert (target_entity (payload intent)) active"

definition release_lock :: "action_intent \<Rightarrow> coordinator \<Rightarrow> coordinator" where
  "release_lock intent active = active - {target_entity (payload intent)}"

text \<open>
  \<^verbatim>\<open>sorted(..., reverse=True)\<close> keeps the input order of equal keys: it is the stable sort of the negated
  key.
\<close>

definition resolve_intents :: "action_intent list \<Rightarrow> string \<Rightarrow> action_intent option \<times> action_intent list" where
  "resolve_intents intents winner_policy =
     (if intents = [] then (None, [])
      else let sorted_intents =
             (if winner_policy = ''priority_then_xr''
              then sort_key (\<lambda>i. (- priority i, if int_source i = ''xr'' then 0 else 1 :: nat)) intents
              else sort_key (\<lambda>i. - priority i) intents)
           in (Some (hd sorted_intents), tl sorted_intents))"

section \<open>The decision table\<close>

definition decide :: "action_intent \<Rightarrow> bool \<Rightarrow> string \<Rightarrow> bool \<Rightarrow> string \<Rightarrow> bool \<Rightarrow> decision_outcome \<times> string" where
  "decide intent temporal_ok temporal_reason context_ok context_reason resource_busy =
     (if \<not> temporal_ok then (REVOKE, temporal_reason)
      else if \<not> context_ok then (REVOKE, context_reason)
      else if resource_busy then (DELAY, ''target_busy'')
      else if degradation_policy (payload intent) \<noteq> ''none'' then (DEGRADE, ''degradation_policy_active'')
      else (EXECUTE, ''valid''))"

section \<open>The queue meets its interface\<close>

lemma mset_heap_insert: "mset (heap_insert k x h) = add_mset (k, x) (mset h)"
  by (induction h) auto

lemma set_heap_insert: "set (heap_insert k x h) = insert (k, x) (set h)"
  by (induction h) auto

lemma sorted_heap_insert: "sorted (map fst h) \<Longrightarrow> sorted (map fst (heap_insert k x h))"
  by (induction h) (auto simp: set_heap_insert)

interpretation hq: keyed_queue "[]" heap_insert heap_pop mset "\<lambda>h. sorted (map fst h)"
proof (unfold_locales, goal_cases)
  case (5 q)
  then show ?case by (cases q) auto
next
  case (6 q kx q')
  then show ?case by (cases q) auto
qed (simp_all add: mset_heap_insert sorted_heap_insert)

text \<open>Submitting is an insertion behind every item of the same or a higher priority.\<close>

definition heap_ok :: "receiver \<Rightarrow> bool" where
  "heap_ok q \<longleftrightarrow> sorted (map fst (rq_heap q)) \<and>
     (\<forall>(k, i) \<in> set (rq_heap q). fst k = - priority i \<and> snd k < rq_counter q)"

lemma heap_ok_new: "heap_ok new_receiver"
  by (simp add: heap_ok_def new_receiver_def)

lemma heap_ok_submit: "heap_ok q \<Longrightarrow> heap_ok (submit intent q)"
  by (auto simp: heap_ok_def submit_def set_heap_insert intro: sorted_heap_insert)

lemma pop_cases:
  "pop q = (case rq_heap q of [] \<Rightarrow> (q, None) | x # xs \<Rightarrow> (q\<lparr>rq_heap := xs\<rparr>, Some (snd x)))"
  by (cases "rq_heap q") (simp_all add: pop_def)

lemma heap_ok_pop: "heap_ok q \<Longrightarrow> heap_ok (fst (pop q))"
  by (cases "rq_heap q") (auto simp: heap_ok_def pop_cases)

fun insert_behind :: "action_intent \<Rightarrow> action_intent list \<Rightarrow> action_intent list" where
  "insert_behind x [] = [x]"
| "insert_behind x (y # ys) = (if priority x > priority y then x # y # ys else y # insert_behind x ys)"

lemma heap_insert_behind:
  assumes "\<forall>(k, i) \<in> set h. fst k = - priority i \<and> snd k < c"
  shows "map snd (heap_insert (- priority x, c) x h) = insert_behind x (map snd h)"
  using assms
proof (induction h)
  case (Cons y ys)
  obtain k i where y: "y = (k, i)" "fst k = - priority i" "snd k < c" using Cons.prems by (cases y) auto
  have "((- priority x, c) \<le> k) = (priority x > priority i)" using y by (cases k) auto
  then show ?case using Cons y by simp
qed simp

lemma submit_behind:
  "heap_ok q \<Longrightarrow> map snd (rq_heap (submit x q)) = insert_behind x (map snd (rq_heap q))"
  unfolding submit_def heap_ok_def receiver.simps by (rule heap_insert_behind) blast

lemma mset_insert_behind: "mset (insert_behind x ys) = add_mset x (mset ys)"
  by (induction ys) auto

lemma sorted_insert_behind:
  "sorted (map (\<lambda>i. - priority i) ys) \<Longrightarrow> sorted (map (\<lambda>i. - priority i) (insert_behind x ys))"
proof (induction ys)
  case (Cons y ys)
  have "set (insert_behind x ys) = insert x (set ys)" by (metis mset_insert_behind set_mset_add_mset_insert set_mset_mset)
  then show ?case using Cons by auto
qed simp

lemma filter_insert_behind:
  "sorted (map (\<lambda>i. - priority i) ys) \<Longrightarrow>
   filter (\<lambda>y. p = - priority y) (insert_behind x ys) = filter (\<lambda>y. p = - priority y) (ys @ [x])"
proof (induction ys)
  case (Cons y ys)
  have "filter (\<lambda>z. p = - priority z) (y # ys) = []" if "priority x > priority y" "p = - priority x"
    using Cons.prems that by (auto simp: filter_empty_conv)
  with Cons show ?case by auto
qed simp

lemma insert_behind_sort:
  "insert_behind x (sort_key (\<lambda>i. - priority i) xs) = sort_key (\<lambda>i. - priority i) (xs @ [x])"
proof (rule properties_for_sort_key [symmetric])
  let ?f = "\<lambda>i :: action_intent. - priority i"
  show "mset (insert_behind x (sort_key ?f xs)) = mset (xs @ [x])" by (simp add: mset_insert_behind)
  show "sorted (map ?f (insert_behind x (sort_key ?f xs)))" by (simp add: sorted_insert_behind)
  fix k
  have "filter (\<lambda>y. ?f k = ?f y) (sort_key ?f xs) = filter (\<lambda>y. ?f k = ?f y) xs"
    using sort_key_stable [of ?f "?f k" xs] by (simp add: eq_commute)
  then show "filter (\<lambda>y. ?f k = ?f y) (insert_behind x (sort_key ?f xs)) = filter (\<lambda>y. ?f k = ?f y) (xs @ [x])"
    using filter_insert_behind [of "sort_key ?f xs" "?f k" x] by simp
qed

fun pop_all :: "nat \<Rightarrow> receiver \<Rightarrow> action_intent list" where
  "pop_all 0 q = []"
| "pop_all (Suc n) q = (case pop q of (q', None) \<Rightarrow> [] | (q', Some i) \<Rightarrow> i # pop_all n q')"

lemma pop_all_heap: "length (rq_heap q) \<le> n \<Longrightarrow> pop_all n q = map snd (rq_heap q)"
proof (induction n arbitrary: q)
  case (Suc n)
  then show ?case by (cases "rq_heap q") (auto simp: pop_cases)
qed simp

lemma submit_all_heap:
  "heap_ok (fold submit is new_receiver) \<and>
   map snd (rq_heap (fold submit is new_receiver)) = sort_key (\<lambda>i. - priority i) is"
proof (induction "is" rule: rev_induct)
  case Nil
  then show ?case using heap_ok_new by (simp add: new_receiver_def)
next
  case (snoc x xs)
  let ?q = "fold submit xs new_receiver"
  have "map snd (rq_heap (submit x ?q)) = insert_behind x (map snd (rq_heap ?q))"
    using snoc by (intro submit_behind) blast
  then show ?case using snoc heap_ok_submit [of ?q x] insert_behind_sort [of x xs] by simp
qed

section \<open>Properties\<close>

text \<open>
  The queue serves by priority and, within one priority, in order of submission: popping everything
  that was submitted yields the stable sort of the submissions by decreasing priority.
\<close>

theorem queue_priority_fifo:
  "pop_all (length is) (fold submit is new_receiver) = sort_key (\<lambda>i. - priority i) is"
proof -
  have "length (rq_heap (fold submit is new_receiver)) = length is"
    using submit_all_heap [of "is"] by (metis length_map length_sort)
  then show ?thesis using submit_all_heap [of "is"] by (simp add: pop_all_heap)
qed

text \<open>
  The conflict rule loses no intent and lets none of the losers outrank the winner: winner and losers
  are the submitted intents, the winner has the highest priority, and among those it is from the XR
  source if one of them is.
\<close>

theorem resolve_winner:
  assumes "intents \<noteq> []"
  shows "\<exists>w losers. resolve_intents intents ''priority_then_xr'' = (Some w, losers) \<and>
     mset (w # losers) = mset intents \<and>
     (\<forall>i \<in> set intents. priority i < priority w \<or>
        (priority i = priority w \<and> (int_source i = ''xr'' \<longrightarrow> int_source w = ''xr'')))"
proof -
  let ?f = "\<lambda>i. (- priority i, if int_source i = ''xr'' then 0 else 1 :: nat)"
  let ?s = "sort_key ?f intents"
  obtain w losers where s: "?s = w # losers" using assms by (cases ?s) (auto dest: arg_cong [of _ _ length])
  have "sorted (map ?f (w # losers))" using sorted_sort_key [of ?f intents] s by simp
  then have "?f w \<le> ?f i" if "i \<in> set (w # losers)" for i using that by auto
  moreover have "set (w # losers) = set intents" unfolding s [symmetric] by simp
  ultimately have le: "?f w \<le> ?f i" if "i \<in> set intents" for i using that by blast
  have m: "mset (w # losers) = mset intents" unfolding s [symmetric] by simp
  have "priority i < priority w \<or> (priority i = priority w \<and> (int_source i = ''xr'' \<longrightarrow> int_source w = ''xr''))"
    if "i \<in> set intents" for i
    using le [OF that] by (auto split: if_splits)
  then show ?thesis using s assms m by (simp add: resolve_intents_def)
qed

theorem resolve_winner_witness:
  "\<exists>w losers. resolve_intents [sample_intent, sample_intent\<lparr>int_id := ''a2'', priority := 7\<rparr>] ''priority_then_xr'' = (Some w, losers) \<and>
     priority w = 7"
proof -
  let ?is = "[sample_intent, sample_intent\<lparr>int_id := ''a2'', priority := 7\<rparr>]"
  obtain w losers where w: "resolve_intents ?is ''priority_then_xr'' = (Some w, losers)" "mset (w # losers) = mset ?is"
    "\<forall>i \<in> set ?is. priority i < priority w \<or>
        (priority i = priority w \<and> (int_source i = ''xr'' \<longrightarrow> int_source w = ''xr''))"
    using resolve_winner [of ?is] by auto
  have "w \<in> set ?is" using w(2) by (metis list.set_intros(1) mset_eq_setD)
  then have "priority w = 7" using w(3) by (auto simp: sample_intent_def)
  then show ?thesis using w(1) by blast
qed

end
