(* ===== verification/Runtime.thy ===== *)
theory Runtime
  imports Dispatch
begin

text \<open>
  \<^verbatim>\<open>xair/core/runtime.py\<close>: \<^verbatim>\<open>XAIRRuntime\<close>, which admits, validates and decides intents and records what the
  gateway reports about them. Every operation takes the whole runtime and returns the changed one with
  a result or an exception; changes made before an exception stay, as in the program. All operations run
  under one lock, so they are atomic steps. An intent is passed by value: the record holds the object
  that is being processed. Clock readings are arguments: \<^verbatim>\<open>now\<close> (ms), \<^verbatim>\<open>mnow\<close> (monotonic, s), the evaluation
  times of the predicates and the measured latency.
\<close>

definition ACTION_CLASSES :: "string list" where
  "ACTION_CLASSES = [''stop'', ''start'', ''motion'', ''reset'', ''shutdown'', ''other'']"

definition RISK_REDUCING :: "string list" where
  "RISK_REDUCING = [''stop'']"

definition FENCE_PREFIX :: string where
  "FENCE_PREFIX = ''stop.''"

definition registered :: "string list \<Rightarrow> string list" where
  "registered exprs = filter (\<lambda>e. \<not> starts_with (lstrip e) FENCE_PREFIX) exprs"

definition VALIDATABLE_STATES :: "intent_state list" where
  "VALIDATABLE_STATES = [CREATED, DELAYED, DEGRADED]"

definition percentile :: "rat list \<Rightarrow> rat \<Rightarrow> rat" where
  "percentile values q =
     (if values = [] then 0
      else let ordered = sort values; n = length ordered;
               rank = max 1 \<lceil>q * of_nat n - 1 / 10 ^ 9\<rceil>
           in ordered ! (nat (min rank (int n)) - 1))"

section \<open>State\<close>

record metrics =
  m_received :: nat
  m_authorized :: nat
  m_committed :: nat
  m_released :: nat
  m_withheld :: nat
  m_effect_confirmed :: nat
  m_effect_failed :: nat
  m_effect_unknown :: nat
  m_revoked :: nat
  m_delayed :: nat
  m_degraded :: nat
  m_latencies :: "rat list"

text \<open>\<^verbatim>\<open>callbacks\<close> lists the intents the actuation callback was called with.\<close>

record runtime =
  rt_receiver :: receiver
  rt_temporal :: temporal_validator
  rt_context :: ctx
  rt_eval_timeout_s :: rat
  rt_active :: coordinator
  rt_lifecycle :: tracker
  rt_retention_s :: rat
  rt_context_version :: int
  rt_metrics :: metrics
  rt_seen :: "(string, rat) dict"
  rt_policy :: "(string, string list) dict"
  rt_action_classes :: "(string, string) dict"
  rt_class_policy :: "(string, string list) dict"
  rt_callbacks :: "action_intent list"

definition new_metrics :: metrics where
  "new_metrics = \<lparr>m_received = 0, m_authorized = 0, m_committed = 0, m_released = 0, m_withheld = 0,
     m_effect_confirmed = 0, m_effect_failed = 0, m_effect_unknown = 0, m_revoked = 0, m_delayed = 0,
     m_degraded = 0, m_latencies = []\<rparr>"

definition new_runtime :: "temporal_validator \<Rightarrow> ctx \<Rightarrow> rat \<Rightarrow> runtime" where
  "new_runtime tv c retention_s =
     \<lparr>rt_receiver = new_receiver, rt_temporal = tv, rt_context = c, rt_eval_timeout_s = 5 / 1000,
      rt_active = {}, rt_lifecycle = empty_tracker, rt_retention_s = retention_s, rt_context_version = 0,
      rt_metrics = new_metrics, rt_seen = [], rt_policy = [], rt_action_classes = [], rt_class_policy = [],
      rt_callbacks = []\<rparr>"

text \<open>Exceptions of the operations, and the state-and-exception sequencing.\<close>

datatype rt_error = RtKeyError string | RtInvalid string intent_state intent_state | RtValueError string

type_synonym 'a rt = "runtime \<Rightarrow> runtime \<times> (rt_error + 'a)"

definition bind_rt :: "'a rt \<Rightarrow> ('a \<Rightarrow> 'b rt) \<Rightarrow> 'b rt" where
  "bind_rt m f rt = (case m rt of (rt', Inl e) \<Rightarrow> (rt', Inl e) | (rt', Inr x) \<Rightarrow> f x rt')"

definition return_rt :: "'a \<Rightarrow> 'a rt" where
  "return_rt x rt = (rt, Inr x)"

definition tally :: "(metrics \<Rightarrow> metrics) \<Rightarrow> runtime \<Rightarrow> runtime" where
  "tally f rt = rt\<lparr>rt_metrics := f (rt_metrics rt)\<rparr>"

fun rt_error_of :: "fsm_error \<Rightarrow> rt_error" where
  "rt_error_of (NoRecord i) = RtKeyError i"
| "rt_error_of (InvalidTransition i s t) = RtInvalid i s t"

definition move :: "string \<Rightarrow> intent_state \<Rightarrow> decision_outcome option \<Rightarrow> string \<Rightarrow> rat option \<Rightarrow> intent_record rt" where
  "move i s out reason latency rt =
     (case transition i s out reason latency (rt_lifecycle rt) of
        Inl e \<Rightarrow> (rt, Inl (rt_error_of e))
      | Inr (t, r) \<Rightarrow> (rt\<lparr>rt_lifecycle := t\<rparr>, Inr r))"

text \<open>Assigning attributes of the record object that the tracker holds.\<close>

definition modify_record :: "string \<Rightarrow> (intent_record \<Rightarrow> intent_record) \<Rightarrow> runtime \<Rightarrow> runtime" where
  "modify_record i f rt =
     (case get_record (rt_lifecycle rt) i of
        None \<Rightarrow> rt
      | Some r \<Rightarrow> rt\<lparr>rt_lifecycle := put_record i (f r) (rt_lifecycle rt)\<rparr>)"

definition the_record :: "string \<Rightarrow> intent_record rt" where
  "the_record i rt = (rt, case get_record (rt_lifecycle rt) i of None \<Rightarrow> Inl (RtKeyError i) | Some r \<Rightarrow> Inr r)"

section \<open>Policy\<close>

text \<open>
  A policy entry is a list of predicates, or an object with a class and predicates. \<^verbatim>\<open>str(e)\<close> of an entry
  that is no string is outside the documented form and refused here.
\<close>

definition str_list :: "json \<Rightarrow> rt_error + string list" where
  "str_list v =
     (case v of
        JList xs \<Rightarrow> (if list_all (\<lambda>x. case x of JStr _ \<Rightarrow> True | _ \<Rightarrow> False) xs
                     then Inr (map (\<lambda>x. case x of JStr s \<Rightarrow> s | _ \<Rightarrow> []) xs) else Inl (RtValueError ''predicate''))
      | _ \<Rightarrow> Inl (RtValueError ''predicate list''))"

type_synonym policy_tables =
  "(string, string list) dict \<times> (string, string) dict \<times> (string, string list) dict"

definition truthy :: "json \<Rightarrow> bool" where
  "truthy v = (v \<noteq> JNull \<and> v \<noteq> JBool False \<and> v \<noteq> JInt 0 \<and> v \<noteq> JFloat (Fin 0) \<and> v \<noteq> JStr [] \<and> v \<noteq> JList [] \<and> v \<noteq> JObj [])"

definition policy_entry :: "string \<Rightarrow> json \<Rightarrow> policy_tables \<Rightarrow> rt_error + policy_tables" where
  "policy_entry key0 val tables =
     (case tables of (actions, classes, class_preds) \<Rightarrow>
        let key = strip key0
        in if starts_with (lower key) ''class:'' then
             (let name = lower (strip (drop 6 key))
              in if name \<notin> set ACTION_CLASSES then Inl (RtValueError (''unknown action class: '' @ name))
                 else if name \<in> set RISK_REDUCING \<and> truthy val
                 then Inl (RtValueError (''class '' @ name @ '' cannot carry mandatory predicates''))
                 else case str_list val of
                        Inl e \<Rightarrow> Inl e
                      | Inr es \<Rightarrow> Inr (actions, classes, dict_set name es class_preds))
           else
             (let extra = (case val of JObj kvs \<Rightarrow> list_ex (\<lambda>p. fst p \<notin> {''class'', ''require''}) kvs | _ \<Rightarrow> False);
                  cls = (case val of JObj kvs \<Rightarrow>
                           (case dict_get kvs ''class'' (JStr ''other'') of JStr s \<Rightarrow> lower (strip s) | _ \<Rightarrow> '''')
                         | _ \<Rightarrow> ''other'');
                  require = (case val of JObj kvs \<Rightarrow> dict_get kvs ''require'' (JList []) | _ \<Rightarrow> val)
              in if extra then Inl (RtValueError (key @ '': only 'class' and 'require' are allowed''))
                 else if cls \<notin> set ACTION_CLASSES then Inl (RtValueError (key @ '': unknown action class '' @ cls))
                 else if cls \<in> set RISK_REDUCING \<and> truthy require
                 then Inl (RtValueError (key @ '': a '' @ cls @ ''-class action cannot carry mandatory predicates''))
                 else case str_list require of
                        Inl e \<Rightarrow> Inl e
                      | Inr es \<Rightarrow> Inr (dict_set (upper key) es actions, dict_set (upper key) cls classes, class_preds)))"

fun policy_entries :: "ctx \<Rightarrow> policy_tables \<Rightarrow> rt_error + policy_tables" where
  "policy_entries [] tables = Inr tables"
| "policy_entries ((k, v) # kvs) tables =
     (case policy_entry k v tables of Inl e \<Rightarrow> Inl e | Inr tables' \<Rightarrow> policy_entries kvs tables')"

definition set_policy :: "ctx \<Rightarrow> (string, string list) dict rt" where
  "set_policy policy rt =
     (case policy_entries policy ([], [], []) of
        Inl e \<Rightarrow> (rt, Inl e)
      | Inr (actions, classes, class_preds) \<Rightarrow>
          (rt\<lparr>rt_policy := actions, rt_action_classes := classes, rt_class_policy := class_preds\<rparr>, Inr actions))"

definition action_key :: "action_intent \<Rightarrow> string" where
  "action_key intent = upper (strip (action_type (payload intent)))"

definition action_class :: "runtime \<Rightarrow> action_intent \<Rightarrow> string" where
  "action_class rt intent = dict_get (rt_action_classes rt) (action_key intent) ''other''"

text \<open>\<^verbatim>\<open>list(dict.fromkeys(xs))\<close> keeps the first occurrence of each element.\<close>

definition unique :: "'a list \<Rightarrow> 'a list" where
  "unique xs = rev (remdups (rev xs))"

definition apply_policy :: "runtime \<Rightarrow> action_intent \<Rightarrow> action_intent" where
  "apply_policy rt intent =
     (case policy_added intent of
        Some _ \<Rightarrow> intent
      | None \<Rightarrow>
          (let cls = action_class rt intent;
               mandated = dict_get (rt_policy rt) (action_key intent) [] @ dict_get (rt_class_policy rt) cls [];
               added = unique (filter (\<lambda>e. e \<notin> set (preconditions intent) \<and> e \<notin> set (safety_constraints intent)) mandated)
           in intent\<lparr>preconditions := preconditions intent @ added, policy_added := Some added\<rparr>))"

definition prepare :: "runtime \<Rightarrow> action_intent \<Rightarrow> action_intent \<times> string list" where
  "prepare rt intent =
     (let intent' = apply_policy rt intent
      in (intent', registered (safety_constraints intent' @ preconditions intent')))"

section \<open>Context and admission\<close>

definition install_context_snapshot :: "ctx \<Rightarrow> int \<Rightarrow> bool \<Rightarrow> runtime \<Rightarrow> runtime \<times> int" where
  "install_context_snapshot snapshot version replace rt =
     (if version < rt_context_version rt then (rt, rt_context_version rt)
      else (rt\<lparr>rt_context_version := version,
               rt_context := (if replace then replace_context (rt_context rt) snapshot
                              else update_context (rt_context rt) snapshot)\<rparr>, version))"

fun expire_from :: "rat \<Rightarrow> (string, rat) dict \<Rightarrow> tracker \<Rightarrow> (string, rat) dict \<times> tracker" where
  "expire_from horizon [] t = ([], t)"
| "expire_from horizon ((i, admitted_at) # seen) t =
     (if admitted_at \<ge> horizon then ((i, admitted_at) # seen, t)
      else expire_from horizon seen
             (case get_record t i of
                Some r \<Rightarrow> if rec_state r \<in> set SETTLED_STATES then forget i t else t
              | None \<Rightarrow> t))"

definition expire_seen :: "rat \<Rightarrow> runtime \<Rightarrow> runtime" where
  "expire_seen mnow rt =
     (case expire_from (mnow - rt_retention_s rt) (rt_seen rt) (rt_lifecycle rt) of
        (seen, t) \<Rightarrow> rt\<lparr>rt_seen := seen, rt_lifecycle := t\<rparr>)"

definition is_duplicate :: "rat \<Rightarrow> string \<Rightarrow> runtime \<Rightarrow> runtime \<times> bool" where
  "is_duplicate mnow i rt = (let rt' = expire_seen mnow rt in (rt', map_of (rt_seen rt') i \<noteq> None))"

definition admit :: "rat \<Rightarrow> bool \<Rightarrow> action_intent \<Rightarrow> runtime \<Rightarrow> runtime \<times> intent_record \<times> bool" where
  "admit mnow enqueue intent rt0 =
     (let rt = expire_seen mnow rt0; i = int_id intent
      in case (if map_of (rt_seen rt) i \<noteq> None then get_record (rt_lifecycle rt) i else None) of
           Some r \<Rightarrow> (rt, r, True)
         | None \<Rightarrow>
             (case register intent (rt_lifecycle rt) of (t, r) \<Rightarrow>
                (tally (\<lambda>m. m\<lparr>m_received := m_received m + 1\<rparr>)
                   (rt\<lparr>rt_seen := dict_set i mnow (rt_seen rt), rt_lifecycle := t,
                       rt_receiver := (if enqueue then submit intent (rt_receiver rt) else rt_receiver rt)\<rparr>),
                 r, False)))"

definition submit_intent :: "rat \<Rightarrow> action_intent \<Rightarrow> runtime \<Rightarrow> runtime \<times> intent_record" where
  "submit_intent mnow intent rt = (case admit mnow True intent rt of (rt', r, dup) \<Rightarrow> (rt', r))"

section \<open>Degradation\<close>

text \<open>\<^verbatim>\<open>float(x)\<close> of a parameter; \<^const>\<open>None\<close> is \<^verbatim>\<open>TypeError\<close>, \<^verbatim>\<open>ValueError\<close> or \<^verbatim>\<open>OverflowError\<close>.\<close>

definition param_float :: "json \<Rightarrow> pyfloat option" where
  "param_float v =
     (case v of
        JInt i \<Rightarrow> (case double_of_rat (of_int i) of Fin r \<Rightarrow> Some (Fin r) | _ \<Rightarrow> None)
      | JFloat f \<Rightarrow> Some f
      | JBool b \<Rightarrow> Some (Fin (of_bool b))
      | JStr s \<Rightarrow> py_float s
      | _ \<Rightarrow> None)"

definition flt_half :: "pyfloat \<Rightarrow> pyfloat" where
  "flt_half f = (case f of Fin r \<Rightarrow> double_of_rat (r / 2) | _ \<Rightarrow> f)"

definition apply_degradation :: "action_intent \<Rightarrow> rt_error + action_intent" where
  "apply_degradation intent =
     (let p = payload intent; policy = degradation_policy p
      in if policy \<noteq> ''reduce_speed'' then Inl (RtValueError (''unsupported degradation_policy: '' @ policy))
         else case param_float (dict_get (parameters p) ''speed_factor'' (JFloat (Fin 1))) of
                None \<Rightarrow> Inl (RtValueError ''speed_factor'')
              | Some f \<Rightarrow>
                  Inr (intent\<lparr>payload := p\<lparr>parameters := dict_set ''speed_factor'' (JFloat (flt_half f)) (parameters p),
                                            degradation_policy := ''none''\<rparr>\<rparr>))"

section \<open>Validation\<close>

record process_args =
  pa_now :: rat
  pa_context :: "ctx option"
  pa_context_version :: "int option"
  pa_path_versions :: "path_versions option"
  pa_predicate_versions :: "pred_versions option"
  pa_requeue :: bool
  pa_elapsed :: "nat \<Rightarrow> rat"
  pa_latency_ms :: rat

definition process_queued :: "rat \<Rightarrow> process_args" where
  "process_queued now =
     \<lparr>pa_now = now, pa_context = None, pa_context_version = None, pa_path_versions = None,
      pa_predicate_versions = None, pa_requeue = True, pa_elapsed = (\<lambda>_. 0), pa_latency_ms = 0\<rparr>"

definition requeue_if :: "bool \<Rightarrow> action_intent \<Rightarrow> runtime \<Rightarrow> runtime" where
  "requeue_if b intent rt = (if b then rt\<lparr>rt_receiver := submit intent (rt_receiver rt)\<rparr> else rt)"

definition authorize_stop :: "process_args \<Rightarrow> action_intent \<Rightarrow> intent_record rt" where
  "authorize_stop a intent0 rt0 =
     (let intent = intent0\<lparr>policy_added := Some []\<rparr>; i = int_id intent;
          rt = modify_record i (\<lambda>r. r\<lparr>rec_intent := intent, rec_context_version := rt_context_version rt0,
                 rec_read_set := [], rec_read_set_version := 0, rec_predicates := [],
                 rec_latency_ms := pa_latency_ms a\<rparr>) rt0
      in bind_rt (move i AUTHORIZED (Some EXECUTE) ''risk_reducing_action'' (Some (pa_latency_ms a)))
           (\<lambda>r rt. (tally (\<lambda>m. m\<lparr>m_authorized := m_authorized m + 1\<rparr>) rt, Inr r)) rt)"

definition revoke_stale :: "action_intent \<Rightarrow> intent_record rt" where
  "revoke_stale intent rt =
     bind_rt (move (int_id intent) REVOKED (Some REVOKE) ''stale_context_snapshot'' None)
       (\<lambda>r rt. (tally (\<lambda>m. m\<lparr>m_revoked := m_revoked m + 1\<rparr>) rt, Inr r))
       (modify_record (int_id intent) (\<lambda>r. r\<lparr>rec_context_version := rt_context_version rt\<rparr>) rt)"

text \<open>What the record keeps of the evaluation: the versions it was based on.\<close>

definition evaluated :: "process_args \<Rightarrow> int \<Rightarrow> action_intent \<Rightarrow> intent_record \<Rightarrow> intent_record" where
  "evaluated a version intent r =
     (let exprs = safety_constraints intent @ preconditions intent
      in r\<lparr>rec_intent := intent,
           rec_policy_predicates := (case policy_added intent of None \<Rightarrow> [] | Some es \<Rightarrow> es),
           rec_context_version := version,
           rec_read_set := read_set exprs,
           rec_read_set_version := (case pa_path_versions a of Some pv \<Rightarrow> read_set_version pv (read_set exprs)
                                                              | None \<Rightarrow> version),
           rec_predicates := registered exprs,
           rec_predicate_version := (case pa_predicate_versions a of
                                       Some pv \<Rightarrow> predicate_version pv (registered exprs) | None \<Rightarrow> - 1),
           rec_latency_ms := pa_latency_ms a\<rparr>)"

definition conclude :: "process_args \<Rightarrow> action_intent \<Rightarrow> decision_outcome \<Rightarrow> string \<Rightarrow> intent_record rt" where
  "conclude a intent outcome reason rt =
     (let i = int_id intent; lat = Some (pa_latency_ms a)
      in case outcome of
           DEGRADE \<Rightarrow>
             (case apply_degradation intent of
                Inl e \<Rightarrow> (rt, Inl e)
              | Inr intent' \<Rightarrow>
                  bind_rt (move i DEGRADED (Some outcome) reason lat)
                    (\<lambda>r rt. (requeue_if (pa_requeue a) intent' (tally (\<lambda>m. m\<lparr>m_degraded := m_degraded m + 1\<rparr>) rt), Inr r))
                    (modify_record i (\<lambda>r. r\<lparr>rec_intent := intent'\<rparr>) rt))
         | EXECUTE \<Rightarrow>
             bind_rt (move i AUTHORIZED (Some outcome) reason lat)
               (\<lambda>r rt. (tally (\<lambda>m. m\<lparr>m_authorized := m_authorized m + 1\<rparr>) rt, Inr r))
               (rt\<lparr>rt_active := acquire intent (rt_active rt)\<rparr>)
         | DELAY \<Rightarrow>
             bind_rt (move i DELAYED (Some outcome) reason lat)
               (\<lambda>r rt. (requeue_if (pa_requeue a) intent (tally (\<lambda>m. m\<lparr>m_delayed := m_delayed m + 1\<rparr>) rt), Inr r)) rt
         | REVOKE \<Rightarrow>
             bind_rt (move i (if starts_with reason ''deadline'' then EXPIRED else REVOKED) (Some outcome) reason lat)
               (\<lambda>r rt. (tally (\<lambda>m. m\<lparr>m_revoked := m_revoked m + 1\<rparr>) rt, Inr r)) rt)"

definition evaluate :: "process_args \<Rightarrow> ctx \<Rightarrow> action_intent \<Rightarrow> runtime \<Rightarrow> decision_outcome \<times> string" where
  "evaluate a snapshot intent rt =
     (let (conflict, _) = check_conflict intent (rt_active rt);
          (temporal_ok, temporal_reason) = validate (rt_temporal rt) intent (pa_now a);
          (context_ok, context_reason) =
            evaluate_predicates (pa_elapsed a) (rt_eval_timeout_s rt) (safety_constraints intent) (preconditions intent) snapshot
      in decide intent temporal_ok temporal_reason context_ok context_reason conflict)"

definition validate_now :: "process_args \<Rightarrow> ctx \<Rightarrow> int \<Rightarrow> action_intent \<Rightarrow> intent_record rt" where
  "validate_now a snapshot version intent0 rt =
     (let intent = apply_policy rt intent0;
          (outcome, reason) = evaluate a snapshot intent rt
      in conclude a intent outcome reason
           (modify_record (int_id intent) (evaluated a version intent)
              (tally (\<lambda>m. m\<lparr>m_latencies := m_latencies m @ [pa_latency_ms a]\<rparr>) rt)))"

definition process_intent :: "process_args \<Rightarrow> action_intent \<Rightarrow> intent_record rt" where
  "process_intent a intent rt0 =
     (let i = int_id intent;
          (rt, record) = (case get_record (rt_lifecycle rt0) i of
                            Some r \<Rightarrow> (rt0, r)
                          | None \<Rightarrow> (case register intent (rt_lifecycle rt0) of (t, r) \<Rightarrow> (rt0\<lparr>rt_lifecycle := t\<rparr>, r)))
      in if rec_state record \<notin> set VALIDATABLE_STATES then (rt, Inr record)
         else
           let installed = rt_context_version rt;
               (snapshot, version) =
                 (case pa_context a of
                    None \<Rightarrow> (rt_context rt, installed)
                  | Some c \<Rightarrow> (c, case pa_context_version a of None \<Rightarrow> installed | Some v \<Rightarrow> v))
           in bind_rt (move i PENDING None [] None)
                (\<lambda>_. bind_rt (move i VALIDATING None [] None)
                  (\<lambda>_ rt1.
                     let cls = action_class rt1 intent;
                         rt2 = modify_record i (\<lambda>r. r\<lparr>rec_action_class := cls\<rparr>) rt1
                     in if cls \<in> set RISK_REDUCING then authorize_stop a intent rt2
                        else if (\<exists>v \<in> set_option (pa_context_version a). v < installed) then revoke_stale intent rt2
                        else validate_now a snapshot version intent rt2)) rt)"

definition submit_and_process ::
  "rat \<Rightarrow> process_args \<Rightarrow> action_intent \<Rightarrow> (intent_record \<times> bool) rt" where
  "submit_and_process mnow a intent rt =
     (let rt1 = (case (pa_context a, pa_context_version a) of
                   (Some c, Some v) \<Rightarrow> fst (install_context_snapshot c v False rt)
                 | _ \<Rightarrow> rt)
      in case admit mnow False intent rt1 of (rt2, r, dup) \<Rightarrow>
           if dup then (rt2, Inr (r, True))
           else bind_rt (process_intent (a\<lparr>pa_context := None, pa_path_versions := None, pa_predicate_versions := None, pa_requeue := True\<rparr>) intent)
                  (\<lambda>r rt. (rt, Inr (r, False))) rt2)"

definition process_next :: "rat \<Rightarrow> intent_record option rt" where
  "process_next now rt =
     (case pop (rt_receiver rt) of
        (q, None) \<Rightarrow> (rt, Inr None)
      | (q, Some intent) \<Rightarrow>
          bind_rt (process_intent (process_queued now) intent) (\<lambda>r rt. (rt, Inr (Some r))) (rt\<lparr>rt_receiver := q\<rparr>))"

text \<open>\<^verbatim>\<open>process_all\<close> loops until the queue is empty; \<^const>\<open>None\<close>: not within \<^term>\<open>fuel\<close> passes.\<close>

fun process_all :: "nat \<Rightarrow> rat \<Rightarrow> runtime \<Rightarrow> (runtime \<times> (rt_error + intent_record list)) option" where
  "process_all 0 now rt = None"
| "process_all (Suc fuel) now rt =
     (case process_next now rt of
        (rt', Inl e) \<Rightarrow> Some (rt', Inl e)
      | (rt', Inr None) \<Rightarrow> Some (rt', Inr [])
      | (rt', Inr (Some r)) \<Rightarrow>
          (case process_all fuel now rt' of
             None \<Rightarrow> None
           | Some (rt'', Inl e) \<Rightarrow> Some (rt'', Inl e)
           | Some (rt'', Inr rs) \<Rightarrow> Some (rt'', Inr (r # rs))))"

section \<open>Commit, release, effect, revocation\<close>

definition reject :: "intent_record \<Rightarrow> intent_state \<Rightarrow> string \<Rightarrow> 'a rt" where
  "reject r requested reason rt =
     (let i = int_id (rec_intent r)
      in (rt\<lparr>rt_lifecycle := note_entry i (''rejected_report:'' @ state_value requested @ '':'' @ reason) (rt_lifecycle rt)\<rparr>,
          Inl (RtInvalid i (rec_state r) requested)))"

definition unlock :: "intent_record \<Rightarrow> runtime \<Rightarrow> runtime" where
  "unlock r rt = rt\<lparr>rt_active := release_lock (rec_intent r) (rt_active rt)\<rparr>"

definition withhold :: "string \<Rightarrow> string \<Rightarrow> intent_record rt" where
  "withhold i reason rt =
     bind_rt (move i WITHHELD None reason None)
       (\<lambda>r rt. (tally (\<lambda>m. m\<lparr>m_withheld := m_withheld m + 1\<rparr>) rt, Inr r))
       (modify_record i (\<lambda>r. r\<lparr>rec_release_decision := Some WITHHOLD\<rparr>) rt)"

definition record_commit :: "string \<Rightarrow> bool \<Rightarrow> string \<Rightarrow> nat option \<Rightarrow> intent_record rt" where
  "record_commit i committed reason seq =
     bind_rt (the_record i) (\<lambda>r rt.
       let target = (if committed then COMMITTED else WITHHELD)
       in if rec_state r = target \<and> (committed \<or> rec_release_decision r = Some WITHHOLD) then (rt, Inr r)
          else if rec_state r \<noteq> AUTHORIZED then reject r target reason rt
          else let rt1 = unlock r rt
               in if committed
                  then bind_rt (move i COMMITTED None reason None)
                         (\<lambda>r rt. (tally (\<lambda>m. m\<lparr>m_committed := m_committed m + 1\<rparr>) rt, Inr r))
                         (modify_record i (\<lambda>r. r\<lparr>rec_commit_seq := seq\<rparr>) rt1)
                  else withhold i reason rt1)"

definition gate_verdict :: "intent_record \<Rightarrow> bool \<Rightarrow> string \<Rightarrow> int option \<Rightarrow> int option \<Rightarrow> bool \<times> string" where
  "gate_verdict r released reason context_version rs_version =
     (if rec_state r = AUTHORIZED \<and> released then
        (case rs_version of
           Some v \<Rightarrow> if v \<noteq> rec_read_set_version r then (False, ''read_set_version_changed_at_gate'') else (released, reason)
         | None \<Rightarrow>
             (case context_version of
                Some v \<Rightarrow> if v \<noteq> rec_context_version r then (False, ''context_version_changed_at_publish'') else (released, reason)
              | None \<Rightarrow> (released, reason)))
      else (released, reason))"

definition report_release :: "string \<Rightarrow> bool \<Rightarrow> string \<Rightarrow> int option \<Rightarrow> int option \<Rightarrow> intent_record rt" where
  "report_release i released0 reason0 context_version rs_version =
     bind_rt (the_record i) (\<lambda>r rt.
       let wanted = (if released0 then RELEASE else WITHHOLD);
           requested = (if released0 then RELEASED else WITHHELD)
       in if \<not> released0 \<and> rec_state r = REVOKED then (rt, Inr r)
          else if rec_release_decision r \<noteq> None then
            (if rec_release_decision r = Some wanted then (rt, Inr r) else reject r requested reason0 rt)
          else if rec_state r \<notin> {AUTHORIZED, COMMITTED} then reject r requested reason0 rt
          else
            (case gate_verdict r released0 reason0 context_version rs_version of (released, reason) \<Rightarrow>
               let rt1 = unlock r rt
               in if \<not> released then withhold i reason rt1
                  else bind_rt (move i RELEASED None reason None)
                         (\<lambda>r rt. (tally (\<lambda>m. m\<lparr>m_released := m_released m + 1\<rparr>)
                                   (rt\<lparr>rt_callbacks := rt_callbacks rt @ [rec_intent r]\<rparr>), Inr r))
                         (modify_record i (\<lambda>r. r\<lparr>rec_release_decision := Some RELEASE\<rparr>) rt1)))"

definition effect_target :: "effect_status \<Rightarrow> intent_state" where
  "effect_target status =
     (case status of EffConfirmed \<Rightarrow> EFFECT_CONFIRMED | EffFailed \<Rightarrow> FAILED | EffUnknown \<Rightarrow> UNKNOWN_EFFECT)"

definition count_effect :: "effect_status \<Rightarrow> metrics \<Rightarrow> metrics" where
  "count_effect status m =
     (case status of
        EffConfirmed \<Rightarrow> m\<lparr>m_effect_confirmed := m_effect_confirmed m + 1\<rparr>
      | EffFailed \<Rightarrow> m\<lparr>m_effect_failed := m_effect_failed m + 1\<rparr>
      | EffUnknown \<Rightarrow> m\<lparr>m_effect_unknown := m_effect_unknown m + 1\<rparr>)"

definition report_effect :: "string \<Rightarrow> effect_status \<Rightarrow> string \<Rightarrow> intent_record rt" where
  "report_effect i status detail =
     bind_rt (the_record i) (\<lambda>r rt.
       let target = effect_target status
       in if rec_state r = target then (rt, Inr r)
          else if target \<notin> set (allowed (rec_state r)) then reject r target detail rt
          else bind_rt (move i target None (if detail \<noteq> [] then detail else effect_value status) None)
                 (\<lambda>r rt. (tally (count_effect status) rt, Inr r))
                 (modify_record i (\<lambda>r. r\<lparr>rec_effect_status := Some status, rec_effect_detail := detail\<rparr>) rt))"

definition supervisory_revoke :: "string \<Rightarrow> string \<Rightarrow> intent_record rt" where
  "supervisory_revoke i reason =
     bind_rt (the_record i) (\<lambda>_.
       bind_rt (move i REVOKED (Some REVOKE) reason None) (\<lambda>r rt. (unlock r rt, Inr r)))"

section \<open>Metrics\<close>

record metrics_report =
  mr_counters :: metrics
  mr_p50_ms :: rat
  mr_p99_ms :: rat
  mr_revoke_fraction :: rat

definition get_metrics :: "runtime \<Rightarrow> metrics_report" where
  "get_metrics rt =
     (let m = rt_metrics rt; decided = m_authorized m + m_degraded m + m_revoked m
      in \<lparr>mr_counters = m, mr_p50_ms = percentile (m_latencies m) (1 / 2), mr_p99_ms = percentile (m_latencies m) (99 / 100),
          mr_revoke_fraction = (if decided \<noteq> 0 then of_nat (m_revoked m) / of_nat decided else 0)\<rparr>)"

end
