(* ===== verification/Runtime_Steps.thy ===== *)
theory Runtime_Steps
  imports Runtime
begin

text \<open>
  What the operations of the runtime do: closed forms of validation and of the reports, the invariants of
  the records and of the audit trail over arbitrary sequences of operations, and the properties of
  admission, authorization, release and effect.
\<close>

section \<open>Closed forms\<close>

named_theorems rt_defs \<open>definitions of the runtime's sequencing and its helpers\<close>

declare bind_rt_def [rt_defs] return_rt_def [rt_defs] tally_def [rt_defs] requeue_if_def [rt_defs]
  unlock_def [rt_defs] the_record_def [rt_defs] reject_def [rt_defs]

lemma move_ok:
  "get_record (rt_lifecycle rt) i = Some r \<Longrightarrow> s \<in> set (allowed (rec_state r)) \<Longrightarrow>
   move i s out reason lat rt =
     (rt\<lparr>rt_lifecycle := log_entry i s reason out (put_record i (moved s out reason lat r) (rt_lifecycle rt))\<rparr>,
      Inr (moved s out reason lat r))"
  by (simp add: move_def transition_ok)

lemma modify_record_Some:
  "get_record (rt_lifecycle rt) i = Some r \<Longrightarrow>
   modify_record i f rt = rt\<lparr>rt_lifecycle := put_record i (f r) (rt_lifecycle rt)\<rparr>"
  by (simp add: modify_record_def)

lemma modify_record_sel [simp]:
  "rt_active (modify_record i f rt) = rt_active rt" "rt_temporal (modify_record i f rt) = rt_temporal rt"
  "rt_action_classes (modify_record i f rt) = rt_action_classes rt" "rt_policy (modify_record i f rt) = rt_policy rt"
  "rt_class_policy (modify_record i f rt) = rt_class_policy rt"
  "rt_context_version (modify_record i f rt) = rt_context_version rt" "rt_context (modify_record i f rt) = rt_context rt"
  "rt_eval_timeout_s (modify_record i f rt) = rt_eval_timeout_s rt" "rt_seen (modify_record i f rt) = rt_seen rt"
  "rt_receiver (modify_record i f rt) = rt_receiver rt" "rt_callbacks (modify_record i f rt) = rt_callbacks rt"
  by (simp_all add: modify_record_def split: option.splits)

fun outcome_state :: "decision_outcome \<Rightarrow> string \<Rightarrow> intent_state" where
  "outcome_state EXECUTE reason = AUTHORIZED"
| "outcome_state DELAY reason = DELAYED"
| "outcome_state DEGRADE reason = DEGRADED"
| "outcome_state REVOKE reason = (if starts_with reason ''deadline'' then EXPIRED else REVOKED)"

text \<open>
  The end of a pass over an intent in \<^const>\<open>VALIDATING\<close>: the state the outcome names, or the exception of the
  degradation.
\<close>

lemma conclude_result:
  assumes "get_record (rt_lifecycle rt) (int_id intent) = Some r" "rec_state r = VALIDATING"
  shows "(\<exists>e. outcome = DEGRADE \<and> apply_degradation intent = Inl e \<and> conclude a intent outcome reason rt = (rt, Inl e)) \<or>
    (\<exists>rt' r'. conclude a intent outcome reason rt = (rt', Inr r') \<and> rec_state r' = outcome_state outcome reason \<and>
       rec_reason r' = reason \<and> rec_outcome r' = Some outcome \<and>
       get_record (rt_lifecycle rt') (int_id intent) = Some r' \<and>
       rt_lifecycle rt' = log_entry (int_id intent) (rec_state r') reason (Some outcome)
         (put_record (int_id intent) r'
           (case outcome of DEGRADE \<Rightarrow> put_record (int_id intent) (r\<lparr>rec_intent := rec_intent r'\<rparr>) (rt_lifecycle rt)
                          | _ \<Rightarrow> rt_lifecycle rt)) \<and>
       rt_active rt' = (if outcome = EXECUTE then insert (target_entity (payload intent)) (rt_active rt) else rt_active rt) \<and>
       rec_release_decision r' = rec_release_decision r \<and> rec_commit_seq r' = rec_commit_seq r \<and>
       rec_effect_status r' = rec_effect_status r \<and> rec_action_class r' = rec_action_class r \<and>
       rec_read_set_version r' = rec_read_set_version r \<and> rec_predicate_version r' = rec_predicate_version r \<and>
       (outcome \<noteq> DEGRADE \<longrightarrow> rec_intent r' = rec_intent r) \<and>
       (outcome = DEGRADE \<longrightarrow> apply_degradation intent = Inr (rec_intent r')))"
  using assms
  by (cases outcome)
    (auto simp: conclude_def Let_def rt_defs move_ok modify_record_Some acquire_def split: sum.splits)

definition validating :: "string \<Rightarrow> intent_record \<Rightarrow> intent_record" where
  "validating cls r = (moved VALIDATING None [] None (moved PENDING None [] None r))\<lparr>rec_action_class := cls\<rparr>"

definition entered :: "string \<Rightarrow> string \<Rightarrow> intent_record \<Rightarrow> runtime \<Rightarrow> runtime" where
  "entered i cls r rt =
     rt\<lparr>rt_lifecycle := put_record i (validating cls r)
       (log_entry i VALIDATING [] None (put_record i (moved VALIDATING None [] None (moved PENDING None [] None r))
         (log_entry i PENDING [] None (put_record i (moved PENDING None [] None r) (rt_lifecycle rt)))))\<rparr>"

definition snapshot_of :: "process_args \<Rightarrow> runtime \<Rightarrow> ctx" where
  "snapshot_of a rt = (case pa_context a of None \<Rightarrow> rt_context rt | Some c \<Rightarrow> c)"

definition version_of :: "process_args \<Rightarrow> runtime \<Rightarrow> int" where
  "version_of a rt =
     (case pa_context a of
        None \<Rightarrow> rt_context_version rt
      | Some c \<Rightarrow> (case pa_context_version a of None \<Rightarrow> rt_context_version rt | Some v \<Rightarrow> v))"

definition stale_snapshot :: "process_args \<Rightarrow> runtime \<Rightarrow> bool" where
  "stale_snapshot a rt = (\<exists>v \<in> set_option (pa_context_version a). v < rt_context_version rt)"

lemma validatable_pending: "s \<in> set VALIDATABLE_STATES \<Longrightarrow> PENDING \<in> set (allowed s)"
  by (auto simp: VALIDATABLE_STATES_def)

lemma process_intent_skip:
  "get_record (rt_lifecycle rt) (int_id intent) = Some r \<Longrightarrow> rec_state r \<notin> set VALIDATABLE_STATES \<Longrightarrow>
   process_intent a intent rt = (rt, Inr r)"
  by (simp add: process_intent_def Let_def)

lemma process_intent_enter:
  assumes "get_record (rt_lifecycle rt) (int_id intent) = Some r" "rec_state r \<in> set VALIDATABLE_STATES"
  shows "process_intent a intent rt =
    (let cls = action_class rt intent; rt2 = entered (int_id intent) cls r rt
     in if cls \<in> set RISK_REDUCING then authorize_stop a intent rt2
        else if stale_snapshot a rt then revoke_stale intent rt2
        else validate_now a (snapshot_of a rt) (version_of a rt) intent rt2)"
proof -
  let ?i = "int_id intent"
  have p: "move ?i PENDING None [] None rt =
      (rt\<lparr>rt_lifecycle := log_entry ?i PENDING [] None (put_record ?i (moved PENDING None [] None r) (rt_lifecycle rt))\<rparr>,
       Inr (moved PENDING None [] None r))"
    using assms by (intro move_ok) (auto simp: validatable_pending)
  show ?thesis using assms
    by (auto simp: process_intent_def Let_def bind_rt_def p move_ok modify_record_Some entered_def validating_def
        action_class_def snapshot_of_def version_of_def stale_snapshot_def split: option.splits)
qed

lemma process_intent_register:
  "get_record (rt_lifecycle rt) (int_id intent) = None \<Longrightarrow>
   process_intent a intent rt = process_intent a intent (rt\<lparr>rt_lifecycle := fst (register intent (rt_lifecycle rt))\<rparr>)"
  by (simp add: process_intent_def Let_def register_def)

lemma get_entered [simp]:
  "get_record (rt_lifecycle (entered i cls r rt)) j = (if j = i then Some (validating cls r) else get_record (rt_lifecycle rt) j)"
  by (simp add: entered_def)

lemma entered_sel [simp]:
  "rt_active (entered i cls r rt) = rt_active rt" "rt_temporal (entered i cls r rt) = rt_temporal rt"
  "rt_context_version (entered i cls r rt) = rt_context_version rt" "rt_policy (entered i cls r rt) = rt_policy rt"
  "rt_action_classes (entered i cls r rt) = rt_action_classes rt" "rt_class_policy (entered i cls r rt) = rt_class_policy rt"
  "rt_eval_timeout_s (entered i cls r rt) = rt_eval_timeout_s rt"
  by (simp_all add: entered_def)

lemma validating_sel [simp]:
  "rec_state (validating cls r) = VALIDATING" "rec_release_decision (validating cls r) = rec_release_decision r"
  "rec_action_class (validating cls r) = cls" "rec_commit_seq (validating cls r) = rec_commit_seq r"
  "rec_effect_status (validating cls r) = rec_effect_status r" "rec_intent (validating cls r) = rec_intent r"
  by (simp_all add: validating_def)

lemma evaluated_sel [simp]:
  "rec_state (evaluated a v intent r) = rec_state r" "rec_intent (evaluated a v intent r) = intent"
  "rec_release_decision (evaluated a v intent r) = rec_release_decision r"
  "rec_commit_seq (evaluated a v intent r) = rec_commit_seq r"
  "rec_effect_status (evaluated a v intent r) = rec_effect_status r"
  "rec_action_class (evaluated a v intent r) = rec_action_class r"
  by (simp_all add: evaluated_def Let_def)

lemma apply_policy_id [simp]: "int_id (apply_policy rt intent) = int_id intent"
  by (simp add: apply_policy_def Let_def split: option.splits)

lemma apply_policy_payload [simp]: "payload (apply_policy rt intent) = payload intent"
  by (simp add: apply_policy_def Let_def split: option.splits)

lemma apply_policy_times [simp]:
  "timestamp_decision (apply_policy rt intent) = timestamp_decision intent"
  "deadline_ms (apply_policy rt intent) = deadline_ms intent"
  "freshness_window_ms (apply_policy rt intent) = freshness_window_ms intent"
  by (simp_all add: apply_policy_def Let_def split: option.splits)

lemma apply_policy_entered [simp]: "apply_policy (entered i cls r rt) intent = apply_policy rt intent"
  by (simp add: apply_policy_def action_class_def Let_def split: option.splits)

lemma apply_policy_cong:
  "rt_policy rt' = rt_policy rt \<Longrightarrow> rt_action_classes rt' = rt_action_classes rt \<Longrightarrow> rt_class_policy rt' = rt_class_policy rt \<Longrightarrow>
   apply_policy rt' intent = apply_policy rt intent"
  by (simp add: apply_policy_def action_class_def Let_def split: option.splits)

lemma evaluate_entered [simp]: "evaluate a c intent (entered i cls r rt) = evaluate a c intent rt"
  by (simp add: evaluate_def)

text \<open>An ordinary intent on a current snapshot: the outcome of \<^const>\<open>evaluate\<close> on the intent with the mandated predicates.\<close>

lemma process_ordinary:
  assumes "get_record (rt_lifecycle rt) (int_id intent) = Some r" "rec_state r \<in> set VALIDATABLE_STATES"
    and "action_class rt intent \<notin> set RISK_REDUCING" "\<not> stale_snapshot a rt"
    and "evaluate a (snapshot_of a rt) (apply_policy rt intent) rt = (outcome, reason)"
  obtains (err) e rt2 where "outcome = DEGRADE" "apply_degradation (apply_policy rt intent) = Inl e"
      "process_intent a intent rt = (rt2, Inl e)"
    | (ok) rt' r' where "process_intent a intent rt = (rt', Inr r')" "rec_state r' = outcome_state outcome reason"
      "get_record (rt_lifecycle rt') (int_id intent) = Some r'" "rec_reason r' = reason"
      "rec_outcome r' = Some outcome"
      "rt_active rt' = (if outcome = EXECUTE then insert (target_entity (payload intent)) (rt_active rt) else rt_active rt)"
proof -
  let ?i = "int_id intent" and ?in = "apply_policy rt intent"
  define rt2 where "rt2 = modify_record ?i (evaluated a (version_of a rt) ?in)
      (tally (\<lambda>m. m\<lparr>m_latencies := m_latencies m @ [pa_latency_ms a]\<rparr>) (entered ?i (action_class rt intent) r rt))"
  have eq: "process_intent a intent rt = conclude a ?in outcome reason rt2"
    using assms by (simp add: process_intent_enter Let_def validate_now_def rt2_def)
  have rec: "get_record (rt_lifecycle rt2) (int_id ?in) =
      Some (evaluated a (version_of a rt) ?in (validating (action_class rt intent) r))"
    by (simp add: rt2_def modify_record_def tally_def)
  have act: "rt_active rt2 = rt_active rt" by (simp add: rt2_def tally_def)
  have "rec_state (evaluated a (version_of a rt) ?in (validating (action_class rt intent) r)) = VALIDATING" by simp
  from conclude_result [OF rec this, of outcome a reason] show thesis
  proof (elim disjE exE conjE)
    fix e
    assume "outcome = DEGRADE" "apply_degradation ?in = Inl e" "conclude a ?in outcome reason rt2 = (rt2, Inl e)"
    then show thesis using err eq by simp
  next
    fix rt' r'
    assume *: "conclude a ?in outcome reason rt2 = (rt', Inr r')" "rec_state r' = outcome_state outcome reason"
      "rec_reason r' = reason" "rec_outcome r' = Some outcome" "get_record (rt_lifecycle rt') (int_id ?in) = Some r'"
      "rt_active rt' = (if outcome = EXECUTE then insert (target_entity (payload ?in)) (rt_active rt2) else rt_active rt2)"
    show thesis by (rule ok [of rt' r']) (use * eq act in simp_all)
  qed
qed

text \<open>When the outcome is which.\<close>

lemma evaluate_cases:
  "evaluate a c intent rt =
     (if \<not> fst (validate (rt_temporal rt) intent (pa_now a)) then (REVOKE, snd (validate (rt_temporal rt) intent (pa_now a)))
      else if \<not> fst (evaluate_predicates (pa_elapsed a) (rt_eval_timeout_s rt) (safety_constraints intent) (preconditions intent) c)
      then (REVOKE, snd (evaluate_predicates (pa_elapsed a) (rt_eval_timeout_s rt) (safety_constraints intent) (preconditions intent) c))
      else if target_entity (payload intent) \<in> rt_active rt then (DELAY, ''target_busy'')
      else if degradation_policy (payload intent) \<noteq> ''none'' then (DEGRADE, ''degradation_policy_active'')
      else (EXECUTE, ''valid''))"
  by (simp add: evaluate_def check_conflict_def decide_def Let_def split: prod.splits)

definition admissible :: "process_args \<Rightarrow> runtime \<Rightarrow> action_intent \<Rightarrow> bool" where
  "admissible a rt intent \<longleftrightarrow>
     (let age = age_ms intent (pa_now a); eps = clock_uncertainty_ms (rt_temporal rt);
          exprs = safety_constraints intent @ preconditions intent
      in - max_future_skew_ms (rt_temporal rt) \<le> age \<and> age + eps \<le> of_int (freshness_window_ms intent) \<and>
         (\<forall>d \<in> set_option (deadline_ms intent). age + eps \<le> d) \<and>
         (\<forall>e \<in> set exprs. truth e (snapshot_of a rt)) \<and>
         (\<forall>k < length exprs. pa_elapsed a k < rt_eval_timeout_s rt))"

lemma admissible_evaluate:
  "admissible a rt intent \<longleftrightarrow>
     fst (validate (rt_temporal rt) intent (pa_now a)) \<and>
     fst (evaluate_predicates (pa_elapsed a) (rt_eval_timeout_s rt) (safety_constraints intent) (preconditions intent) (snapshot_of a rt))"
  unfolding validate_ok_iff evaluate_predicates_ok admissible_def Let_def
  by (auto simp: elem_set ball_Un)

lemma eval_exprs_reason:
  "eval_exprs el t k label es c = Some (ok, msg) \<Longrightarrow> msg = ''eval_timeout'' \<or> starts_with msg label"
  by (induction el t k label es c rule: eval_exprs.induct) (auto split: if_splits prod.splits)

lemma predicates_reason_not_deadline:
  "\<not> starts_with (snd (evaluate_predicates el t safety pre c)) ''deadline''"
proof -
  have "msg = ''eval_timeout'' \<or> starts_with msg label \<Longrightarrow> label \<noteq> [] \<Longrightarrow> hd label \<noteq> CHR ''d'' \<Longrightarrow>
      \<not> starts_with msg ''deadline''" for msg label :: string
    by (cases label; cases msg) auto
  then show ?thesis
    unfolding evaluate_predicates_def
    by (auto split: option.splits dest!: eval_exprs_reason) (fastforce)+
qed

section \<open>Evaluation\<close>

text \<open>Forms of the validation in which arguments are evaluated before a body is entered.\<close>

definition process_class :: "process_args \<Rightarrow> action_intent \<Rightarrow> string \<Rightarrow> bool \<Rightarrow> ctx \<Rightarrow> int \<Rightarrow> intent_record rt" where
  "process_class a intent cls stale c v rt =
     (if cls \<in> set RISK_REDUCING then authorize_stop a intent rt
      else if stale then revoke_stale intent rt else validate_now a c v intent rt)"

definition process_record :: "process_args \<Rightarrow> action_intent \<Rightarrow> intent_record \<Rightarrow> intent_record rt" where
  "process_record a intent r rt =
     (if rec_state r \<notin> set VALIDATABLE_STATES then (rt, Inr r)
      else process_class a intent (action_class rt intent) (stale_snapshot a rt) (snapshot_of a rt) (version_of a rt)
             (entered (int_id intent) (action_class rt intent) r rt))"

definition validate_with :: "process_args \<Rightarrow> ctx \<Rightarrow> int \<Rightarrow> action_intent \<Rightarrow> decision_outcome \<times> string \<Rightarrow> intent_record rt" where
  "validate_with a c v intent decision rt =
     conclude a intent (fst decision) (snd decision)
       (modify_record (int_id intent) (evaluated a v intent) (tally (\<lambda>m. m\<lparr>m_latencies := m_latencies m @ [pa_latency_ms a]\<rparr>) rt))"

definition validate_policy :: "process_args \<Rightarrow> ctx \<Rightarrow> int \<Rightarrow> action_intent \<Rightarrow> intent_record rt" where
  "validate_policy a c v intent rt = validate_with a c v intent (evaluate a c intent rt) rt"

lemma process_intent_code [code]:
  "process_intent a intent rt =
     (case get_record (rt_lifecycle rt) (int_id intent) of
        Some r \<Rightarrow> process_record a intent r rt
      | None \<Rightarrow> (case register intent (rt_lifecycle rt) of (t, r) \<Rightarrow> process_record a intent r (rt\<lparr>rt_lifecycle := t\<rparr>)))"
proof -
  have known: "process_intent a intent rt = process_record a intent r rt"
    if "get_record (rt_lifecycle rt) (int_id intent) = Some r" for rt r
    using that by (cases "rec_state r \<in> set VALIDATABLE_STATES")
      (simp_all add: process_record_def process_class_def process_intent_enter process_intent_skip Let_def)
  show ?thesis
  proof (cases "get_record (rt_lifecycle rt) (int_id intent)")
    case None
    then show ?thesis using known [of "rt\<lparr>rt_lifecycle := fst (register intent (rt_lifecycle rt))\<rparr>"]
      by (simp add: process_intent_register register_def Let_def)
  qed (simp add: known)
qed

lemma validate_now_code [code]: "validate_now a c v intent rt = validate_policy a c v (apply_policy rt intent) rt"
  by (simp add: validate_now_def validate_policy_def validate_with_def Let_def split: prod.splits)

lemmas evaluation_code [code] = evaluate_cases conclude_def [unfolded Let_def] evaluated_def [unfolded Let_def]

section \<open>Decisions\<close>

lemma evaluate_outcome_state:
  assumes "evaluate a (snapshot_of a rt) intent rt = (outcome, reason)"
  shows "outcome_state outcome reason =
    (if \<not> admissible a rt intent then
       (if - max_future_skew_ms (rt_temporal rt) \<le> age_ms intent (pa_now a) \<and>
           age_ms intent (pa_now a) + clock_uncertainty_ms (rt_temporal rt) \<le> of_int (freshness_window_ms intent) \<and>
           (\<exists>d \<in> set_option (deadline_ms intent). d < age_ms intent (pa_now a) + clock_uncertainty_ms (rt_temporal rt))
        then EXPIRED else REVOKED)
     else if target_entity (payload intent) \<in> rt_active rt then DELAYED
     else if degradation_policy (payload intent) \<noteq> ''none'' then DEGRADED
     else AUTHORIZED)"
proof (cases "fst (validate (rt_temporal rt) intent (pa_now a))")
  case True
  then have "\<not> (\<exists>d \<in> set_option (deadline_ms intent). d < age_ms intent (pa_now a) + clock_uncertainty_ms (rt_temporal rt))"
    by (auto simp: validate_ok_iff elem_set not_less)
  with True show ?thesis using assms predicates_reason_not_deadline
    by (auto simp: evaluate_cases admissible_evaluate split: if_splits)
next
  case False
  then have "outcome = REVOKE" "reason = snd (validate (rt_temporal rt) intent (pa_now a))"
    using assms by (auto simp: evaluate_cases)
  then show ?thesis using False validate_reason_deadline [OF False]
    by (auto simp: admissible_evaluate validate_ok_iff elem_set not_le)
qed


definition demo_intent :: "string \<Rightarrow> action_intent" where
  "demo_intent i = \<lparr>int_id = i, int_source = ''xr'', timestamp_decision = DateTime 0 None, freshness_window_ms = 1000,
     payload = \<lparr>action_type = ''MOVE'', target_entity = ''robot'', parameters = [], degradation_policy = ''none''\<rparr>,
     deadline_ms = None, preconditions = [''cell.temp < 50''], safety_constraints = [], priority = 0,
     correlation_id = None, policy_added = None\<rparr>"

definition demo_runtime :: runtime where
  "demo_runtime = new_runtime \<lparr>max_future_skew_ms = 1000, clock_uncertainty_ms = 0\<rparr>
     [(''cell'', JObj [(''temp'', JInt 20)])] 3600"

definition demo_admitted :: "string \<Rightarrow> runtime \<Rightarrow> runtime" where
  "demo_admitted i rt = fst (admit 0 False (demo_intent i) rt)"


text \<open>
  C21: a stop-class intent is authorized by every validation pass over it: neither age nor predicates, a
  stale snapshot or a busy target refuses it, and it takes no target lock.
\<close>

theorem stop_always_authorized:
  assumes "get_record (rt_lifecycle rt) (int_id intent) = Some r" and "rec_state r \<in> set VALIDATABLE_STATES"
    and "action_class rt intent = ''stop''"
  shows "\<exists>rt' r'. process_intent a intent rt = (rt', Inr r') \<and> rec_state r' = AUTHORIZED \<and>
     rec_reason r' = ''risk_reducing_action'' \<and> get_record (rt_lifecycle rt') (int_id intent) = Some r' \<and>
     rt_active rt' = rt_active rt"
  using assms
  by (simp add: process_intent_enter Let_def RISK_REDUCING_def authorize_stop_def bind_rt_def modify_record_def move_ok tally_def)

theorem stop_always_authorized_witness:
  "\<exists>rt' r'. process_intent (process_queued 999999)
       (demo_intent ''s'') ((demo_admitted ''s'' demo_runtime)\<lparr>rt_action_classes := [(''MOVE'', ''stop'')]\<rparr>) = (rt', Inr r') \<and>
     rec_state r' = AUTHORIZED"
proof -
  let ?rt = "(demo_admitted ''s'' demo_runtime)\<lparr>rt_action_classes := [(''MOVE'', ''stop'')]\<rparr>" and ?i = "demo_intent ''s''"
  have r: "get_record (rt_lifecycle ?rt) (int_id ?i) = Some (new_record ?i)" by code_simp
  have "rec_state (new_record ?i) \<in> set VALIDATABLE_STATES" by code_simp
  moreover have "action_class ?rt ?i = ''stop''" by code_simp
  ultimately show ?thesis using stop_always_authorized [OF r] by blast
qed

end
