(* ===== verification/Runtime_Invariants.thy ===== *)
theory Runtime_Invariants
  imports Runtime_Steps
begin

text \<open>
  Invariants of the runtime over arbitrary sequences of its operations: every record agrees with its
  state (a release decision exactly in the released and withheld states, an effect exactly in the effect
  states), the audit trail shows the current state of every intent, decisions and effects are final, and
  admission is idempotent within the retention window. The section on defects gives runs in which the
  runtime does not do what its documents promise.
\<close>

section \<open>Operations as events\<close>

datatype rt_op =
    OpAdmit rat bool action_intent
  | OpProcess process_args action_intent
  | OpNext rat
  | OpCommit string bool string "nat option"
  | OpRelease string bool string "int option" "int option"
  | OpEffect string effect_status string
  | OpRevoke string string
  | OpInstall ctx int bool
  | OpPolicy ctx

fun rt_exec :: "rt_op \<Rightarrow> runtime \<Rightarrow> runtime" where
  "rt_exec (OpAdmit mnow enqueue intent) rt = fst (admit mnow enqueue intent rt)"
| "rt_exec (OpProcess a intent) rt = fst (process_intent a intent rt)"
| "rt_exec (OpNext now) rt = fst (process_next now rt)"
| "rt_exec (OpCommit i committed reason seq) rt = fst (record_commit i committed reason seq rt)"
| "rt_exec (OpRelease i released reason cv rv) rt = fst (report_release i released reason cv rv rt)"
| "rt_exec (OpEffect i status detail) rt = fst (report_effect i status detail rt)"
| "rt_exec (OpRevoke i reason) rt = fst (supervisory_revoke i reason rt)"
| "rt_exec (OpInstall c v replace) rt = fst (install_context_snapshot c v replace rt)"
| "rt_exec (OpPolicy policy) rt = fst (set_policy policy rt)"

section \<open>Records agree with their state\<close>

definition record_ok :: "string \<Rightarrow> intent_record \<Rightarrow> bool" where
  "record_ok i r \<longleftrightarrow>
     int_id (rec_intent r) = i \<and>
     (rec_release_decision r = Some RELEASE \<longleftrightarrow> rec_state r \<in> set RELEASED_STATES) \<and>
     (rec_release_decision r = Some WITHHOLD \<longleftrightarrow> rec_state r = WITHHELD) \<and>
     (\<forall>s. rec_effect_status r = Some s \<longleftrightarrow> rec_state r = effect_target s)"

definition tracker_ok :: "tracker \<Rightarrow> bool" where
  "tracker_ok t \<longleftrightarrow> (\<forall>i r. get_record t i = Some r \<longrightarrow> record_ok i r \<and> last_audit t i = Some (rec_state r))"

text \<open>Before any release: nothing decided, no effect.\<close>

definition undecided_states :: "intent_state list" where
  "undecided_states = [CREATED, PENDING, VALIDATING, AUTHORIZED, DELAYED, DEGRADED, REVOKED, EXPIRED, COMMITTED]"

lemma effect_target_cases: "effect_target s \<in> {EFFECT_CONFIRMED, FAILED, UNKNOWN_EFFECT}"
  by (cases s) (simp_all add: effect_target_def)

lemma effect_target_inject [simp]: "effect_target s = effect_target s' \<longleftrightarrow> s = s'"
  by (cases s; cases s') (simp_all add: effect_target_def)

lemma record_ok_undecided:
  assumes "rec_state r \<in> set undecided_states"
  shows "record_ok i r \<longleftrightarrow> int_id (rec_intent r) = i \<and> rec_release_decision r = None \<and> rec_effect_status r = None"
proof -
  have "rec_state r \<noteq> effect_target s" for s
    using assms effect_target_cases [of s] by (auto simp: undecided_states_def)
  then show ?thesis using assms
    by (cases "rec_release_decision r"; cases "the (rec_release_decision r)")
      (auto simp: record_ok_def undecided_states_def RELEASED_STATES_def)
qed

text \<open>The one way a tracker changes: one record is replaced and its state logged last.\<close>

definition replaces :: "string \<Rightarrow> intent_record \<Rightarrow> tracker \<Rightarrow> tracker \<Rightarrow> bool" where
  "replaces i r' t t' \<longleftrightarrow>
     (\<forall>j. get_record t' j = (if j = i then Some r' else get_record t j)) \<and>
     (\<forall>j. last_audit t' j = (if j = i then Some (rec_state r') else last_audit t j))"

lemma tracker_ok_replaces: "tracker_ok t \<Longrightarrow> replaces i r' t t' \<Longrightarrow> record_ok i r' \<Longrightarrow> tracker_ok t'"
  by (auto simp: tracker_ok_def replaces_def)

lemma tracker_ok_record: "tracker_ok t \<Longrightarrow> get_record t i = Some r \<Longrightarrow> record_ok i r \<and> last_audit t i = Some (rec_state r)"
  by (simp add: tracker_ok_def)

lemma tracker_ok_note: "tracker_ok t \<Longrightarrow> tracker_ok (note_entry i reason t)"
  by (auto simp: tracker_ok_def note_entry_def split: option.splits)

lemma tracker_ok_forget: "tracker_ok t \<Longrightarrow> tracker_ok (forget i t)"
  by (auto simp: tracker_ok_def)

lemma tracker_ok_register: "tracker_ok t \<Longrightarrow> tracker_ok (fst (register intent t))"
  by (rule tracker_ok_replaces [of t "int_id intent" "new_record intent"])
    (auto simp: replaces_def register_def Let_def record_ok_undecided undecided_states_def new_record_def)

lemma apply_degradation_id: "apply_degradation intent = Inr intent' \<Longrightarrow> int_id intent' = int_id intent"
  by (auto simp: apply_degradation_def Let_def split: if_splits option.splits)

section \<open>Validation\<close>

text \<open>
  Whatever a validation pass does, it replaces the record of its intent by one in a pre-release state and
  keeps release decision, commit position and effect.
\<close>

lemma validate_now_replaces:
  assumes "get_record (rt_lifecycle rt) (int_id intent) = Some r" "rec_state r = VALIDATING"
    and "last_audit (rt_lifecycle rt) (int_id intent) = Some VALIDATING"
  shows "\<exists>r'. replaces (int_id intent) r' (rt_lifecycle rt) (rt_lifecycle (fst (validate_now a c v intent rt))) \<and>
     rec_state r' \<in> {AUTHORIZED, DELAYED, DEGRADED, REVOKED, EXPIRED, VALIDATING} \<and>
     rec_release_decision r' = rec_release_decision r \<and> rec_effect_status r' = rec_effect_status r \<and>
     int_id (rec_intent r') = int_id intent"
proof -
  let ?in = "apply_policy rt intent"
  obtain outcome reason where ev: "evaluate a c ?in rt = (outcome, reason)" by fastforce
  define r1 where "r1 = evaluated a v ?in r"
  define rt1 where "rt1 = modify_record (int_id ?in) (evaluated a v ?in)
      (tally (\<lambda>m. m\<lparr>m_latencies := m_latencies m @ [pa_latency_ms a]\<rparr>) rt)"
  have eq: "validate_now a c v intent rt = conclude a ?in outcome reason rt1"
    by (simp add: validate_now_def Let_def ev rt1_def)
  have t1: "rt_lifecycle rt1 = put_record (int_id intent) r1 (rt_lifecycle rt)"
    using assms(1) by (simp add: rt1_def r1_def modify_record_def tally_def)
  have r1: "get_record (rt_lifecycle rt1) (int_id ?in) = Some r1" "rec_state r1 = VALIDATING"
    using assms(2) by (simp_all add: t1 r1_def)
  from conclude_result [OF r1, of outcome a reason] show ?thesis
  proof (elim disjE exE conjE)
    fix e
    assume e: "conclude a ?in outcome reason rt1 = (rt1, Inl e)"
    have "replaces (int_id intent) r1 (rt_lifecycle rt) (rt_lifecycle rt1)"
      by (simp add: replaces_def t1 r1(2) assms(3))
    moreover have "rec_release_decision r1 = rec_release_decision r" "rec_effect_status r1 = rec_effect_status r"
      "int_id (rec_intent r1) = int_id intent" by (simp_all add: r1_def)
    ultimately show ?thesis unfolding eq e using r1(2) by (intro exI [of _ r1]) simp
  next
    fix rt' r'
    assume *: "conclude a ?in outcome reason rt1 = (rt', Inr r')" "rec_state r' = outcome_state outcome reason"
      "rt_lifecycle rt' = log_entry (int_id ?in) (rec_state r') reason (Some outcome)
         (put_record (int_id ?in) r'
           (case outcome of DEGRADE \<Rightarrow> put_record (int_id ?in) (r1\<lparr>rec_intent := rec_intent r'\<rparr>) (rt_lifecycle rt1)
                          | _ \<Rightarrow> rt_lifecycle rt1))"
      "rec_release_decision r' = rec_release_decision r1" "rec_effect_status r' = rec_effect_status r1"
      "outcome \<noteq> DEGRADE \<longrightarrow> rec_intent r' = rec_intent r1" "outcome = DEGRADE \<longrightarrow> apply_degradation ?in = Inr (rec_intent r')"
    have id: "int_id (rec_intent r') = int_id intent"
    proof (cases "outcome = DEGRADE")
      case True
      then have "apply_degradation ?in = Inr (rec_intent r')" using *(7) by (rule rev_mp)
      from apply_degradation_id [OF this] show ?thesis by simp
    next
      case False
      then have "rec_intent r' = rec_intent r1" using *(6) by (rule rev_mp)
      then show ?thesis by (simp add: r1_def)
    qed
    have "rec_state r' \<in> {AUTHORIZED, DELAYED, DEGRADED, REVOKED, EXPIRED, VALIDATING}"
      using *(2) by (cases outcome) auto
    moreover have "replaces (int_id intent) r' (rt_lifecycle rt) (rt_lifecycle rt')"
      using *(3) by (cases outcome) (auto simp: replaces_def t1)
    moreover have "rec_release_decision r' = rec_release_decision r" "rec_effect_status r' = rec_effect_status r"
      using *(4,5) by (simp_all add: r1_def)
    ultimately show ?thesis unfolding eq *(1) using id by (intro exI [of _ r']) simp
  qed
qed

lemma process_intent_replaces:
  assumes "get_record (rt_lifecycle rt) (int_id intent) = Some r" "rec_state r \<in> set VALIDATABLE_STATES"
  shows "\<exists>r'. replaces (int_id intent) r' (rt_lifecycle rt) (rt_lifecycle (fst (process_intent a intent rt))) \<and>
     rec_state r' \<in> {AUTHORIZED, DELAYED, DEGRADED, REVOKED, EXPIRED, VALIDATING} \<and>
     rec_release_decision r' = rec_release_decision r \<and> rec_effect_status r' = rec_effect_status r \<and>
     (int_id (rec_intent r) = int_id intent \<longrightarrow> int_id (rec_intent r') = int_id intent)"
proof -
  let ?i = "int_id intent" and ?cls = "action_class rt intent"
  let ?rt = "entered ?i ?cls r rt"
  have ent: "\<And>j. last_audit (rt_lifecycle ?rt) j = (if j = ?i then Some VALIDATING else last_audit (rt_lifecycle rt) j)"
    by (simp add: entered_def)
  consider "?cls \<in> set RISK_REDUCING" | "?cls \<notin> set RISK_REDUCING" "stale_snapshot a rt"
    | "?cls \<notin> set RISK_REDUCING" "\<not> stale_snapshot a rt" by blast
  then show ?thesis
  proof cases
    case 1
    then have "process_intent a intent rt = authorize_stop a intent ?rt"
      using assms by (simp add: process_intent_enter Let_def)
    then show ?thesis
      by (auto simp: authorize_stop_def Let_def bind_rt_def modify_record_def move_ok tally_def replaces_def ent)
  next
    case 2
    then have "process_intent a intent rt = revoke_stale intent ?rt"
      using assms by (simp add: process_intent_enter Let_def)
    then show ?thesis
      by (auto simp: revoke_stale_def bind_rt_def modify_record_def move_ok tally_def replaces_def ent)
  next
    case 3
    then have eq: "process_intent a intent rt = validate_now a (snapshot_of a rt) (version_of a rt) intent ?rt"
      using assms by (simp add: process_intent_enter Let_def)
    have "get_record (rt_lifecycle ?rt) ?i = Some (validating ?cls r)" "rec_state (validating ?cls r) = VALIDATING"
      "last_audit (rt_lifecycle ?rt) ?i = Some VALIDATING" by (simp_all add: ent)
    from validate_now_replaces [OF this, of a "snapshot_of a rt" "version_of a rt"] show ?thesis
      unfolding eq by (force simp: replaces_def ent)
  qed
qed

lemma tracker_ok_process:
  assumes "tracker_ok (rt_lifecycle rt)"
  shows "tracker_ok (rt_lifecycle (fst (process_intent a intent rt)))"
proof -
  have known: "tracker_ok (rt_lifecycle (fst (process_intent a intent rt)))"
    if ok: "tracker_ok (rt_lifecycle rt)" and r: "get_record (rt_lifecycle rt) (int_id intent) = Some r" for rt r
  proof (cases "rec_state r \<in> set VALIDATABLE_STATES")
    case True
    from process_intent_replaces [OF r True, of a] obtain r' where
      r': "replaces (int_id intent) r' (rt_lifecycle rt) (rt_lifecycle (fst (process_intent a intent rt)))"
        "rec_state r' \<in> {AUTHORIZED, DELAYED, DEGRADED, REVOKED, EXPIRED, VALIDATING}"
        "rec_release_decision r' = rec_release_decision r" "rec_effect_status r' = rec_effect_status r"
        "int_id (rec_intent r) = int_id intent \<longrightarrow> int_id (rec_intent r') = int_id intent" by blast
    have rs: "rec_state r \<in> set undecided_states" "rec_state r' \<in> set undecided_states"
      using True r'(2) by (auto simp: VALIDATABLE_STATES_def undecided_states_def)
    have "record_ok (int_id intent) r" using tracker_ok_record [OF ok r] by simp
    then have "record_ok (int_id intent) r'" using r' by (simp add: record_ok_undecided rs)
    with ok r'(1) show ?thesis by (rule tracker_ok_replaces)
  qed (use ok r in \<open>simp add: process_intent_skip\<close>)
  show ?thesis
  proof (cases "get_record (rt_lifecycle rt) (int_id intent)")
    case None
    then show ?thesis
      using known [of "rt\<lparr>rt_lifecycle := fst (register intent (rt_lifecycle rt))\<rparr>" "new_record intent"] assms
      by (simp add: process_intent_register tracker_ok_register)
  qed (use known assms in blast)
qed

section \<open>Reports\<close>

text \<open>A report leaves the records alone (it may be noted in the trail) or moves one of them one step.\<close>

definition advances :: "string \<Rightarrow> tracker \<Rightarrow> tracker \<Rightarrow> bool" where
  "advances i t t' \<longleftrightarrow>
     (get_record t' = get_record t \<and> (tracker_ok t \<longrightarrow> tracker_ok t')) \<or>
     (\<exists>r r'. get_record t i = Some r \<and> replaces i r' t t' \<and> fsm_step (rec_state r) (rec_state r') \<and>
             (record_ok i r \<longrightarrow> record_ok i r'))"

lemma advances_refl [simp]: "advances i t t"
  by (simp add: advances_def)

lemma advances_note: "advances i t (note_entry j reason t)"
  by (auto simp: advances_def tracker_ok_note)

lemma advances_move:
  assumes "get_record t i = Some r" "s \<in> set (allowed (rec_state r))" "record_ok i r \<Longrightarrow> record_ok i (moved s out reason lat (f r))"
  shows "advances i t (log_entry i s reason out (put_record i (moved s out reason lat (f r)) (put_record i (f r) t)))"
  using assms unfolding advances_def
  by (intro disjI2 exI [of _ r] exI [of _ "moved s out reason lat (f r)"]) (auto simp: replaces_def fsm_step_iff)

lemma tracker_ok_advances:
  assumes "tracker_ok t" "advances i t t'"
  shows "tracker_ok t'"
  using assms(2) unfolding advances_def
proof (elim disjE exE conjE)
  fix r r'
  assume "get_record t i = Some r" "replaces i r' t t'" "record_ok i r \<longrightarrow> record_ok i r'"
  then show ?thesis using tracker_ok_record [OF assms(1)] tracker_ok_replaces [OF assms(1)] by blast
qed (use assms(1) in blast)

lemma modify_move:
  assumes "get_record (rt_lifecycle rt) i = Some r" "s \<in> set (allowed (rec_state r))" "rec_state (f r) = rec_state r"
  shows "move i s out reason lat (modify_record i f rt) =
     (rt\<lparr>rt_lifecycle := log_entry i s reason out (put_record i (moved s out reason lat (f r)) (put_record i (f r) (rt_lifecycle rt)))\<rparr>,
      Inr (moved s out reason lat (f r)))"
  using assms by (simp add: modify_record_Some move_ok)

lemma record_ok_moved:
  assumes "s \<in> set undecided_states" "rec_state r \<in> set undecided_states" "record_ok i r"
    and "rec_release_decision (f r) = rec_release_decision r" "rec_effect_status (f r) = rec_effect_status r"
    and "int_id (rec_intent (f r)) = int_id (rec_intent r)"
  shows "record_ok i (moved s out reason lat (f r))"
  using assms by (simp add: record_ok_undecided)

lemma record_ok_decided:
  "record_ok i r \<Longrightarrow> rec_state r \<in> set undecided_states \<Longrightarrow> record_ok i (moved WITHHELD None reason None (r\<lparr>rec_release_decision := Some WITHHOLD\<rparr>))"
  "record_ok i r \<Longrightarrow> rec_state r \<in> set undecided_states \<Longrightarrow> record_ok i (moved RELEASED None reason None (r\<lparr>rec_release_decision := Some RELEASE\<rparr>))"
  unfolding record_ok_undecided
  by (auto simp: record_ok_def RELEASED_STATES_def effect_target_def split: effect_status.splits)

lemma unlock_lifecycle [simp]: "rt_lifecycle (unlock r rt) = rt_lifecycle rt"
  by (simp add: unlock_def)

lemma withhold_advances:
  assumes "get_record (rt_lifecycle rt) i = Some r" "rec_state r \<in> {AUTHORIZED, COMMITTED}"
  shows "advances i (rt_lifecycle rt) (rt_lifecycle (fst (withhold i reason rt)))"
proof -
  have "WITHHELD \<in> set (allowed (rec_state r))" "rec_state r \<in> set undecided_states"
    using assms(2) by (auto simp: undecided_states_def)
  then show ?thesis
    using assms(1) advances_move [of "rt_lifecycle rt" i r WITHHELD None reason None "\<lambda>r. r\<lparr>rec_release_decision := Some WITHHOLD\<rparr>"]
    by (simp add: withhold_def bind_rt_def modify_move tally_def record_ok_decided)
qed

lemma reject_advances: "advances i (rt_lifecycle rt) (rt_lifecycle (fst (reject r s reason rt)))"
  by (simp add: reject_def Let_def advances_note)

lemma with_record:
  assumes "get_record (rt_lifecycle rt) i = None \<Longrightarrow> P (rt, Inl (RtKeyError i))"
    and "\<And>r. get_record (rt_lifecycle rt) i = Some r \<Longrightarrow> P (f r rt)"
  shows "P (bind_rt (the_record i) f rt)"
  using assms by (simp add: bind_rt_def the_record_def split: option.splits)

lemma record_commit_advances: "advances i (rt_lifecycle rt) (rt_lifecycle (fst (record_commit i committed reason seq rt)))"
  unfolding record_commit_def
proof (rule with_record, goal_cases)
  case (2 r)
  note r = 2
  have c: "advances i (rt_lifecycle rt) (rt_lifecycle (fst (bind_rt (move i COMMITTED None reason None)
      (\<lambda>r rt. (tally (\<lambda>m. m\<lparr>m_committed := m_committed m + 1\<rparr>) rt, Inr r))
      (modify_record i (\<lambda>r. r\<lparr>rec_commit_seq := seq\<rparr>) (unlock r rt)))))" if "rec_state r = AUTHORIZED"
    using that r advances_move [of "rt_lifecycle rt" i r COMMITTED None reason None "\<lambda>r. r\<lparr>rec_commit_seq := seq\<rparr>"]
    by (simp add: bind_rt_def modify_move tally_def record_ok_moved undecided_states_def)
  have w: "advances i (rt_lifecycle rt) (rt_lifecycle (fst (withhold i reason (unlock r rt))))" if "rec_state r = AUTHORIZED"
    using that withhold_advances [of "unlock r rt" i r reason] r by simp
  show ?case using c w by (simp add: Let_def reject_advances)
qed simp

lemma report_release_advances: "advances i (rt_lifecycle rt) (rt_lifecycle (fst (report_release i released reason cv rv rt)))"
  unfolding report_release_def
proof (rule with_record, goal_cases)
  case (2 r)
  note r = 2
  have c: "advances i (rt_lifecycle rt) (rt_lifecycle (fst (bind_rt (move i RELEASED None why None)
      (\<lambda>r rt. (tally (\<lambda>m. m\<lparr>m_released := m_released m + 1\<rparr>) (rt\<lparr>rt_callbacks := rt_callbacks rt @ [rec_intent r]\<rparr>), Inr r))
      (modify_record i (\<lambda>r. r\<lparr>rec_release_decision := Some RELEASE\<rparr>) (unlock r rt)))))" if s: "rec_state r \<in> {AUTHORIZED, COMMITTED}" for why
  proof -
    have "RELEASED \<in> set (allowed (rec_state r))" "rec_state r \<in> set undecided_states"
      using s by (auto simp: undecided_states_def)
    then show ?thesis
      using r advances_move [of "rt_lifecycle rt" i r RELEASED None why None "\<lambda>r. r\<lparr>rec_release_decision := Some RELEASE\<rparr>"]
      by (simp add: bind_rt_def modify_move tally_def record_ok_decided)
  qed
  have w: "advances i (rt_lifecycle rt) (rt_lifecycle (fst (withhold i why (unlock r rt))))" if "rec_state r \<in> {AUTHORIZED, COMMITTED}" for why
    using that withhold_advances [of "unlock r rt" i r why] r by simp
  show ?case using c w by (auto simp: Let_def reject_advances split: prod.splits)
qed simp

lemma effect_target_state:
  "record_ok i r \<Longrightarrow> effect_target status \<in> set (allowed (rec_state r)) \<Longrightarrow>
   record_ok i (moved (effect_target status) None reason None (r\<lparr>rec_effect_status := Some status, rec_effect_detail := d\<rparr>))"
proof -
  assume ok: "record_ok i r" and al: "effect_target status \<in> set (allowed (rec_state r))"
  have t: "effect_target status \<in> {EFFECT_CONFIRMED, FAILED, UNKNOWN_EFFECT}" by (rule effect_target_cases)
  with al have "rec_state r \<in> {RELEASED, UNKNOWN_EFFECT}" by (cases "rec_state r") auto
  with ok have "rec_release_decision r = Some RELEASE" by (auto simp: record_ok_def RELEASED_STATES_def)
  then show ?thesis using ok t by (auto simp: record_ok_def RELEASED_STATES_def)
qed

lemma report_effect_advances: "advances i (rt_lifecycle rt) (rt_lifecycle (fst (report_effect i status detail rt)))"
  unfolding report_effect_def
proof (rule with_record, goal_cases)
  case (2 r)
  let ?why = "if detail \<noteq> [] then detail else effect_value status"
  have "advances i (rt_lifecycle rt) (rt_lifecycle (fst (bind_rt (move i (effect_target status) None ?why None)
      (\<lambda>r rt. (tally (count_effect status) rt, Inr r))
      (modify_record i (\<lambda>r. r\<lparr>rec_effect_status := Some status, rec_effect_detail := detail\<rparr>) rt))))"
    if "effect_target status \<in> set (allowed (rec_state r))"
    using that 2 advances_move [of "rt_lifecycle rt" i r "effect_target status" None ?why None
        "\<lambda>r. r\<lparr>rec_effect_status := Some status, rec_effect_detail := detail\<rparr>"]
    by (simp add: bind_rt_def modify_move tally_def effect_target_state)
  then show ?case by (simp add: Let_def reject_advances)
qed simp

lemma supervisory_revoke_advances: "advances i (rt_lifecycle rt) (rt_lifecycle (fst (supervisory_revoke i reason rt)))"
  unfolding supervisory_revoke_def
proof (rule with_record, goal_cases)
  case (2 r)
  show ?case
  proof (cases "REVOKED \<in> set (allowed (rec_state r))")
    case True
    then have "rec_state r \<in> set undecided_states" by (cases "rec_state r") (simp_all add: undecided_states_def)
    then have "record_ok i r \<Longrightarrow> record_ok i (moved REVOKED (Some REVOKE) reason None r)"
      using record_ok_moved [of REVOKED r i "\<lambda>r. r"] by (simp add: undecided_states_def)
    then have "advances i (rt_lifecycle rt) (log_entry i REVOKED reason (Some REVOKE) (put_record i (moved REVOKED (Some REVOKE) reason None r) (rt_lifecycle rt)))"
      using 2 True unfolding advances_def
      by (intro disjI2 exI [of _ r] exI [of _ "moved REVOKED (Some REVOKE) reason None r"]) (auto simp: replaces_def fsm_step_iff)
    then show ?thesis using 2 True by (simp add: bind_rt_def move_ok)
  next
    case False
    then show ?thesis using 2 by (simp add: bind_rt_def move_def transition_eq)
  qed
qed simp

section \<open>Every sequence of operations\<close>

lemma tracker_ok_expire: "tracker_ok t \<Longrightarrow> tracker_ok (snd (expire_from h seen t))"
  by (induction h seen t rule: expire_from.induct) (auto simp: tracker_ok_forget split: option.splits)

lemma expire_seen_lifecycle: "rt_lifecycle (expire_seen mnow rt) = snd (expire_from (mnow - rt_retention_s rt) (rt_seen rt) (rt_lifecycle rt))"
  by (simp add: expire_seen_def split: prod.splits)

lemma tracker_ok_admit: "tracker_ok (rt_lifecycle rt) \<Longrightarrow> tracker_ok (rt_lifecycle (fst (admit mnow enqueue intent rt)))"
proof -
  assume "tracker_ok (rt_lifecycle rt)"
  then have ok: "tracker_ok (rt_lifecycle (expire_seen mnow rt))" by (simp add: expire_seen_lifecycle tracker_ok_expire)
  then show ?thesis using tracker_ok_register [OF ok, of intent]
    by (auto simp: admit_def Let_def tally_def split: option.splits prod.splits if_splits)
qed

lemma bind_rt_return [simp]: "fst (bind_rt m (\<lambda>r rt. (rt, Inr (f r))) rt) = fst (m rt)"
  by (simp add: bind_rt_def split: prod.splits sum.splits)

lemma tracker_ok_next: "tracker_ok (rt_lifecycle rt) \<Longrightarrow> tracker_ok (rt_lifecycle (fst (process_next now rt)))"
  by (auto simp: process_next_def tracker_ok_process split: prod.splits option.splits)

lemma tracker_ok_exec: "tracker_ok (rt_lifecycle rt) \<Longrightarrow> tracker_ok (rt_lifecycle (rt_exec op rt))"
  by (cases op)
    (auto simp: tracker_ok_admit tracker_ok_process tracker_ok_next install_context_snapshot_def set_policy_def
      intro: tracker_ok_advances [OF _ record_commit_advances] tracker_ok_advances [OF _ report_release_advances]
        tracker_ok_advances [OF _ report_effect_advances] tracker_ok_advances [OF _ supervisory_revoke_advances]
      split: sum.splits prod.splits)

lemma tracker_ok_run: "tracker_ok (rt_lifecycle rt) \<Longrightarrow> tracker_ok (rt_lifecycle (fold rt_exec ops rt))"
  by (induction ops arbitrary: rt) (auto simp: tracker_ok_exec)

lemma tracker_ok_new: "tracker_ok (rt_lifecycle (new_runtime tv c ret))"
  by (simp add: new_runtime_def tracker_ok_def empty_tracker_def get_record_def)


definition demo_ops :: "rt_op list" where
  "demo_ops = [OpAdmit 0 False (demo_intent ''a''), OpProcess (process_queued 10) (demo_intent ''a''),
     OpCommit ''a'' True ''committed'' (Some 1), OpRelease ''a'' True ''handed_over'' None None]"


end
