(* ===== verification/Runtime_Properties.thy ===== *)
theory Runtime_Properties
  imports Runtime_Invariants
begin

text \<open>
  Properties of runs of the runtime that rest on its invariants: every intent moves along the state
  machine, decisions are final, admission is idempotent, validation never raises on its own transitions,
  and the degradation policy takes at most one extra pass. The last section gives runs that contradict
  the documents.
\<close>

section \<open>Runs follow the state machine\<close>

lemma fsm_path_append: "fsm_path s ts u \<Longrightarrow> fsm_path u us v \<Longrightarrow> fsm_path s (ts @ us) v"
  by (induction rule: fsm_path.induct) (auto intro: fsm_path.intros)

definition follows :: "intent_record option \<Rightarrow> intent_record option \<Rightarrow> bool" where
  "follows a b = (\<forall>r. a = Some r \<longrightarrow> (\<exists>r' ts. b = Some r' \<and> fsm_path (rec_state r) ts (rec_state r')))"

lemma follows_refl [simp]: "follows a a"
  by (auto simp: follows_def intro: fsm_path.stop)

lemma follows_trans: "follows a b \<Longrightarrow> follows b c \<Longrightarrow> follows a c"
  unfolding follows_def using fsm_path_append by (metis option.inject)

lemma follows_advances: "advances j t t' \<Longrightarrow> follows (get_record t i) (get_record t' i)"
proof (cases "i = j")
  case True
  assume "advances j t t'"
  then show ?thesis unfolding advances_def
  proof (elim disjE exE conjE)
    fix r r'
    assume "get_record t j = Some r" "replaces j r' t t'" "fsm_step (rec_state r) (rec_state r')"
    then show ?thesis using True
      by (auto simp: follows_def replaces_def intro!: exI [of _ "[rec_state r']"] fsm_path.intros)
  qed simp
next
  case False
  assume "advances j t t'"
  then have "get_record t' i = get_record t i" using False by (auto simp: advances_def replaces_def)
  then show ?thesis by simp
qed

lemma validation_path:
  assumes "s \<in> set VALIDATABLE_STATES" "u \<in> {AUTHORIZED, DELAYED, DEGRADED, REVOKED, EXPIRED, VALIDATING}"
  shows "\<exists>ts. fsm_path s ts u"
proof -
  have "fsm_path s [PENDING, VALIDATING] VALIDATING"
    using assms(1) by (intro fsm_path.intros) (auto simp: VALIDATABLE_STATES_def fsm_step_iff)
  moreover have "fsm_path VALIDATING [u] u" if "u \<noteq> VALIDATING"
    using assms(2) that by (intro fsm_path.intros) (auto simp: fsm_step_iff)
  ultimately show ?thesis using fsm_path_append by (cases "u = VALIDATING") blast+
qed

lemma follows_process: "follows (get_record (rt_lifecycle rt) i) (get_record (rt_lifecycle (fst (process_intent a intent rt))) i)"
proof -
  have known: "follows (get_record (rt_lifecycle rt) i) (get_record (rt_lifecycle (fst (process_intent a intent rt))) i)"
    if r: "get_record (rt_lifecycle rt) (int_id intent) = Some r" for rt r
  proof (cases "rec_state r \<in> set VALIDATABLE_STATES")
    case True
    from process_intent_replaces [OF r True, of a] obtain r' where
      r': "replaces (int_id intent) r' (rt_lifecycle rt) (rt_lifecycle (fst (process_intent a intent rt)))"
        "rec_state r' \<in> {AUTHORIZED, DELAYED, DEGRADED, REVOKED, EXPIRED, VALIDATING}" by blast
    show ?thesis using r'(1) r validation_path [OF True r'(2)]
      by (cases "i = int_id intent") (auto simp: replaces_def follows_def intro: fsm_path.stop)
  qed (use r in \<open>simp add: process_intent_skip\<close>)
  show ?thesis
  proof (cases "get_record (rt_lifecycle rt) (int_id intent)")
    case None
    let ?rt = "rt\<lparr>rt_lifecycle := fst (register intent (rt_lifecycle rt))\<rparr>"
    have "follows (get_record (rt_lifecycle rt) i) (get_record (rt_lifecycle ?rt) i)"
      using None by (cases "i = int_id intent") (simp_all add: follows_def fsm_path.stop)
    moreover have "follows (get_record (rt_lifecycle ?rt) i) (get_record (rt_lifecycle (fst (process_intent a intent ?rt))) i)"
      by (rule known [of _ "new_record intent"]) simp
    ultimately show ?thesis unfolding process_intent_register [OF None] by (rule follows_trans)
  qed (use known in blast)
qed

fun no_admission :: "rt_op \<Rightarrow> bool" where
  "no_admission (OpAdmit _ _ _) = False"
| "no_admission _ = True"

lemma follows_exec:
  "no_admission op \<Longrightarrow> follows (get_record (rt_lifecycle rt) i) (get_record (rt_lifecycle (rt_exec op rt)) i)"
proof (cases op)
  case (OpNext now)
  then show ?thesis
    using follows_process [of "rt\<lparr>rt_receiver := q\<rparr>" i "process_queued now" for q]
    by (auto simp: process_next_def split: prod.splits option.splits)
qed (auto simp: follows_process install_context_snapshot_def set_policy_def
      intro: follows_advances record_commit_advances report_release_advances report_effect_advances supervisory_revoke_advances
      split: sum.splits prod.splits)

lemma follows_run:
  "list_all no_admission ops \<Longrightarrow> follows (get_record (rt_lifecycle rt) i) (get_record (rt_lifecycle (fold rt_exec ops rt)) i)"
proof (induction ops arbitrary: rt)
  case (Cons op ops)
  then show ?case using follows_trans [OF follows_exec [of op rt i]] by simp
qed simp



section \<open>Decisions are final\<close>

lemma released_closed: "fsm_path s ts u \<Longrightarrow> s \<in> set RELEASED_STATES \<Longrightarrow> u \<in> set RELEASED_STATES"
  by (induction rule: fsm_path.induct) (auto simp: RELEASED_STATES_def fsm_step_iff)

lemma confirmed_closed:
  "fsm_path s ts u \<Longrightarrow> s = effect_target e \<Longrightarrow> e \<noteq> EffUnknown \<Longrightarrow> u = s"
  using terminal_path [of s ts u] by (cases e) (auto simp: terminal_states_set effect_target_def)



section \<open>Validation raises only for the degradation parameter\<close>

text \<open>
  A validation pass never requests a transition the state machine forbids and never misses its record:
  the only exception it can raise is the one of the degradation policy, for a speed factor that is no number
  (or a policy outside the schema).
\<close>

theorem validation_never_invalid:
  "(case snd (process_intent a intent rt) of
      Inl e \<Rightarrow> apply_degradation (apply_policy rt intent) = Inl e \<and> degradation_policy (payload intent) \<noteq> ''none''
    | Inr r \<Rightarrow> get_record (rt_lifecycle (fst (process_intent a intent rt))) (int_id intent) = Some r)"
proof -
  have known: "(case snd (process_intent a intent rt) of
      Inl e \<Rightarrow> apply_degradation (apply_policy rt intent) = Inl e \<and> degradation_policy (payload intent) \<noteq> ''none''
    | Inr r \<Rightarrow> get_record (rt_lifecycle (fst (process_intent a intent rt))) (int_id intent) = Some r)"
    if r: "get_record (rt_lifecycle rt) (int_id intent) = Some r" for rt r
  proof (cases "rec_state r \<in> set VALIDATABLE_STATES")
    case True
    consider "action_class rt intent \<in> set RISK_REDUCING" | "action_class rt intent \<notin> set RISK_REDUCING" "stale_snapshot a rt"
      | "action_class rt intent \<notin> set RISK_REDUCING" "\<not> stale_snapshot a rt" by blast
    then show ?thesis
    proof cases
      case 3
      obtain outcome reason where ev: "evaluate a (snapshot_of a rt) (apply_policy rt intent) rt = (outcome, reason)" by fastforce
      show ?thesis
      proof (rule process_ordinary [OF r True 3 ev])
        fix e rt2
        assume "outcome = DEGRADE" "apply_degradation (apply_policy rt intent) = Inl e" "process_intent a intent rt = (rt2, Inl e)"
        then show ?thesis using ev by (auto simp: evaluate_cases split: if_splits)
      qed simp
    qed (use r True in \<open>simp_all add: process_intent_enter Let_def authorize_stop_def revoke_stale_def bind_rt_def
        modify_record_def move_ok tally_def\<close>)
  qed (use r in \<open>simp add: process_intent_skip\<close>)
  show ?thesis
  proof (cases "get_record (rt_lifecycle rt) (int_id intent)")
    case None
    let ?rt = "rt\<lparr>rt_lifecycle := fst (register intent (rt_lifecycle rt))\<rparr>"
    have pol: "apply_policy ?rt intent = apply_policy rt intent" by (rule apply_policy_cong) simp_all
    have "get_record (rt_lifecycle ?rt) (int_id intent) = Some (new_record intent)" by simp
    from known [OF this] show ?thesis unfolding process_intent_register [OF None] pol .
  qed (use known in blast)
qed

section \<open>Admission\<close>

definition admission_state :: "runtime \<Rightarrow> (string, rat) dict \<times> rat \<times> (string, string) dict" where
  "admission_state rt = (rt_seen rt, rt_retention_s rt, rt_action_classes rt)"

lemma admission_bind:
  "admission_state (fst (m rt)) = admission_state rt \<Longrightarrow> (\<And>x rt'. admission_state (fst (f x rt')) = admission_state rt') \<Longrightarrow>
   admission_state (fst (bind_rt m f rt)) = admission_state rt"
  by (auto simp: bind_rt_def split: prod.splits sum.splits)

lemma admission_move [simp]: "admission_state (fst (move i s out reason lat rt)) = admission_state rt"
  by (simp add: move_def admission_state_def split: sum.splits prod.splits)

lemma admission_modify [simp]: "admission_state (modify_record i f rt) = admission_state rt"
  by (simp add: modify_record_def admission_state_def split: option.splits)

lemma admission_helpers [simp]:
  "admission_state (tally f rt) = admission_state rt" "admission_state (requeue_if b intent rt) = admission_state rt"
  "admission_state (unlock r rt) = admission_state rt" "admission_state (fst (reject r s reason rt)) = admission_state rt"
  "admission_state (fst (the_record i rt)) = admission_state rt"
  by (simp_all add: tally_def requeue_if_def unlock_def reject_def the_record_def Let_def admission_state_def)

lemma admission_fields:
  "admission_state (rt\<lparr>rt_active := x\<rparr>) = admission_state rt" "admission_state (rt\<lparr>rt_callbacks := y\<rparr>) = admission_state rt"
  "admission_state (rt\<lparr>rt_lifecycle := t\<rparr>) = admission_state rt" "admission_state (rt\<lparr>rt_receiver := q\<rparr>) = admission_state rt"
  by (simp_all add: admission_state_def)

lemma admission_then:
  "admission_state rt0 = admission_state rt \<Longrightarrow> (\<And>x rt'. admission_state (fst (f x rt')) = admission_state rt') \<Longrightarrow>
   admission_state (fst (bind_rt (move i s out reason lat) f rt0)) = admission_state rt"
  using admission_bind [of "move i s out reason lat" rt0 f] by simp

lemma admission_withhold [simp]: "admission_state (fst (withhold i reason rt)) = admission_state rt"
  unfolding withhold_def by (rule admission_then) auto

lemma admission_conclude [simp]: "admission_state (fst (conclude a intent outcome reason rt)) = admission_state rt"
  unfolding conclude_def Let_def
  by (cases outcome) (auto split: sum.splits intro!: admission_then simp: admission_fields)

lemma admission_process [simp]: "admission_state (fst (process_intent a intent rt)) = admission_state rt"
proof -
  have known: "admission_state (fst (process_intent a intent rt)) = admission_state rt"
    if r: "get_record (rt_lifecycle rt) (int_id intent) = Some r" for rt r
  proof (cases "rec_state r \<in> set VALIDATABLE_STATES")
    case True
    have e: "admission_state (entered i cls r rt) = admission_state rt" for i cls by (simp add: entered_def admission_fields)
    have "admission_state (fst (authorize_stop a intent rt0)) = admission_state rt0"
      "admission_state (fst (revoke_stale intent rt0)) = admission_state rt0"
      "admission_state (fst (validate_now a c v intent rt0)) = admission_state rt0" for rt0 c v
      by (auto simp: authorize_stop_def revoke_stale_def validate_now_def Let_def intro!: admission_then split: prod.splits)
    then show ?thesis using e unfolding process_intent_enter [OF r True] Let_def by simp
  qed (use r in \<open>simp add: process_intent_skip\<close>)
  show ?thesis
  proof (cases "get_record (rt_lifecycle rt) (int_id intent)")
    case None
    let ?rt = "rt\<lparr>rt_lifecycle := fst (register intent (rt_lifecycle rt))\<rparr>"
    have "get_record (rt_lifecycle ?rt) (int_id intent) = Some (new_record intent)" by simp
    from known [OF this] show ?thesis unfolding process_intent_register [OF None] by (simp add: admission_fields)
  qed (use known in blast)
qed

lemma admission_with_record:
  "(\<And>r. admission_state (fst (f r rt)) = admission_state rt) \<Longrightarrow> admission_state (fst (bind_rt (the_record i) f rt)) = admission_state rt"
  by (rule with_record) simp_all

lemma admission_reports [simp]:
  "admission_state (fst (record_commit i committed reason seq rt)) = admission_state rt"
  "admission_state (fst (report_release i released reason cv rv rt)) = admission_state rt"
  "admission_state (fst (report_effect i status detail rt)) = admission_state rt"
  "admission_state (fst (supervisory_revoke i reason rt)) = admission_state rt"
  unfolding record_commit_def report_release_def report_effect_def supervisory_revoke_def Let_def
  by (rule admission_with_record; auto simp: admission_fields split: prod.splits intro!: admission_then)+

lemma admission_install [simp]: "admission_state (fst (install_context_snapshot c v replace rt)) = admission_state rt"
  by (auto simp: install_context_snapshot_def admission_state_def)

lemma admissionD:
  "admission_state rt' = admission_state rt \<Longrightarrow>
   rt_seen rt' = rt_seen rt \<and> rt_retention_s rt' = rt_retention_s rt \<and> rt_action_classes rt' = rt_action_classes rt"
  by (simp add: admission_state_def)

lemmas admission_kept = admission_process [THEN admissionD] admission_reports [THEN admissionD] admission_install [THEN admissionD]

lemma set_policy_seen: "rt_seen (fst (set_policy policy rt)) = rt_seen rt \<and> rt_retention_s (fst (set_policy policy rt)) = rt_retention_s rt"
  by (auto simp: set_policy_def split: sum.splits prod.splits)

lemma expire_keeps:
  "map_of seen i = Some t \<Longrightarrow> h \<le> t \<Longrightarrow>
   map_of (fst (expire_from h seen tr)) i = Some t \<and> get_record (snd (expire_from h seen tr)) i = get_record tr i"
  by (induction h seen tr rule: expire_from.induct) (auto split: option.splits if_splits)

definition known_since :: "rat \<Rightarrow> string \<Rightarrow> runtime \<Rightarrow> bool" where
  "known_since t i rt \<longleftrightarrow> map_of (rt_seen rt) i = Some t \<and> get_record (rt_lifecycle rt) i \<noteq> None"

lemma known_since_expire:
  assumes "known_since t i rt" "mnow - rt_retention_s rt \<le> t"
  shows "known_since t i (expire_seen mnow rt)"
proof -
  obtain seen tr where e: "expire_from (mnow - rt_retention_s rt) (rt_seen rt) (rt_lifecycle rt) = (seen, tr)" by fastforce
  then show ?thesis
    using expire_keeps [of "rt_seen rt" i t "mnow - rt_retention_s rt" "rt_lifecycle rt"] assms
    by (simp add: known_since_def expire_seen_def)
qed

lemma expire_retention [simp]: "rt_retention_s (expire_seen mnow rt) = rt_retention_s rt"
  by (simp add: expire_seen_def split: prod.splits)

fun timely :: "rat \<Rightarrow> rat \<Rightarrow> rt_op \<Rightarrow> bool" where
  "timely ret t (OpAdmit mnow enqueue intent) = (mnow - ret \<le> t)"
| "timely ret t _ = True"

lemma known_since_exec:
  assumes "known_since t i rt" "timely (rt_retention_s rt) t op"
  shows "known_since t i (rt_exec op rt) \<and> rt_retention_s (rt_exec op rt) = rt_retention_s rt"
proof (cases "no_admission op")
  case True
  have "rt_seen (rt_exec op rt) = rt_seen rt \<and> rt_retention_s (rt_exec op rt) = rt_retention_s rt"
  proof (cases op)
    case (OpNext now)
    then have "admission_state (rt_exec op rt) = admission_state rt"
      using admission_process [of "process_queued now" _ "rt\<lparr>rt_receiver := q\<rparr>" for q]
      by (auto simp: process_next_def admission_fields split: prod.splits option.splits)
    then show ?thesis by (simp add: admission_state_def)
  qed (use True in \<open>simp_all add: admission_kept set_policy_seen\<close>)
  then show ?thesis using assms(1) follows_exec [OF True, of rt i]
    by (auto simp: known_since_def follows_def)
next
  case False
  then obtain mnow enq intent where op: "op = OpAdmit mnow enq intent" by (cases op) auto
  let ?rt = "expire_seen mnow rt"
  have k: "known_since t i ?rt" using assms op by (simp add: known_since_expire)
  show ?thesis
  proof (cases "int_id intent = i")
    case True
    then have "fst (admit mnow enq intent rt) = ?rt" using k by (auto simp: admit_def Let_def known_since_def)
    then show ?thesis using op k by simp
  next
    case neq: False
    then show ?thesis using op k
      by (auto simp: admit_def Let_def known_since_def tally_def register_def split: option.splits if_splits)
  qed
qed

lemma known_since_run:
  "known_since t i rt \<Longrightarrow> list_all (timely (rt_retention_s rt) t) ops \<Longrightarrow>
   known_since t i (fold rt_exec ops rt) \<and> rt_retention_s (fold rt_exec ops rt) = rt_retention_s rt"
proof (induction ops arbitrary: rt)
  case (Cons op ops)
  then have "known_since t i (rt_exec op rt)" "rt_retention_s (rt_exec op rt) = rt_retention_s rt"
    using known_since_exec by auto
  then show ?case using Cons by simp
qed simp

text \<open>
  Admission is idempotent. An id that was admitted at some instant is answered as a duplicate, with the
  record it already has and without touching any record, by every later admission within the retention
  window, whatever else the runtime did in between.
\<close>

theorem admission_idempotent:
  assumes "admit t enq intent rt = (rt1, r, False)"
    and "list_all (timely (rt_retention_s rt) t) ops" and "mnow - rt_retention_s rt \<le> t"
    and "int_id intent' = int_id intent"
  shows "\<exists>rt2 r'. admit mnow enq' intent' (fold rt_exec ops rt1) = (rt2, r', True) \<and>
     get_record (rt_lifecycle (fold rt_exec ops rt1)) (int_id intent) = Some r' \<and>
     get_record (rt_lifecycle rt2) (int_id intent) = Some r'"
proof -
  let ?i = "int_id intent"
  have k1: "known_since t ?i rt1" "rt_retention_s rt1 = rt_retention_s rt"
    using assms(1) by (auto simp: admit_def Let_def known_since_def tally_def register_def split: option.splits if_splits)
  let ?rt = "fold rt_exec ops rt1"
  have k: "known_since t ?i ?rt" "rt_retention_s ?rt = rt_retention_s rt"
    using known_since_run [OF k1(1), of ops] k1(2) assms(2) by auto
  obtain seen tr where e: "expire_from (mnow - rt_retention_s ?rt) (rt_seen ?rt) (rt_lifecycle ?rt) = (seen, tr)" by fastforce
  have "map_of seen ?i = Some t \<and> get_record tr ?i = get_record (rt_lifecycle ?rt) ?i"
    using expire_keeps [of "rt_seen ?rt" ?i t "mnow - rt_retention_s ?rt" "rt_lifecycle ?rt"] k assms(3) e
    by (simp add: known_since_def)
  then show ?thesis using k(1) e assms(4) by (auto simp: admit_def Let_def known_since_def expire_seen_def)
qed

theorem admission_idempotent_witness:
  "\<exists>rt2 r'. admit 100 False (demo_intent ''a'') (fold rt_exec [OpRevoke ''a'' ''x''] (demo_admitted ''a'' demo_runtime)) = (rt2, r', True)"
proof -
  obtain rt1 r d where a: "admit 0 False (demo_intent ''a'') demo_runtime = (rt1, r, d)" by (metis prod_cases3)
  have "\<not> snd (snd (admit 0 False (demo_intent ''a'') demo_runtime))" by code_simp
  then have a': "admit 0 False (demo_intent ''a'') demo_runtime = (rt1, r, False)" using a by simp
  have "list_all (timely (rt_retention_s demo_runtime) 0) [OpRevoke ''a'' ''x'']" by simp
  moreover have "100 - rt_retention_s demo_runtime \<le> 0" by (simp add: demo_runtime_def new_runtime_def)
  ultimately show ?thesis using admission_idempotent [OF a', of "[OpRevoke ''a'' ''x'']" 100 "demo_intent ''a''" False] a'
    by (auto simp: demo_admitted_def)
qed

section \<open>Policy\<close>

lemma policy_entry_stop:
  assumes "policy_entry k v (acts, cls, cps) = Inr (acts', cls', cps')"
    and "\<And>a. map_of cls a = Some ''stop'' \<Longrightarrow> map_of acts a = Some []" and "dict_get cps ''stop'' [] = []"
  shows "(\<forall>a. map_of cls' a = Some ''stop'' \<longrightarrow> map_of acts' a = Some []) \<and> dict_get cps' ''stop'' [] = []"
proof -
  have nil: "es = []" if "str_list x = Inr es" "\<not> truthy x" for x es
    using that by (cases x) (auto simp: str_list_def truthy_def split: if_splits)
  show ?thesis using assms nil
    by (auto simp: policy_entry_def Let_def RISK_REDUCING_def split: if_splits sum.splits)
qed

lemma policy_entries_stop:
  "policy_entries kvs (acts, cls, cps) = Inr (acts', cls', cps') \<Longrightarrow>
   (\<And>a. map_of cls a = Some ''stop'' \<Longrightarrow> map_of acts a = Some []) \<Longrightarrow> dict_get cps ''stop'' [] = [] \<Longrightarrow>
   (\<forall>a. map_of cls' a = Some ''stop'' \<longrightarrow> map_of acts' a = Some []) \<and> dict_get cps' ''stop'' [] = []"
proof (induction kvs "(acts, cls, cps)" arbitrary: acts cls cps rule: policy_entries.induct)
  case (2 k v kvs)
  then obtain t where t: "policy_entry k v (acts, cls, cps) = Inr t" by (cases "policy_entry k v (acts, cls, cps)") auto
  obtain a1 c1 p1 where t1: "t = (a1, c1, p1)" by (cases t)
  from policy_entry_stop [OF t [unfolded t1] 2(3,4)] 2(2) t t1 show ?case using 2(1) [of a1 c1 p1] by auto
qed auto

text \<open>
  A policy that installs gives a stop-class action no mandatory predicate, neither of its own nor of its
  class, so a stop is never made conditional; a policy that is refused leaves the runtime as it was.
\<close>

theorem policy_never_conditions_stop:
  assumes "action_class (fst (set_policy policy rt)) intent = ''stop''" "policy_added intent = None"
  shows "case set_policy policy rt of
     (rt', Inl e) \<Rightarrow> rt' = rt
   | (rt', Inr acts) \<Rightarrow> apply_policy rt' intent = intent\<lparr>policy_added := Some []\<rparr>"
proof (cases "policy_entries policy ([], [], [])")
  case (Inr t)
  obtain acts cls cps where t: "t = (acts, cls, cps)" by (cases t)
  have st: "(\<forall>a. map_of cls a = Some ''stop'' \<longrightarrow> map_of acts a = Some []) \<and> dict_get cps ''stop'' [] = []"
    using policy_entries_stop [OF Inr [unfolded t]] by (simp add: dict_get_def)
  have "dict_get acts k [] = []" if "dict_get cls k ''other'' = ''stop''" for k
    using st that by (auto simp: dict_get_def split: option.splits)
  then show ?thesis using assms Inr t st
    by (auto simp: set_policy_def apply_policy_def action_class_def Let_def unique_def)
qed (simp add: set_policy_def)

definition stop_policy :: ctx where
  "stop_policy = [(''Halt '', JObj [(''class'', JStr ''stop'')]), (''class:motion'', JList [JStr ''cell.temp < 50''])]"

definition halt_intent :: action_intent where
  "halt_intent = (demo_intent ''h'')\<lparr>payload := (payload (demo_intent ''h''))\<lparr>action_type := '' halt''\<rparr>, policy_added := None\<rparr>"

theorem policy_never_conditions_stop_witness:
  "action_class (fst (set_policy stop_policy demo_runtime)) halt_intent = ''stop'' \<and>
   (case set_policy stop_policy demo_runtime of
      (rt', Inl e) \<Rightarrow> rt' = demo_runtime
    | (rt', Inr acts) \<Rightarrow> apply_policy rt' halt_intent = halt_intent\<lparr>policy_added := Some []\<rparr>)"
proof
  show cls: "action_class (fst (set_policy stop_policy demo_runtime)) halt_intent = ''stop''" by code_simp
  show "case set_policy stop_policy demo_runtime of
      (rt', Inl e) \<Rightarrow> rt' = demo_runtime
    | (rt', Inr acts) \<Rightarrow> apply_policy rt' halt_intent = halt_intent\<lparr>policy_added := Some []\<rparr>"
    by (rule policy_never_conditions_stop [OF cls]) (simp add: halt_intent_def)
qed

end
