(* ===== verification/Server.thy ===== *)
theory Server
  imports Store Runtime_Properties
begin

text \<open>
  \<^verbatim>\<open>xair/adapters/runtime_state.py\<close> and \<^verbatim>\<open>xair/adapters/http_server.py\<close>: the process state (one runtime, one
  store) and the HTTP handlers, each as a function from the server to the changed server and a reply. A
  request that ends in an exception FastAPI does not know is \<^verbatim>\<open>Http 500\<close>.

  Parameters (record \<^verbatim>\<open>config\<close>): the JSON-schema validator, the ISO time parser, the hash that maps a target
  to a stop bucket, and \<^verbatim>\<open>cjson\<close>. The record \<^verbatim>\<open>env\<close> holds what one request observes: clock readings, the
  generated id, and the outcome of each store call (the \<^term>\<open>k\<close>-th snapshot read and the \<^term>\<open>k\<close>-th update of the
  request). Monotonic I/O bounds in the replies are left out.
\<close>

record config =
  cf_stop_fence :: bool
  cf_legacy_read :: bool
  cf_opa :: bool
  cf_retention_s :: rat
  cf_schema_error :: "ctx \<Rightarrow> string option"
  cf_fromiso :: "string \<Rightarrow> datetime option"
  cf_stop_key :: "string \<Rightarrow> string"
  cf_cj :: "ctx \<Rightarrow> ctx"
  cf_policy_token :: "string option"

record env =
  ev_now_s :: rat
  ev_mono_s :: rat
  ev_uuid :: string
  ev_elapsed :: "nat \<Rightarrow> rat"
  ev_latency_ms :: rat
  ev_snap :: "nat \<Rightarrow> (redis_view \<times> string list) io"
  ev_update :: "nat \<Rightarrow> (redis_view \<times> bool) list io"
  ev_register :: "register_reply io"
  ev_claim :: "bool io"
  ev_commit :: "lua_view io"
  ev_append :: "unit io"
  ev_log :: "ctx list io"
  ev_opa_ok :: bool

record server =
  sv_runtime :: runtime
  sv_store :: store
  sv_opa_replications :: nat
  sv_opa_errors :: nat

datatype 'a reply = Ok 'a | Http nat string

section \<open>Shared state\<close>

definition on_runtime :: "(runtime \<Rightarrow> runtime) \<Rightarrow> server \<Rightarrow> server" where
  "on_runtime f sv = sv\<lparr>sv_runtime := f (sv_runtime sv)\<rparr>"

definition read_snapshot_full :: "(redis_view \<times> string list) io \<Rightarrow> server \<Rightarrow> server \<times> ctx \<times> int \<times> path_versions \<times> bool" where
  "read_snapshot_full io sv =
     (case snapshot_full io (sv_store sv) of (st, (c, v, pv), trusted) \<Rightarrow>
        let sv1 = sv\<lparr>sv_store := st\<rparr>
        in ((if trusted then on_runtime (\<lambda>rt. fst (install_context_snapshot c v True rt)) sv1 else sv1), c, v, pv, trusted))"

definition update_context_store ::
  "config \<Rightarrow> rat \<Rightarrow> bool \<Rightarrow> ctx \<Rightarrow> (redis_view \<times> bool) list io \<Rightarrow> (redis_view \<times> string list) io \<Rightarrow> server \<Rightarrow> server \<times> int \<times> bool" where
  "update_context_store cf now opa_ok patch uio sio sv =
     (case update_store (cf_retention_s cf) now patch uio (sv_store sv) of (st, ver) \<Rightarrow>
        let sv1 = sv\<lparr>sv_store := st\<rparr>
        in if \<not> cf_opa cf then
             (if st_layout st = Shard then (sv1, ver, \<not> st_required st \<or> st_available st)
              else case read_snapshot_full sio sv1 of (sv2, c, ver_now, pv, trusted) \<Rightarrow> (sv2, max ver ver_now, trusted))
           else
             (case read_snapshot_full sio sv1 of (sv2, c, ver_now, pv, trusted) \<Rightarrow>
                ((if opa_ok then sv2\<lparr>sv_opa_replications := sv_opa_replications sv2 + 1\<rparr>
                  else sv2\<lparr>sv_opa_errors := sv_opa_errors sv2 + 1\<rparr>), max ver ver_now, trusted)))"

section \<open>Stops\<close>

definition fence_expr :: "config \<Rightarrow> temporal_validator \<Rightarrow> action_intent \<Rightarrow> string" where
  "fence_expr cf tv intent =
     ''stop.'' @ cf_stop_key cf (target_entity (payload intent)) @ '' <= '' @
     show_int (trunc_rat ((decision_epoch_ms intent - clock_uncertainty_ms tv) * 1000))"

text \<open>\<^verbatim>\<open>(ctx.get("stop") or {}).get(key)\<close>; the outer \<^const>\<open>None\<close>: the stored value is no dictionary.\<close>

definition stop_epoch :: "ctx \<Rightarrow> string \<Rightarrow> json option" where
  "stop_epoch c key = map_option (\<lambda>d. doc_get d key) (as_dict (doc_get c ''stop''))"

definition fence_intent :: "config \<Rightarrow> env \<Rightarrow> action_intent \<Rightarrow> server \<Rightarrow> server \<times> action_intent reply" where
  "fence_intent cf e intent sv =
     (if \<not> cf_stop_fence cf \<or> action_class (sv_runtime sv) intent \<in> set RISK_REDUCING then (sv, Ok intent)
      else
        let key = cf_stop_key cf (target_entity (payload intent))
        in case read_snapshot_full (ev_snap e 0) sv of (sv1, c, v, pv, trusted) \<Rightarrow>
             if \<not> trusted then (sv1, Ok intent)
             else case stop_epoch c key of
                    None \<Rightarrow> (sv1, Http 500 ''stop'')
                  | Some epoch \<Rightarrow>
                      let sv2 = (if epoch = JNull
                                 then fst (update_context_store cf (ev_now_s e) (ev_opa_ok e) [(''stop'', JObj [(key, JInt 0)])]
                                             (ev_update e 0) (ev_snap e 1) sv1)
                                 else sv1)
                      in (sv2, Ok (intent\<lparr>preconditions := preconditions intent @ [fence_expr cf (rt_temporal (sv_runtime sv2)) intent]\<rparr>)))"

definition stop_record :: "action_intent \<Rightarrow> ctx" where
  "stop_record intent =
     [(''intent_id'', JStr (int_id intent)), (''stop'', JBool True), (''source'', JStr (int_source intent)),
      (''action_type'', JStr (action_type (payload intent))), (''target_entity'', JStr (target_entity (payload intent))),
      (''decision_epoch_ms'', JFloat (Fin (decision_epoch_ms intent)))]"

definition record_stop :: "config \<Rightarrow> env \<Rightarrow> action_intent \<Rightarrow> intent_record \<Rightarrow> server \<Rightarrow> server" where
  "record_stop cf e intent r sv =
     (if \<not> cf_stop_fence cf \<or> rec_state r \<noteq> AUTHORIZED then sv
      else
        let key = cf_stop_key cf (target_entity (payload intent));
            sv1 = fst (update_context_store cf (ev_now_s e) (ev_opa_ok e)
                         [(''stop'', JObj [(key, JInt (trunc_rat (ev_now_s e * 1000000)))])] (ev_update e 0) (ev_snap e 0) sv)
        in sv1\<lparr>sv_store := fst (append_actuation (stop_record intent) (ev_append e) (sv_store sv1))\<rparr>)"

section \<open>Validation on behalf of a request\<close>

definition request_args :: "env \<Rightarrow> (ctx \<times> int) option \<Rightarrow> (path_versions \<times> pred_versions) option \<Rightarrow> process_args" where
  "request_args e snapshot versions =
     \<lparr>pa_now = ev_now_s e * 1000, pa_context = map_option fst snapshot, pa_context_version = map_option snd snapshot,
      pa_path_versions = map_option fst versions, pa_predicate_versions = map_option snd versions,
      pa_requeue = False, pa_elapsed = ev_elapsed e, pa_latency_ms = ev_latency_ms e\<rparr>"

definition http_error :: "rt_error \<Rightarrow> 'a reply" where
  "http_error e =
     (case e of RtKeyError i \<Rightarrow> Http 404 ''intent not found'' | RtInvalid i s t \<Rightarrow> Http 409 i | RtValueError m \<Rightarrow> Http 500 m)"

text \<open>\<^verbatim>\<open>_validate_now\<close>: a degraded intent is validated again at once, on the same snapshot.\<close>

definition validate_twice :: "process_args \<Rightarrow> action_intent \<Rightarrow> intent_record rt" where
  "validate_twice a intent =
     bind_rt (process_intent a intent)
       (\<lambda>r. if rec_state r = DEGRADED then process_intent a (rec_intent r) else return_rt r)"

lemma validate_twice_cases [code]:
  "validate_twice a intent rt =
     (case process_intent a intent rt of
        (rt1, Inl err) \<Rightarrow> (rt1, Inl err)
      | (rt1, Inr r) \<Rightarrow> if rec_state r = DEGRADED then process_intent a (rec_intent r) rt1 else (rt1, Inr r))"
  by (simp add: validate_twice_def bind_rt_def return_rt_def split: prod.splits sum.splits)

definition run_rt :: "'a rt \<Rightarrow> server \<Rightarrow> server \<times> (rt_error + 'a)" where
  "run_rt m sv = (case m (sv_runtime sv) of (rt, res) \<Rightarrow> (sv\<lparr>sv_runtime := rt\<rparr>, res))"

section \<open>POST /v1/intents\<close>

record rejection =
  rj_id :: json
  rj_reason :: string
  rj_version :: int
  rj_trusted :: bool

record decision_doc =
  dd_id :: string
  dd_record :: intent_record
  dd_read_values :: ctx
  dd_duplicate :: bool
  dd_payload :: "ctx option"

datatype submit_reply = Rejected rejection | Decided decision_doc

definition rejection_of :: "ctx \<Rightarrow> string \<Rightarrow> int \<Rightarrow> bool \<Rightarrow> submit_reply reply" where
  "rejection_of body reason version trusted =
     Ok (Rejected \<lparr>rj_id = doc_get body ''id'', rj_reason = reason, rj_version = version, rj_trusted = trusted\<rparr>)"

text \<open>\<^verbatim>\<open>_payload\<close>, the JSON form of the payload XAIR authorized.\<close>

definition payload_doc :: "action_descriptor \<Rightarrow> ctx" where
  "payload_doc p =
     [(''action_type'', JStr (action_type p)), (''target_entity'', JStr (target_entity p)), (''parameters'', JObj (parameters p)),
      (''degradation_policy'', JStr (degradation_policy p))]"

definition decided :: "string \<Rightarrow> intent_record \<Rightarrow> ctx \<Rightarrow> bool \<Rightarrow> submit_reply reply" where
  "decided i r read_values duplicate =
     Ok (Decided \<lparr>dd_id = i, dd_record = r, dd_read_values = read_values, dd_duplicate = duplicate,
                   dd_payload = (if rec_state r = AUTHORIZED then Some (payload_doc (payload (rec_intent r))) else None)\<rparr>)"

definition read_values_of :: "ctx \<Rightarrow> string list \<Rightarrow> ctx" where
  "read_values_of c paths = foldl (\<lambda>d p. case get_path c p of None \<Rightarrow> d | Some v \<Rightarrow> dict_set p v d) [] paths"

text \<open>The snapshot document an intent is validated on, with its trust flag; \<^const>\<open>None\<close> is an exception.\<close>

definition intent_snapshot :: "config \<Rightarrow> env \<Rightarrow> string list \<Rightarrow> store \<Rightarrow> store \<times> (snap \<times> bool) option" where
  "intent_snapshot cf e exprs st =
     (if cf_legacy_read cf then
        (case snapshot_full (ev_snap e 2) st of (st1, (c, v, pv), trusted) \<Rightarrow>
           case register_predicates (cf_retention_s cf) (ev_now_s e) exprs (ev_register e) st1 of
             (st2, None) \<Rightarrow> (st2, None)
           | (st2, Some preds) \<Rightarrow> (st2, Some (\<lparr>sn_context = c, sn_version = v, sn_pv = pv, sn_preds = preds\<rparr>, trusted)))
      else
        (case register_and_snapshot (cf_retention_s cf) (ev_now_s e) exprs (ev_register e) st of
           (st1, doc, trusted) \<Rightarrow> (st1, Some (doc, trusted))))"

definition revoke_now :: "string \<Rightarrow> string \<Rightarrow> server \<Rightarrow> server \<times> (rt_error + intent_record)" where
  "revoke_now i reason sv = run_rt (move i REVOKED (Some REVOKE) reason None) sv"

definition validate_on_snapshot :: "env \<Rightarrow> ctx \<Rightarrow> action_intent \<Rightarrow> snap \<Rightarrow> bool \<Rightarrow> server \<Rightarrow> server \<times> submit_reply reply" where
  "validate_on_snapshot e body intent doc trusted sv =
     (if \<not> trusted then
        (case revoke_now (int_id intent) ''context_store_untrusted'' sv of
           (sv1, Inl err) \<Rightarrow> (sv1, Http 500 (int_id intent))
         | (sv1, Inr r) \<Rightarrow> (sv1, rejection_of body ''context_store_untrusted'' (sn_version doc) False))
      else
        (case run_rt (validate_twice (request_args e (Some (sn_context doc, sn_version doc)) (Some (sn_pv doc, sn_preds doc))) intent)
                (if st_layout (sv_store sv) = Shard then sv
                 else on_runtime (\<lambda>rt. fst (install_context_snapshot (sn_context doc) (sn_version doc) True rt)) sv) of
           (sv1, Inl err) \<Rightarrow> (sv1, Http 500 (int_id intent))
         | (sv1, Inr r) \<Rightarrow> (sv1, decided (int_id intent) r (read_values_of (sn_context doc) (rec_read_set r)) False)))"

definition validate_prepared :: "config \<Rightarrow> env \<Rightarrow> ctx \<Rightarrow> action_intent \<Rightarrow> string list \<Rightarrow> server \<Rightarrow> server \<times> submit_reply reply" where
  "validate_prepared cf e body intent exprs sv =
     (case intent_snapshot cf e exprs (sv_store sv) of
        (st, None) \<Rightarrow> (sv\<lparr>sv_store := st\<rparr>, Http 500 ''context store unavailable'')
      | (st, Some (doc, trusted)) \<Rightarrow> validate_on_snapshot e body intent doc trusted (sv\<lparr>sv_store := st\<rparr>))"

definition validate_request :: "config \<Rightarrow> env \<Rightarrow> ctx \<Rightarrow> action_intent \<Rightarrow> server \<Rightarrow> server \<times> submit_reply reply" where
  "validate_request cf e body intent0 sv =
     (case fence_intent cf e intent0 sv of
        (sv1, Http sc msg) \<Rightarrow> (sv1, Http sc msg)
      | (sv1, Ok intent1) \<Rightarrow>
          (case prepare (sv_runtime sv1) intent1 of (intent, exprs) \<Rightarrow>
             validate_prepared cf e body intent exprs
               (on_runtime (modify_record (int_id intent) (\<lambda>r. r\<lparr>rec_intent := intent\<rparr>)) sv1)))"

definition submit_stop :: "config \<Rightarrow> env \<Rightarrow> action_intent \<Rightarrow> server \<Rightarrow> server \<times> submit_reply reply" where
  "submit_stop cf e intent sv =
     (case run_rt (validate_twice (request_args e None None) intent) sv of
        (sv1, Inl err) \<Rightarrow> (sv1, Http 500 (int_id intent))
      | (sv1, Inr r) \<Rightarrow> (record_stop cf e intent r sv1, decided (int_id intent) r [] False))"

text \<open>\<^term>\<open>first\<close>: the first admission of the id, which has to be claimed in the store.\<close>

definition submit_ordinary :: "config \<Rightarrow> env \<Rightarrow> ctx \<Rightarrow> bool \<Rightarrow> action_intent \<Rightarrow> server \<Rightarrow> server \<times> submit_reply reply" where
  "submit_ordinary cf e body first intent sv =
     (case (if first then claim_intent (ev_claim e) (sv_store sv) else (sv_store sv, True)) of
        (st, False) \<Rightarrow>
          (case revoke_now (int_id intent) ''duplicate_after_restart'' (sv\<lparr>sv_store := st\<rparr>) of
             (sv1, Inl err) \<Rightarrow> (sv1, Http 500 (int_id intent))
           | (sv1, Inr r) \<Rightarrow> (sv1, rejection_of body ''duplicate_after_restart'' 0 True))
      | (st, True) \<Rightarrow> validate_request cf e body intent (sv\<lparr>sv_store := st\<rparr>))"

definition submit_current :: "config \<Rightarrow> env \<Rightarrow> ctx \<Rightarrow> bool \<Rightarrow> action_intent \<Rightarrow> server \<Rightarrow> server \<times> submit_reply reply" where
  "submit_current cf e body first intent sv =
     (if action_class (sv_runtime sv) intent \<in> set RISK_REDUCING then submit_stop cf e intent sv
      else submit_ordinary cf e body first intent sv)"

text \<open>A record that is already there is returned as it is, unless it is \<^const>\<open>DELAYED\<close>.\<close>

definition submit_admitted :: "config \<Rightarrow> env \<Rightarrow> ctx \<Rightarrow> action_intent \<Rightarrow> intent_record \<Rightarrow> bool \<Rightarrow> server \<Rightarrow> server \<times> submit_reply reply" where
  "submit_admitted cf e body intent r dup sv =
     (if \<not> dup then submit_current cf e body True intent sv
      else if rec_state r = DELAYED then submit_current cf e body False (rec_intent r) sv
      else (sv, decided (int_id intent) r [] True))"

definition submit_intent_http :: "config \<Rightarrow> env \<Rightarrow> ctx \<Rightarrow> server \<Rightarrow> server \<times> submit_reply reply" where
  "submit_intent_http cf e body sv =
     (case cf_schema_error cf body of
        Some err \<Rightarrow>
          (case read_snapshot_full (ev_snap e 0) sv of (sv1, c, v, pv, trusted) \<Rightarrow>
             if \<not> trusted then (sv1, rejection_of body ''context_store_untrusted'' v False)
             else (sv1, rejection_of body (''schema_invalid:'' @ err) v trusted))
      | None \<Rightarrow>
          (case from_dict (cf_fromiso cf) (ev_uuid e) body of
             Inl err \<Rightarrow>
               (case read_snapshot_full (ev_snap e 0) sv of (sv1, c, v, pv, trusted) \<Rightarrow>
                  (sv1, rejection_of body ''schema_invalid:'' v trusted))
           | Inr intent \<Rightarrow>
               (case admit (ev_mono_s e) False intent (sv_runtime sv) of (rt, r, dup) \<Rightarrow>
                  submit_admitted cf e body intent r dup (sv\<lparr>sv_runtime := rt\<rparr>))))"

section \<open>Reports\<close>

record release_body =
  rb_released :: bool
  rb_reason :: string
  rb_context_version :: "int option"
  rb_read_set_version :: "int option"
  rb_effect_status :: "effect_status option"
  rb_effect_detail :: string

record state_doc =
  so_id :: string
  so_state :: intent_state
  so_outcome :: "decision_outcome option"
  so_release_decision :: "release_decision option"
  so_commit_seq :: "nat option"
  so_effect_status :: "effect_status option"
  so_reason :: string

definition state_doc_of :: "string \<Rightarrow> intent_record \<Rightarrow> state_doc" where
  "state_doc_of i r =
     \<lparr>so_id = i, so_state = rec_state r, so_outcome = rec_outcome r, so_release_decision = rec_release_decision r,
      so_commit_seq = rec_commit_seq r, so_effect_status = rec_effect_status r, so_reason = rec_reason r\<rparr>"

definition reply_of :: "('a \<Rightarrow> 'b) \<Rightarrow> server \<times> (rt_error + 'a) \<Rightarrow> server \<times> 'b reply" where
  "reply_of f p = (case p of (sv, Inl e) \<Rightarrow> (sv, http_error e) | (sv, Inr x) \<Rightarrow> (sv, Ok (f x)))"

definition release_report :: "string \<Rightarrow> bool \<Rightarrow> string \<Rightarrow> int option \<Rightarrow> int option \<Rightarrow> server \<Rightarrow> server \<times> state_doc reply" where
  "release_report i released reason cv rv sv = reply_of (state_doc_of i) (run_rt (report_release i released reason cv rv) sv)"

definition report_effect_http :: "string \<Rightarrow> effect_status \<Rightarrow> string \<Rightarrow> server \<Rightarrow> server \<times> state_doc reply" where
  "report_effect_http i status detail sv = reply_of (state_doc_of i) (run_rt (report_effect i status detail) sv)"

definition report_release_http :: "string \<Rightarrow> release_body \<Rightarrow> server \<Rightarrow> server \<times> state_doc reply" where
  "report_release_http i b sv =
     (case release_report i (rb_released b) (rb_reason b) (rb_context_version b) (rb_read_set_version b) sv of
        (sv1, Ok doc) \<Rightarrow>
          (case rb_effect_status b of
             Some status \<Rightarrow> if so_state doc = RELEASED then report_effect_http i status (rb_effect_detail b) sv1 else (sv1, Ok doc)
           | None \<Rightarrow> (sv1, Ok doc))
      | (sv1, Http sc msg) \<Rightarrow> (sv1, Http sc msg))"

definition report_publication :: "string \<Rightarrow> bool \<Rightarrow> string \<Rightarrow> int option \<Rightarrow> int option \<Rightarrow> server \<Rightarrow> server \<times> state_doc reply" where
  "report_publication i published reason cv rv sv = release_report i published reason cv rv sv"

section \<open>POST /v1/intents/{id}/commit\<close>

definition COMMIT_REASONS :: "commit_status \<Rightarrow> string" where
  "COMMIT_REASONS s =
     (case s of
        Committed \<Rightarrow> ''authorization_committed''
      | Changed \<Rightarrow> ''read_set_version_changed_at_commit''
      | Expired \<Rightarrow> ''age_bound_exceeded_at_commit''
      | Duplicate \<Rightarrow> ''duplicate_commit_already_logged''
      | FutureSkew \<Rightarrow> ''decision_ahead_of_store_clock_at_commit''
      | Unavailable \<Rightarrow> ''context_untrusted_at_commit'')"

record commit_doc =
  cd_committed :: bool
  cd_status :: commit_status
  cd_record :: intent_record
  cd_expected :: int
  cd_result :: "commit_result option"

definition commit_request :: "temporal_validator \<Rightarrow> bool \<Rightarrow> rat \<Rightarrow> intent_record \<Rightarrow> commit_args" where
  "commit_request tv truth_scope margin r =
     (let intent = rec_intent r; p = payload intent; scope = (if truth_scope then ''truth'' else ''readset'');
          bound = release_bound_ms intent - clock_uncertainty_ms tv
      in \<lparr>ca_id = int_id intent,
          ca_paths = (if truth_scope then rec_predicates r else rec_read_set r),
          ca_expected = (if truth_scope then rec_predicate_version r else rec_read_set_version r),
          ca_record = [(''action_type'', JStr (action_type p)), (''target_entity'', JStr (target_entity p)),
             (''parameters'', JObj (parameters p)), (''read_set'', JList (map JStr (rec_read_set r))),
             (''read_set_version'', JInt (rec_read_set_version r)), (''predicates'', JList (map JStr (rec_predicates r))),
             (''predicate_version'', JInt (rec_predicate_version r)), (''scope'', JStr scope),
             (''decision_epoch_ms'', JFloat (Fin (decision_epoch_ms intent))), (''release_bound_ms'', JFloat (Fin bound))],
          ca_decision = decision_epoch_ms intent, ca_bound = Some (bound - margin),
          ca_max_ahead = Some (clock_uncertainty_ms tv), ca_scope = scope\<rparr>)"

text \<open>The request model accepts finite margins that are not negative; the type of \<^term>\<open>margin\<close> has only finite ones.\<close>

definition commit_http :: "config \<Rightarrow> env \<Rightarrow> string \<Rightarrow> bool \<Rightarrow> rat \<Rightarrow> server \<Rightarrow> server \<times> commit_doc reply" where
  "commit_http cf e i truth_scope margin sv =
     (let rt = sv_runtime sv; tv = rt_temporal rt
      in if margin < 0 then (sv, Http 422 ''margin_ms'')
         else case get_record (rt_lifecycle rt) i of
           None \<Rightarrow> (sv, Http 404 ''intent not found'')
         | Some r \<Rightarrow>
             if rec_state r \<noteq> AUTHORIZED then (sv, Http 409 i)
             else
               (case validate_release tv (rec_intent r) (ev_now_s e * 1000) of (skew_ok, skew_reason) \<Rightarrow>
                  if \<not> skew_ok \<and> starts_with skew_reason ''future_skew'' then
                    (case run_rt (record_commit i False (skew_reason @ ''_at_commit'') None) sv of
                       (sv1, Inl err) \<Rightarrow> (sv1, http_error err)
                     | (sv1, Inr f) \<Rightarrow> (sv1, Ok \<lparr>cd_committed = False, cd_status = FutureSkew, cd_record = f,
                                                  cd_expected = rec_read_set_version r, cd_result = None\<rparr>))
                  else
                    (case Store.commit_authorization (cf_cj cf) (ev_now_s e) (commit_request tv truth_scope margin r) (ev_commit e) (sv_store sv) of
                       (st, res) \<Rightarrow>
                         let committed = (cr_status res = Committed \<or> cr_status res = Duplicate);
                             reason = (if truth_scope \<and> cr_status res = Changed then ''predicate_truth_changed_at_commit''
                                       else COMMIT_REASONS (cr_status res))
                         in case run_rt (record_commit i committed reason (if committed then cr_seq res else None)) (sv\<lparr>sv_store := st\<rparr>) of
                              (sv1, Inl err) \<Rightarrow> (sv1, http_error err)
                            | (sv1, Inr f) \<Rightarrow> (sv1, Ok \<lparr>cd_committed = committed, cd_status = cr_status res, cd_record = f,
                                                         cd_expected = rec_read_set_version r, cd_result = Some res\<rparr>))))"

section \<open>The other handlers\<close>

record withheld_doc =
  wd_state :: intent_state
  wd_duplicate :: bool

definition tombstone :: "string \<Rightarrow> string \<Rightarrow> ctx" where
  "tombstone i reason = [(''intent_id'', JStr i), (''withheld'', JBool True), (''reason'', JStr reason)]"

definition report_withheld :: "env \<Rightarrow> string \<Rightarrow> string \<Rightarrow> server \<Rightarrow> server \<times> withheld_doc reply" where
  "report_withheld e i reason sv =
     (case get_record (rt_lifecycle (sv_runtime sv)) i of
        None \<Rightarrow> (sv, Http 404 ''intent not found'')
      | Some r \<Rightarrow>
          if rec_state r = WITHHELD \<and> rec_commit_seq r \<noteq> None then (sv, Ok \<lparr>wd_state = rec_state r, wd_duplicate = True\<rparr>)
          else if rec_state r \<noteq> COMMITTED then (sv, Http 409 i)
          else (case append_actuation (tombstone i reason) (ev_append e) (sv_store sv) of
                  (st, None) \<Rightarrow> (sv\<lparr>sv_store := st\<rparr>, Http 500 ''context store unavailable'')
                | (st, Some _) \<Rightarrow>
                    (case run_rt (report_release i False reason None None) (sv\<lparr>sv_store := st\<rparr>) of
                       (sv1, Inl err) \<Rightarrow> (sv1, Http 500 i)
                     | (sv1, Inr f) \<Rightarrow> (sv1, Ok \<lparr>wd_state = rec_state f, wd_duplicate = False\<rparr>))))"

definition list_actuations :: "env \<Rightarrow> int \<Rightarrow> server \<Rightarrow> server \<times> ctx list reply" where
  "list_actuations e start sv =
     (case actuation_log start (ev_log e) (sv_store sv) of (st, recs) \<Rightarrow> (sv\<lparr>sv_store := st\<rparr>, Ok recs))"

definition get_intent :: "string \<Rightarrow> server \<Rightarrow> (state_doc \<times> int) reply" where
  "get_intent i sv =
     (case get_record (rt_lifecycle (sv_runtime sv)) i of
        None \<Rightarrow> Http 404 ''intent not found''
      | Some r \<Rightarrow> Ok (state_doc_of i r, rec_context_version r))"

definition revoke_intent :: "string \<Rightarrow> server \<Rightarrow> server \<times> intent_state reply" where
  "revoke_intent i sv = reply_of rec_state (run_rt (supervisory_revoke i ''human_supervisory_revoke'') sv)"

definition policy_doc :: "runtime \<Rightarrow> policy_tables" where
  "policy_doc rt = (rt_policy rt, rt_action_classes rt, rt_class_policy rt)"

definition get_policy :: "server \<Rightarrow> policy_tables" where
  "get_policy sv = policy_doc (sv_runtime sv)"

text \<open>\<^verbatim>\<open>hmac.compare_digest\<close> decides equality.\<close>

definition put_policy :: "config \<Rightarrow> ctx \<Rightarrow> string option \<Rightarrow> server \<Rightarrow> server \<times> policy_tables reply" where
  "put_policy cf body auth sv =
     (if (\<exists>token \<in> set_option (cf_policy_token cf). token \<noteq> [] \<and> (case auth of None \<Rightarrow> [] | Some s \<Rightarrow> s) \<noteq> ''Bearer '' @ token)
      then (sv, Http 401 ''policy changes require the operator token'')
      else case run_rt (set_policy body) sv of
             (sv1, Inl (RtValueError m)) \<Rightarrow> (sv1, Http 422 m)
           | (sv1, Inl err) \<Rightarrow> (sv1, http_error err)
           | (sv1, Inr acts) \<Rightarrow> (sv1, Ok (get_policy sv1)))"

text \<open>The replication counters are reported when a policy engine is configured.\<close>

definition metrics_http :: "config \<Rightarrow> server \<Rightarrow> metrics_report \<times> (nat \<times> nat) option" where
  "metrics_http cf sv =
     (get_metrics (sv_runtime sv), if cf_opa cf then Some (sv_opa_replications sv, sv_opa_errors sv) else None)"

record snapshot_doc =
  sd_snap :: snap
  sd_trusted :: bool
  sd_intent_state :: "intent_state option"

definition get_context_snapshot :: "env \<Rightarrow> string list option \<Rightarrow> string option \<Rightarrow> server \<Rightarrow> server \<times> snapshot_doc" where
  "get_context_snapshot e predicates intent_id sv =
     (let (sv1, doc, trusted) =
        (case predicates of
           Some exprs \<Rightarrow>
             (case snapshot_with_predicates exprs (ev_snap e 0) (sv_store sv) of (st, s, trusted) \<Rightarrow>
                let sv1 = sv\<lparr>sv_store := st\<rparr>
                in ((if trusted \<and> st_layout st \<noteq> Shard
                     then on_runtime (\<lambda>rt. fst (install_context_snapshot (sn_context s) (sn_version s) True rt)) sv1 else sv1), s, trusted))
         | None \<Rightarrow>
             (case read_snapshot_full (ev_snap e 0) sv of (sv1, c, v, pv, trusted) \<Rightarrow>
                (sv1, \<lparr>sn_context = c, sn_version = v, sn_pv = pv, sn_preds = sn_preds (st_snap (sv_store sv1))\<rparr>, trusted)))
      in (sv1, \<lparr>sd_snap = doc, sd_trusted = trusted,
                sd_intent_state = (case intent_id of None \<Rightarrow> None
                   | Some i \<Rightarrow> map_option rec_state (get_record (rt_lifecycle (sv_runtime sv1)) i))\<rparr>))"

definition post_context_snapshot :: "config \<Rightarrow> env \<Rightarrow> ctx \<Rightarrow> server \<Rightarrow> server \<times> int \<times> bool" where
  "post_context_snapshot cf e body sv =
     update_context_store cf (ev_now_s e) (ev_opa_ok e) body (ev_update e 0) (ev_snap e 0) sv"

end
