(* ===== verification/Consumer.thy ===== *)
theory Consumer
  imports Store Runtime
begin

text \<open>
  \<^verbatim>\<open>xair/adapters/actuation_consumer.py\<close>: the consumer of the committed actuation log (a transactional outbox)
  and the two actuators it drives. A poll reads the durable offset and the log after it, applies each
  authorizing record, and moves the offset; it can end in an exception between any two records, after the
  effect and before the offset moves.

  The consumer calls its actuator through one method; the locale \<^verbatim>\<open>actuator\<close> states what it relies on, and both
  classes of the program are interpretations of it.
\<close>

section \<open>Actuators\<close>

text \<open>\<^verbatim>\<open>record["intent_id"]\<close>, a string in every record of the log; \<^const>\<open>None\<close> is \<^verbatim>\<open>KeyError\<close>.\<close>

definition record_id :: "ctx \<Rightarrow> string option" where
  "record_id r = (case map_of r ''intent_id'' of Some (JStr i) \<Rightarrow> Some i | _ \<Rightarrow> None)"

record idempotent_actuator =
  ia_effects :: "string list"
  ia_done :: "string set"
  ia_suppressed :: nat

definition new_actuator :: idempotent_actuator where
  "new_actuator = \<lparr>ia_effects = [], ia_done = {}, ia_suppressed = 0\<rparr>"

definition ia_apply :: "ctx \<Rightarrow> idempotent_actuator \<Rightarrow> (idempotent_actuator \<times> bool) option" where
  "ia_apply r a =
     (case record_id r of
        None \<Rightarrow> None
      | Some i \<Rightarrow>
          if i \<in> ia_done a then Some (a\<lparr>ia_suppressed := ia_suppressed a + 1\<rparr>, False)
          else Some (a\<lparr>ia_done := insert i (ia_done a), ia_effects := ia_effects a @ [i]\<rparr>, True))"

text \<open>The tables \<^verbatim>\<open>done\<close> (with its primary key) and \<^verbatim>\<open>attempts\<close>; one call is one transaction.\<close>

record sqlite_actuator =
  sq_done :: "(string, rat) dict"
  sq_attempts :: "(string \<times> rat) list"
  sq_suppressed :: nat

definition new_sqlite :: sqlite_actuator where
  "new_sqlite = \<lparr>sq_done = [], sq_attempts = [], sq_suppressed = 0\<rparr>"

definition insert_or_ignore :: "string \<Rightarrow> rat \<Rightarrow> (string, rat) dict \<Rightarrow> (string, rat) dict \<times> nat" where
  "insert_or_ignore i t rows = (if map_of rows i = None then (rows @ [(i, t)], 1) else (rows, 0))"

definition sq_apply :: "rat \<Rightarrow> ctx \<Rightarrow> sqlite_actuator \<Rightarrow> (sqlite_actuator \<times> bool) option" where
  "sq_apply now r a =
     (case record_id r of
        None \<Rightarrow> None
      | Some i \<Rightarrow>
          (case insert_or_ignore i now (sq_done a) of (rows, rowcount) \<Rightarrow>
             let a' = a\<lparr>sq_attempts := sq_attempts a @ [(i, now)], sq_done := rows\<rparr>
             in if rowcount = 0 then Some (a'\<lparr>sq_suppressed := sq_suppressed a' + 1\<rparr>, False) else Some (a', True)))"

section \<open>The consumer\<close>

record 'a consumer =
  co_store :: store
  co_actuator :: 'a
  co_applied :: "ctx list"
  co_invalidated :: "string list"
  co_withheld :: "string list"
  co_late :: "string list"

definition new_consumer :: "store \<Rightarrow> 'a \<Rightarrow> 'a consumer" where
  "new_consumer st a = \<lparr>co_store = st, co_actuator = a, co_applied = [], co_invalidated = [], co_withheld = [], co_late = []\<rparr>"

record poll_env =
  pe_offset :: "string option io"
  pe_log :: "ctx list io"
  pe_snap :: "nat \<Rightarrow> (redis_view \<times> string list) io"
  pe_set :: "nat \<Rightarrow> unit io"
  pe_now_s :: "nat \<Rightarrow> rat"
  pe_apply_s :: "nat \<Rightarrow> rat"
  pe_mono_ms :: "nat \<Rightarrow> rat"
  pe_crash :: "nat \<Rightarrow> bool"

datatype poll_result = Polled nat | Crashed | PollError string

definition offset_key :: "string \<Rightarrow> string" where
  "offset_key name = ''xair:consumer:'' @ name @ '':offset''"

text \<open>\<^verbatim>\<open>int(s)\<close> of a text; \<^const>\<open>None\<close> is \<^verbatim>\<open>ValueError\<close>.\<close>

definition py_int_text :: "string \<Rightarrow> int option" where
  "py_int_text s =
     (let t = strip s; neg = starts_with t ''-''; u = (if neg \<or> starts_with t ''+'' then drop 1 t else t);
          (ds, rest) = digitpart u
      in if ds \<noteq> [] \<and> rest = [] then Some ((if neg then - 1 else 1) * int (nat_of_digits ds)) else None)"

definition parse_offset :: "string option \<Rightarrow> int option" where
  "parse_offset raw = (case raw of None \<Rightarrow> Some 0 | Some s \<Rightarrow> if s = [] then Some 0 else py_int_text s)"

text \<open>\<^verbatim>\<open>record.get(k) or []\<close>, a list of texts.\<close>

definition texts_of :: "ctx \<Rightarrow> string \<Rightarrow> string list" where
  "texts_of r k = (case doc_get r k of JList xs \<Rightarrow> concat (map (\<lambda>x. case x of JStr s \<Rightarrow> [s] | _ \<Rightarrow> []) xs) | _ \<Rightarrow> [])"

definition is_truth_scope :: "ctx \<Rightarrow> bool" where
  "is_truth_scope r = (doc_get r ''scope'' = JStr ''truth'')"

text \<open>Tombstones and other entries without a command.\<close>

definition is_command :: "ctx \<Rightarrow> bool" where
  "is_command r = (falsy (doc_get r ''withheld'') \<and> map_of r ''commit_version'' \<noteq> None)"

definition current_version :: "ctx \<Rightarrow> snap \<Rightarrow> int" where
  "current_version r s =
     (if is_truth_scope r then predicate_version (sn_preds s) (texts_of r ''predicates'')
      else read_set_version (sn_pv s) (texts_of r ''read_set''))"

definition version_moved :: "ctx \<Rightarrow> snap \<Rightarrow> bool \<Rightarrow> bool" where
  "version_moved r s trusted =
     (\<not> trusted \<or> \<not> py_eq (JInt (current_version r s))
        (doc_get r (if is_truth_scope r then ''predicate_version'' else ''read_set_version'')))"

definition flt_diff :: "rat \<Rightarrow> pyfloat \<Rightarrow> pyfloat" where
  "flt_diff x f = (case f of Fin y \<Rightarrow> Fin (x - y) | PosInf \<Rightarrow> NegInf | NegInf \<Rightarrow> PosInf | NaN \<Rightarrow> NaN)"

text \<open>Whether the decision is past its release bound; \<^const>\<open>None\<close> is an exception of \<^verbatim>\<open>float\<close>.\<close>

definition past_bound :: "rat \<Rightarrow> ctx \<Rightarrow> bool option" where
  "past_bound now_s r =
     (let d = doc_get r ''decision_epoch_ms''; b = doc_get r ''release_bound_ms''
      in if d = JNull \<or> b = JNull then Some False
         else case (param_float d, param_float b) of
                (Some fd, Some fb) \<Rightarrow> Some (flt_lt fb (flt_diff (now_s * 1000) fd))
              | _ \<Rightarrow> None)"

text \<open>Applying one authorizing record: everything of the loop body before the hook. \<^const>\<open>None\<close> is an exception.\<close>

definition consume :: "(rat \<Rightarrow> ctx \<Rightarrow> 'a \<Rightarrow> ('a \<times> bool) option) \<Rightarrow> bool \<Rightarrow> poll_env \<Rightarrow> nat \<Rightarrow> ctx \<Rightarrow> 'a consumer \<Rightarrow> 'a consumer \<times> unit option" where
  "consume app recheck e k r c =
     (case snapshot_with_predicates (if is_truth_scope r then texts_of r ''predicates'' else []) (pe_snap e k) (co_store c) of
        (st, s, trusted) \<Rightarrow>
          let c1 = c\<lparr>co_store := st\<rparr>; moved = version_moved r s trusted
          in case (past_bound (pe_now_s e k) r, record_id r) of
               (Some late, Some i) \<Rightarrow>
                 let c2 = c1\<lparr>co_invalidated := co_invalidated c1 @ (if moved then [i] else []),
                             co_late := co_late c1 @ (if late then [i] else [])\<rparr>
                 in if (moved \<or> late) \<and> recheck then (c2\<lparr>co_withheld := co_withheld c2 @ [i]\<rparr>, Some ())
                    else (case app (pe_apply_s e k) r (co_actuator c2) of
                            None \<Rightarrow> (c2, None)
                          | Some (a, applied) \<Rightarrow>
                              (c2\<lparr>co_actuator := a,
                                  co_applied := co_applied c2 @ (if applied then [dict_set ''t_apply_mono_ms'' (JFloat (Fin (pe_mono_ms e k))) r] else [])\<rparr>,
                               Some ()))
             | _ \<Rightarrow> (c1, None))"

definition move_offset :: "string \<Rightarrow> poll_env \<Rightarrow> nat \<Rightarrow> int \<Rightarrow> 'a consumer \<Rightarrow> 'a consumer \<times> unit option" where
  "move_offset name e k pos c =
     (case kv_set (offset_key name) (show_int pos) (pe_set e k) (co_store c) of (st, res) \<Rightarrow> (c\<lparr>co_store := st\<rparr>, res))"

fun poll_from :: "(rat \<Rightarrow> ctx \<Rightarrow> 'a \<Rightarrow> ('a \<times> bool) option) \<Rightarrow> bool \<Rightarrow> string \<Rightarrow> poll_env \<Rightarrow> int \<Rightarrow> nat \<Rightarrow> ctx list \<Rightarrow> 'a consumer \<Rightarrow> 'a consumer \<times> poll_result" where
  "poll_from app recheck name e start k [] c = (c, Polled k)"
| "poll_from app recheck name e start k (r # rs) c =
     (case (if is_command r then consume app recheck e k r c else (c, Some ())) of
        (c1, None) \<Rightarrow> (c1, PollError ''record'')
      | (c1, Some _) \<Rightarrow>
          if is_command r \<and> pe_crash e k then (c1, Crashed)
          else (case move_offset name e k (start + int k + 1) c1 of
                  (c2, None) \<Rightarrow> (c2, PollError ''offset'')
                | (c2, Some _) \<Rightarrow> poll_from app recheck name e start (Suc k) rs c2))"

definition poll :: "(rat \<Rightarrow> ctx \<Rightarrow> 'a \<Rightarrow> ('a \<times> bool) option) \<Rightarrow> bool \<Rightarrow> string \<Rightarrow> poll_env \<Rightarrow> 'a consumer \<Rightarrow> 'a consumer \<times> poll_result" where
  "poll app recheck name e c =
     (case kv_get (offset_key name) (pe_offset e) (co_store c) of
        (st, None) \<Rightarrow> (c\<lparr>co_store := st\<rparr>, PollError ''offset'')
      | (st, Some raw) \<Rightarrow>
          (case parse_offset raw of
             None \<Rightarrow> (c\<lparr>co_store := st\<rparr>, PollError ''offset'')
           | Some start \<Rightarrow>
               (case actuation_log start (pe_log e) st of (st1, recs) \<Rightarrow>
                  poll_from app recheck name e start 0 recs (c\<lparr>co_store := st1\<rparr>))))"

section \<open>Offsets as text\<close>

lemma digit_not_space: "is_digit c \<Longrightarrow> \<not> is_space c"
  by (auto simp: is_digit_def is_space_def)

lemma digitpart_digits: "\<forall>c \<in> set s. is_digit c \<Longrightarrow> digitpart s = (s, [])"
proof (induction s)
  case (Cons c s)
  have "\<not> is_digit CHR ''_''" by code_simp
  then have "(case s of u # d # _ \<Rightarrow> if u = CHR ''_'' \<and> is_digit d then tl s else s | _ \<Rightarrow> s) = s"
    using Cons.prems by (auto split: list.splits)
  then show ?case using Cons by (subst digitpart.simps) simp
qed (simp add: digitpart.simps)

lemma strip_digits:
  assumes "\<forall>c \<in> set s. is_digit c"
  shows "strip s = s"
proof -
  have "dropWhile is_space t = t" if "\<forall>c \<in> set t. is_digit c" for t
    using that by (cases t) (auto simp: digit_not_space)
  then show ?thesis using assms by (simp add: strip_def)
qed

lemma py_int_text_show [simp]: "py_int_text (show_nat n) = Some (int n)"
proof -
  have d: "\<forall>c \<in> set (show_nat n). is_digit c" by (rule show_nat_digits)
  have "\<not> starts_with (show_nat n) ''-''" "\<not> starts_with (show_nat n) ''+''"
    using d by (auto simp: prefix_def is_digit_def code_def)
  then show ?thesis using d by (simp add: py_int_text_def strip_digits digitpart_digits)
qed

lemma parse_offset_show [simp]: "parse_offset (Some (show_int (int n))) = Some (int n)"
  by (simp add: parse_offset_def show_int_def)

section \<open>Polling a store in memory\<close>

definition in_memory :: "poll_env \<Rightarrow> bool" where
  "in_memory e \<longleftrightarrow> unreachable (pe_offset e) \<and> unreachable (pe_log e) \<and> (\<forall>k. unreachable (pe_snap e k) \<and> unreachable (pe_set e k))"

definition durable_offset :: "string \<Rightarrow> store \<Rightarrow> int option" where
  "durable_offset name st = parse_offset (map_of (st_kv st) (offset_key name))"

text \<open>The ids of the commands in a log, in commit order; a log entry the consumer can process.\<close>

definition command_ids :: "ctx list \<Rightarrow> string list" where
  "command_ids rs = concat (map (\<lambda>r. case record_id r of Some i \<Rightarrow> [i] | None \<Rightarrow> []) (filter is_command rs))"

definition entry_ok :: "ctx \<Rightarrow> bool" where
  "entry_ok r \<longleftrightarrow> (is_command r \<longrightarrow> record_id r \<noteq> None \<and> past_bound 0 r \<noteq> None)"

lemma past_bound_defined: "past_bound x r = None \<longleftrightarrow> past_bound y r = None"
  by (auto simp: past_bound_def Let_def split: option.splits)

lemma unique_snoc: "unique (xs @ [x]) = (if x \<in> set xs then unique xs else unique xs @ [x])"
  by (simp add: unique_def)

lemma set_unique [simp]: "set (unique xs) = set xs"
  by (simp add: unique_def)

lemma unique_idem: "distinct xs \<Longrightarrow> unique xs = xs"
  by (simp add: unique_def distinct_remdups_id)

lemma command_ids_snoc:
  "command_ids (rs @ [r]) = command_ids rs @ (if is_command r then (case record_id r of Some i \<Rightarrow> [i] | None \<Rightarrow> []) else [])"
  by (simp add: command_ids_def)

lemma command_ids_mem: "r \<in> set rs \<Longrightarrow> is_command r \<Longrightarrow> record_id r = Some i \<Longrightarrow> i \<in> set (command_ids rs)"
  by (force simp: command_ids_def)

lemma snapshot_memory:
  assumes "unreachable io"
  shows "fst (snapshot_with_predicates es io st) = set_available False st"
  using assms by (simp add: snapshot_with_predicates_def snapshot_full_def redis_first_unreachable set_available_def)

lemma move_offset_memory:
  assumes "unreachable (pe_set e k)" "\<not> st_required (co_store c)"
  shows "move_offset name e k pos c =
    (c\<lparr>co_store := (co_store c)\<lparr>st_available := False, st_kv := dict_set (offset_key name) (show_int pos) (st_kv (co_store c))\<rparr>\<rparr>, Some ())"
  using assms by (simp add: move_offset_def kv_set_def redis_first_unreachable set_available_def)

section \<open>The interface of an actuator\<close>

locale actuator =
  fixes app :: "rat \<Rightarrow> ctx \<Rightarrow> 'a \<Rightarrow> ('a \<times> bool) option"
    and effects :: "'a \<Rightarrow> string list"
    and ok :: "'a \<Rightarrow> bool"
  assumes app_none: "record_id r = None \<Longrightarrow> app t r a = None"
    and app_some: "record_id r = Some i \<Longrightarrow> ok a \<Longrightarrow>
      \<exists>a'. app t r a = Some (a', i \<notin> set (effects a)) \<and> ok a' \<and>
           effects a' = (if i \<in> set (effects a) then effects a else effects a @ [i])"
begin

lemma consume_effects:
  assumes "ok (co_actuator c)" "consume app recheck e k r c = (c', res)"
  shows "ok (co_actuator c') \<and>
    (co_actuator c' = co_actuator c \<or>
     (\<exists>i. record_id r = Some i \<and> effects (co_actuator c') =
        (if i \<in> set (effects (co_actuator c)) then effects (co_actuator c) else effects (co_actuator c) @ [i])))"
proof (cases "record_id r")
  case None
  then show ?thesis using assms by (auto simp: consume_def Let_def split: prod.splits option.splits)
next
  case (Some i)
  from app_some [OF this assms(1), of "pe_apply_s e k"] show ?thesis using assms Some
    by (auto simp: consume_def Let_def split: prod.splits option.splits if_splits)
qed

lemma move_offset_actuator [simp]: "co_actuator (fst (move_offset name e k pos c)) = co_actuator c"
  by (simp add: move_offset_def split: prod.splits)

lemma poll_from_distinct:
  "ok (co_actuator c) \<Longrightarrow> distinct (effects (co_actuator c)) \<Longrightarrow>
   ok (co_actuator (fst (poll_from app recheck name e start k rs c))) \<and>
   distinct (effects (co_actuator (fst (poll_from app recheck name e start k rs c))))"
proof (induction rs arbitrary: k c)
  case (Cons r rs)
  obtain c1 res where c1: "(if is_command r then consume app recheck e k r c else (c, Some ())) = (c1, res)" by fastforce
  have ok1: "ok (co_actuator c1) \<and> distinct (effects (co_actuator c1))"
    using c1 Cons.prems consume_effects [of c recheck e k r c1 res] by (auto split: if_splits)
  obtain c2 res2 where c2: "move_offset name e k (start + int k + 1) c1 = (c2, res2)" by fastforce
  have "co_actuator c2 = co_actuator c1" using c2 move_offset_actuator [of name e k "start + int k + 1" c1] by simp
  then show ?case using ok1 c1 c2 Cons.IH [of c2 "Suc k"] by (simp split: option.splits)
qed simp

lemma poll_distinct:
  "ok (co_actuator c) \<Longrightarrow> distinct (effects (co_actuator c)) \<Longrightarrow>
   ok (co_actuator (fst (poll app recheck name e c))) \<and>
   distinct (effects (co_actuator (fst (poll app recheck name e c))))"
  by (simp add: poll_def poll_from_distinct split: prod.splits option.splits)

text \<open>One record of a log in memory, with the recheck off.\<close>

lemma consume_memory:
  assumes ok: "ok (co_actuator c)" and u: "unreachable (pe_snap e k)"
    and r: "record_id r = Some i" "past_bound 0 r \<noteq> None"
  shows "\<exists>c'. consume app False e k r c = (c', Some ()) \<and> co_store c' = set_available False (co_store c) \<and>
     ok (co_actuator c') \<and>
     effects (co_actuator c') = (if i \<in> set (effects (co_actuator c)) then effects (co_actuator c) else effects (co_actuator c) @ [i])"
proof -
  obtain a' where a: "app (pe_apply_s e k) r (co_actuator c) = Some (a', i \<notin> set (effects (co_actuator c)))" "ok a'"
    "effects a' = (if i \<in> set (effects (co_actuator c)) then effects (co_actuator c) else effects (co_actuator c) @ [i])"
    using app_some [OF r(1) ok, of "pe_apply_s e k"] by blast
  obtain late where late: "past_bound (pe_now_s e k) r = Some late" using r(2) past_bound_defined [of 0 r "pe_now_s e k"] by auto
  obtain st s t where sn: "snapshot_with_predicates (if is_truth_scope r then texts_of r ''predicates'' else []) (pe_snap e k) (co_store c) = (st, s, t)"
    by (metis prod_cases3)
  have "st = set_available False (co_store c)"
    using snapshot_memory [OF u, of "if is_truth_scope r then texts_of r ''predicates'' else []" "co_store c"] sn by simp
  then show ?thesis using a late sn r(1) by (simp add: consume_def Let_def)
qed

text \<open>How far the effects have got: \<^term>\<open>n\<close> records of the log, never fewer than the durable offset says.\<close>

definition reached :: "string \<Rightarrow> ctx list \<Rightarrow> nat \<Rightarrow> 'a consumer \<Rightarrow> bool" where
  "reached name lg n c \<longleftrightarrow>
     \<not> st_required (co_store c) \<and> st_actuations (co_store c) = lg \<and> n \<le> length lg \<and> ok (co_actuator c) \<and>
     effects (co_actuator c) = unique (command_ids (take n lg)) \<and>
     (\<exists>m. m \<le> n \<and> durable_offset name (co_store c) = Some (int m))"

lemma reached_consume:
  assumes "reached name lg n c" "in_memory e" "list_all entry_ok lg" "p < length lg" "p \<le> n" "is_command (lg ! p)"
  shows "\<exists>c'. consume app False e k (lg ! p) c = (c', Some ()) \<and> reached name lg (max n (Suc p)) c'"
proof -
  let ?r = "lg ! p"
  have "entry_ok ?r" using assms(3,4) by (simp add: list_all_length)
  then obtain i where r: "record_id ?r = Some i" "past_bound 0 ?r \<noteq> None" using assms(6) by (auto simp: entry_ok_def)
  have "unreachable (pe_snap e k)" "ok (co_actuator c)" using assms(1,2) by (auto simp: in_memory_def reached_def)
  then obtain c' where c': "consume app False e k ?r c = (c', Some ())" "co_store c' = set_available False (co_store c)"
    "ok (co_actuator c')"
    "effects (co_actuator c') = (if i \<in> set (effects (co_actuator c)) then effects (co_actuator c) else effects (co_actuator c) @ [i])"
    using consume_memory r by blast
  have "effects (co_actuator c') = unique (command_ids (take (max n (Suc p)) lg))"
  proof (cases "p < n")
    case True
    then have "i \<in> set (command_ids (take n lg))"
      using r(1) assms(4,6) by (intro command_ids_mem [of ?r]) (auto simp: in_set_conv_nth)
    moreover have "max n (Suc p) = n" using True by simp
    ultimately show ?thesis using c'(4) assms(1) by (simp add: reached_def)
  next
    case False
    then have "command_ids (take (Suc n) lg) = command_ids (take n lg) @ [i]" "p = n"
      using assms(4-6) r(1) by (auto simp: take_Suc_conv_app_nth command_ids_snoc)
    then show ?thesis using c'(4) assms(1) by (simp add: reached_def max_def unique_snoc)
  qed
  then show ?thesis using c' assms(1,4) by (auto simp: reached_def set_available_def durable_offset_def)
qed

lemma reached_skip:
  assumes "reached name lg n c" "p < length lg" "p \<le> n" "\<not> is_command (lg ! p)"
  shows "reached name lg (max n (Suc p)) c"
proof (cases "p < n")
  case False
  then have "command_ids (take (Suc n) lg) = command_ids (take n lg)" "p = n"
    using assms(2-4) by (auto simp: take_Suc_conv_app_nth command_ids_snoc)
  then show ?thesis using assms(1,2) by (auto simp: reached_def max_def intro: le_SucI)
next
  case True
  then have "max n (Suc p) = n" by simp
  then show ?thesis using assms(1) by simp
qed

lemma reached_offset:
  assumes "reached name lg n c" "in_memory e" "m + Suc k \<le> n"
  shows "\<exists>c'. move_offset name e k (int m + int k + 1) c = (c', Some ()) \<and> reached name lg n c' \<and>
     durable_offset name (co_store c') = Some (int (m + Suc k))"
proof -
  have u: "unreachable (pe_set e k)" "\<not> st_required (co_store c)" using assms by (auto simp: in_memory_def reached_def)
  have eq: "int m + int k + 1 = int (m + Suc k)" by simp
  show ?thesis unfolding move_offset_memory [OF u] eq
    using assms(1,3) by (auto simp: reached_def durable_offset_def simp del: of_nat_add of_nat_Suc)
qed

lemma poll_from_memory:
  assumes "in_memory e" "list_all entry_ok lg"
  shows "reached name lg n c \<Longrightarrow> m + k \<le> n \<Longrightarrow> rs = drop (m + k) lg \<Longrightarrow>
    k = 0 \<or> durable_offset name (co_store c) = Some (int (m + k)) \<Longrightarrow>
    \<exists>n' c' res. poll_from app False name e (int m) k rs c = (c', res) \<and> n \<le> n' \<and> reached name lg n' c' \<and>
      (res = Crashed \<or> (\<exists>j. res = Polled j) \<and> n' = length lg)"
proof (induction rs arbitrary: k n c)
  case Nil
  then have "n = length lg" by (simp add: reached_def)
  then show ?case using Nil by auto
next
  case (Cons r rs)
  have p: "m + k < length lg" "r = lg ! (m + k)" "rs = drop (m + Suc k) lg"
    using Cons.prems(3) by (metis drop_all list.distinct(1) linorder_not_le,
      metis nth_via_drop, metis add_Suc_right drop_Suc list.sel(3) tl_drop)
  let ?n = "max n (Suc (m + k))"
  obtain c1 where c1: "(if is_command r then consume app False e k r c else (c, Some ())) = (c1, Some ())" "reached name lg ?n c1"
    using reached_consume [OF Cons.prems(1) assms p(1) Cons.prems(2)] reached_skip [OF Cons.prems(1) p(1) Cons.prems(2)] p(2)
    by (cases "is_command r") auto
  show ?case
  proof (cases "is_command r \<and> pe_crash e k")
    case True
    then show ?thesis using c1 by (intro exI [of _ ?n]) auto
  next
    case False
    obtain c2 where c2: "move_offset name e k (int m + int k + 1) c1 = (c2, Some ())" "reached name lg ?n c2"
      "durable_offset name (co_store c2) = Some (int (m + Suc k))"
      using reached_offset [OF c1(2) assms(1), of m k] by auto
    have "poll_from app False name e (int m) k (r # rs) c = poll_from app False name e (int m) (Suc k) rs c2"
      using c1(1) c2(1) False by auto
    moreover obtain n' c' res where "poll_from app False name e (int m) (Suc k) rs c2 = (c', res)" "?n \<le> n'"
      "reached name lg n' c'" "res = Crashed \<or> (\<exists>j. res = Polled j) \<and> n' = length lg"
      using Cons.IH [OF c2(2) _ p(3)] c2(3) by auto
    ultimately show ?thesis by (intro exI [of _ n'] exI [of _ c'] exI [of _ res]) simp
  qed
qed

lemma poll_memory:
  assumes "in_memory e" "list_all entry_ok lg" "reached name lg n c"
  shows "\<exists>n' c' res. poll app False name e c = (c', res) \<and> n \<le> n' \<and> reached name lg n' c' \<and>
      (res = Crashed \<or> (\<exists>j. res = Polled j) \<and> n' = length lg)"
proof -
  obtain m where m: "m \<le> n" "durable_offset name (co_store c) = Some (int m)" using assms(3) by (auto simp: reached_def)
  let ?c = "c\<lparr>co_store := set_available False (co_store c)\<rparr>"
  have g: "kv_get (offset_key name) (pe_offset e) (co_store c) =
     (set_available False (co_store c), Some (map_of (st_kv (co_store c)) (offset_key name)))"
    using assms by (simp add: kv_get_def redis_first_unreachable in_memory_def reached_def set_available_def)
  have l: "actuation_log (int m) (pe_log e) (set_available False (co_store c)) = (set_available False (co_store c), drop m lg)"
    using assms by (simp add: actuation_log_def redis_first_unreachable in_memory_def reached_def set_available_def slice_from_def)
  have "poll app False name e c = poll_from app False name e (int m) 0 (drop m lg) ?c"
    using g l m(2) by (simp add: poll_def durable_offset_def)
  moreover have "reached name lg n ?c" using assms(3) by (auto simp: reached_def set_available_def durable_offset_def)
  ultimately show ?thesis using poll_from_memory [OF assms(1,2), of name n ?c m 0] m(1) by simp
qed

end

section \<open>The two actuators and runs of a consumer\<close>

interpretation ia: actuator "\<lambda>_. ia_apply" ia_effects "\<lambda>a. ia_done a = set (ia_effects a)"
  by unfold_locales (auto simp: ia_apply_def)

interpretation sq: actuator sq_apply "\<lambda>a. map fst (sq_done a)" "\<lambda>_. True"
  by unfold_locales (auto simp: sq_apply_def insert_or_ignore_def Let_def map_of_eq_None_iff)

text \<open>A history of a consumer and the log it reads: commits append records, polls run, the process restarts.\<close>

datatype consumer_event = Append ctx | Poll poll_env | Restart

fun consumer_step :: "(rat \<Rightarrow> ctx \<Rightarrow> 'a \<Rightarrow> ('a \<times> bool) option) \<Rightarrow> bool \<Rightarrow> string \<Rightarrow> consumer_event \<Rightarrow> 'a consumer \<Rightarrow> 'a consumer" where
  "consumer_step app recheck name (Append r) c = c\<lparr>co_store := fst (append_actuation r NoClient (co_store c))\<rparr>"
| "consumer_step app recheck name (Poll e) c = fst (poll app recheck name e c)"
| "consumer_step app recheck name Restart c = new_consumer (co_store c) (co_actuator c)"

fun event_fits :: "consumer_event \<Rightarrow> bool" where
  "event_fits (Append r) = entry_ok r"
| "event_fits (Poll e) = in_memory e"
| "event_fits Restart = True"

context actuator
begin

lemma run_distinct:
  "ok (co_actuator c) \<Longrightarrow> distinct (effects (co_actuator c)) \<Longrightarrow>
   distinct (effects (co_actuator (fold (consumer_step app recheck name) evs c)))"
proof (induction evs arbitrary: c)
  case (Cons ev evs)
  have "ok (co_actuator (consumer_step app recheck name ev c)) \<and> distinct (effects (co_actuator (consumer_step app recheck name ev c)))"
    using Cons.prems poll_distinct [of c recheck name] by (cases ev) (auto simp: new_consumer_def)
  then show ?case using Cons.IH by simp
qed simp

lemma reached_append:
  assumes "reached name lg n c"
  shows "reached name (lg @ [r]) n (c\<lparr>co_store := fst (append_actuation r NoClient (co_store c))\<rparr>)"
  using assms by (auto simp: reached_def append_actuation_def redis_first_def set_available_def durable_offset_def)

lemma reached_step:
  assumes "reached name lg n c" "list_all entry_ok lg" "event_fits ev"
  shows "\<exists>lg' n'. reached name lg' n' (consumer_step app False name ev c) \<and> list_all entry_ok lg' \<and>
    lg' = lg @ (case ev of Append r \<Rightarrow> [r] | _ \<Rightarrow> [])"
proof (cases ev)
  case (Append r)
  then show ?thesis using reached_append [OF assms(1), of r] assms(2,3) by (intro exI [of _ "lg @ [r]"]) auto
next
  case (Poll e)
  then show ?thesis using poll_memory [of e lg name n c] assms by fastforce
next
  case Restart
  then show ?thesis using assms by (auto simp: reached_def new_consumer_def)
qed

lemma reached_run:
  "reached name lg n c \<Longrightarrow> list_all entry_ok lg \<Longrightarrow> list_all event_fits evs \<Longrightarrow>
   \<exists>lg' n'. reached name lg' n' (fold (consumer_step app False name) evs c) \<and> list_all entry_ok lg'"
proof (induction evs arbitrary: lg n c)
  case (Cons ev evs)
  obtain lg' n' where "reached name lg' n' (consumer_step app False name ev c)" "list_all entry_ok lg'"
    using reached_step [OF Cons.prems(1,2), of ev] Cons.prems(3) by auto
  then show ?case using Cons.IH Cons.prems(3) by simp
qed auto

lemma run_in_order:
  assumes "list_all event_fits evs" "ok a" "effects a = []"
  shows "\<exists>n m. let c = fold (consumer_step app False name) evs (new_consumer (new_store False lay) a);
     lg = st_actuations (co_store c)
     in m \<le> n \<and> n \<le> length lg \<and> durable_offset name (co_store c) = Some (int m) \<and>
        effects (co_actuator c) = unique (command_ids (take n lg)) \<and>
        (\<forall>e. in_memory e \<longrightarrow> snd (poll app False name e c) = Crashed \<or>
           effects (co_actuator (fst (poll app False name e c))) = unique (command_ids lg))"
proof -
  let ?c0 = "new_consumer (new_store False lay) a"
  have "reached name [] 0 ?c0"
    using assms(2,3) by (simp add: reached_def new_consumer_def new_store_def durable_offset_def parse_offset_def unique_def command_ids_def)
  then obtain lg n where r: "reached name lg n (fold (consumer_step app False name) evs ?c0)" "list_all entry_ok lg"
    using reached_run [OF _ _ assms(1)] by fastforce
  let ?c = "fold (consumer_step app False name) evs ?c0"
  have "snd (poll app False name e ?c) = Crashed \<or> effects (co_actuator (fst (poll app False name e ?c))) = unique (command_ids lg)"
    if "in_memory e" for e
    using poll_memory [OF that r(2,1)] by (auto simp: reached_def)
  then show ?thesis using r(1) unfolding Let_def reached_def by blast
qed

end

section \<open>Properties\<close>

text \<open>
  C16: at most one effect. Whatever the store answers, however the polls crash and the consumer restarts, and
  with or without the recheck, both actuators perform the effect of an intent at most once.
\<close>

theorem effects_at_most_once:
  "distinct (ia_effects (co_actuator (fold (consumer_step (\<lambda>_. ia_apply) recheck name) evs (new_consumer st new_actuator)))) \<and>
   distinct (map fst (sq_done (co_actuator (fold (consumer_step sq_apply recheck name) evs (new_consumer st new_sqlite)))))"
  using ia.run_distinct [of "new_consumer st new_actuator"] sq.run_distinct [of "new_consumer st new_sqlite"]
  by (simp add: new_consumer_def new_actuator_def new_sqlite_def)


definition demo_record :: "string \<Rightarrow> ctx" where
  "demo_record i = [(''intent_id'', JStr i), (''commit_version'', JInt 1), (''read_set'', JList []), (''read_set_version'', JInt 0)]"

definition demo_poll :: "nat \<Rightarrow> poll_env" where
  "demo_poll k = \<lparr>pe_offset = NoClient, pe_log = NoClient, pe_snap = (\<lambda>_. NoClient), pe_set = (\<lambda>_. NoClient),
     pe_now_s = (\<lambda>_. 1), pe_apply_s = (\<lambda>_. 1), pe_mono_ms = (\<lambda>_. 1), pe_crash = (\<lambda>j. j = k)\<rparr>"

definition demo_events :: "consumer_event list" where
  "demo_events = [Append (demo_record ''a''), Append (demo_record ''b''), Poll (demo_poll 0), Restart]"


text \<open>
  With the recheck on, a command is applied only if, on the snapshot read for it, its version is the one
  it was committed on and its decision is not past its bound; otherwise its effect is withheld.
\<close>

theorem recheck_guards_effect:
  assumes "consume app True e k r c = (c', Some ())"
    and "snapshot_with_predicates (if is_truth_scope r then texts_of r ''predicates'' else []) (pe_snap e k) (co_store c) = (st, s, trusted)"
  shows "(version_moved r s trusted \<or> past_bound (pe_now_s e k) r = Some True \<longrightarrow>
            co_actuator c' = co_actuator c \<and> co_applied c' = co_applied c \<and>
            (\<exists>i. record_id r = Some i \<and> co_withheld c' = co_withheld c @ [i])) \<and>
         (\<not> version_moved r s trusted \<and> past_bound (pe_now_s e k) r \<noteq> Some True \<longrightarrow>
            (\<exists>a applied. app (pe_apply_s e k) r (co_actuator c) = Some (a, applied) \<and> co_actuator c' = a \<and> co_withheld c' = co_withheld c))"
  using assms by (auto simp: consume_def Let_def split: option.splits prod.splits if_splits)

theorem recheck_guards_effect_witness:
  "co_withheld (fst (consume (\<lambda>_. ia_apply) True (demo_poll 9) 0 (demo_record ''a'') (new_consumer (new_store True Document) new_actuator))) =
     [''a'']"
proof -
  let ?st = "new_store True Document" and ?r = "demo_record ''a''"
  let ?c = "new_consumer ?st new_actuator"
  have "snd (consume (\<lambda>_. ia_apply) True (demo_poll 9) 0 ?r ?c) = Some ()" by code_simp
  then obtain c' where c': "consume (\<lambda>_. ia_apply) True (demo_poll 9) 0 ?r ?c = (c', Some ())" by (metis prod.collapse)
  obtain st s t where s: "snapshot_with_predicates (if is_truth_scope ?r then texts_of ?r ''predicates'' else []) (pe_snap (demo_poll 9) 0) (co_store ?c) = (st, s, t)"
    by (metis prod_cases3)
  have "\<not> snd (snd (snapshot_with_predicates (if is_truth_scope ?r then texts_of ?r ''predicates'' else []) (pe_snap (demo_poll 9) 0) (co_store ?c)))"
    by code_simp
  then have "version_moved ?r s t" using s by (simp add: version_moved_def)
  moreover have "record_id ?r = Some ''a''" by code_simp
  ultimately show ?thesis using recheck_guards_effect [OF c' s] c' by (simp add: new_consumer_def)
qed

end
