(* ===== verification/Cell.thy ===== *)
theory Cell
  imports Context_Store
begin

text \<open>
  \<^verbatim>\<open>scripts/cell_controller.py\<close> and \<^verbatim>\<open>scripts/cell_controller_multi.py\<close>: the emulated cell controller, owner of
  the line state and of the version a conditional command compares. Methods enqueue commands; a scan executes
  the queued commands against the state as it is then, so a check and its effect are one step. The answers of a
  scan are the results of the futures, in order. The OPC UA server, the timers and the HTTP transport of the
  bridge are not modelled: what the bridge posts is the patch its step returns.
\<close>

section \<open>State\<close>

record command =
  cm_id :: string
  cm_expected :: "int option"
  cm_deadline :: "rat option"
  cm_needs_run :: bool

datatype answer = Executed string int | Refused string int

text \<open>\<^verbatim>\<open>ce_disk\<close> is the version in the state file, if there is one; \<^verbatim>\<open>ce_persist\<close> says that one is configured.\<close>

record cell =
  ce_state :: string
  ce_version :: int
  ce_conveyor :: string
  ce_pending :: "command list"
  ce_queue :: "(string \<times> int) list"
  ce_effects :: nat
  ce_persist :: bool
  ce_disk :: "int option"

definition answer_text :: "answer \<Rightarrow> string" where
  "answer_text a =
     (case a of
        Executed s v \<Rightarrow> ''executed:'' @ s @ '':'' @ show_int v
      | Refused why v \<Rightarrow> ''refused:'' @ why @ '':'' @ show_int v)"

definition persist :: "'a cell_scheme \<Rightarrow> 'a cell_scheme" where
  "persist c = (if ce_persist c then c\<lparr>ce_disk := Some (ce_version c)\<rparr> else c)"

definition start_version :: "int option \<Rightarrow> bool \<Rightarrow> int option \<Rightarrow> int \<Rightarrow> int" where
  "start_version seed has_file disk boot_us =
     (case seed of
        Some s \<Rightarrow> s
      | None \<Rightarrow> (case disk of Some v \<Rightarrow> if has_file then v + 1 else boot_us | None \<Rightarrow> boot_us))"

definition new_cell :: "int option \<Rightarrow> bool \<Rightarrow> int option \<Rightarrow> int \<Rightarrow> cell" where
  "new_cell seed has_file disk boot_us =
     persist \<lparr>ce_state = ''RUN'', ce_version = start_version seed has_file disk boot_us, ce_conveyor = ''STOPPED'',
              ce_pending = [], ce_queue = [], ce_effects = 0, ce_persist = has_file, ce_disk = disk\<rparr>"

text \<open>\<^verbatim>\<open>main\<close> announces the initial state to the bridge.\<close>

definition announce :: "'a cell_scheme \<Rightarrow> 'a cell_scheme" where
  "announce c = c\<lparr>ce_queue := ce_queue c @ [(ce_state c, ce_version c)]\<rparr>"

section \<open>Operations\<close>

definition set_line :: "string \<Rightarrow> 'a cell_scheme \<Rightarrow> 'a cell_scheme \<times> int" where
  "set_line val c =
     (let c1 = (if val \<noteq> ce_state c
                then announce (persist (c\<lparr>ce_state := val, ce_version := ce_version c + 1\<rparr>))
                else c);
          c2 = (if val \<noteq> ''RUN'' then c1\<lparr>ce_conveyor := ''STOPPED''\<rparr> else c1)
      in (c2, ce_version c2))"

definition enqueue :: "command \<Rightarrow> 'a cell_scheme \<Rightarrow> 'a cell_scheme" where
  "enqueue cmd c = c\<lparr>ce_pending := ce_pending c @ [cmd]\<rparr>"

text \<open>A deadline that is not positive means none.\<close>

definition deadline_of :: "rat \<Rightarrow> rat option" where
  "deadline_of d = (if d > 0 then Some d else None)"

definition resume_cmd :: "string \<Rightarrow> command" where
  "resume_cmd i = \<lparr>cm_id = i, cm_expected = None, cm_deadline = None, cm_needs_run = False\<rparr>"

definition conditional_resume_cmd :: "string \<Rightarrow> int \<Rightarrow> rat \<Rightarrow> command" where
  "conditional_resume_cmd i expected d = \<lparr>cm_id = i, cm_expected = Some expected, cm_deadline = deadline_of d, cm_needs_run = False\<rparr>"

definition predicate_resume_cmd :: "string \<Rightarrow> rat \<Rightarrow> command" where
  "predicate_resume_cmd i d = \<lparr>cm_id = i, cm_expected = None, cm_deadline = deadline_of d, cm_needs_run = True\<rparr>"

definition get_status :: "'a cell_scheme \<Rightarrow> string" where
  "get_status c = ce_state c @ '':'' @ show_int (ce_version c) @ '':'' @ show_nat (ce_effects c) @ '':'' @ ce_conveyor c"

definition execute_cmd :: "rat \<Rightarrow> command \<Rightarrow> 'a cell_scheme \<Rightarrow> 'a cell_scheme \<times> answer" where
  "execute_cmd now cmd c =
     (if (\<exists>v \<in> set_option (cm_expected cmd). v \<noteq> ce_version c) then (c, Refused ''version_changed'' (ce_version c))
      else if cm_needs_run cmd \<and> ce_state c \<noteq> ''RUN'' then (c, Refused ''predicate_false'' (ce_version c))
      else if (\<exists>d \<in> set_option (cm_deadline cmd). now > d) then (c, Refused ''deadline'' (ce_version c))
      else (c\<lparr>ce_effects := ce_effects c + 1, ce_conveyor := ''RUNNING''\<rparr>, Executed (ce_state c) (ce_version c)))"

fun execute_all :: "rat \<Rightarrow> command list \<Rightarrow> 'a cell_scheme \<Rightarrow> 'a cell_scheme \<times> answer list" where
  "execute_all now [] c = (c, [])"
| "execute_all now (cmd # cmds) c =
     (case execute_cmd now cmd c of (c1, a) \<Rightarrow> (case execute_all now cmds c1 of (c2, as) \<Rightarrow> (c2, a # as)))"

definition scan :: "rat \<Rightarrow> 'a cell_scheme \<Rightarrow> 'a cell_scheme \<times> answer list" where
  "scan now c = execute_all now (ce_pending c) (c\<lparr>ce_pending := []\<rparr>)"

section \<open>The bridge\<close>

text \<open>
  One pass of the loop of \<^verbatim>\<open>bridge\<close>: with a queue it takes the next change (or waits), with sampling it empties
  the queue and publishes the current pair if it differs from the last one.
\<close>

definition bridge_next :: "'a cell_scheme \<Rightarrow> 'a cell_scheme \<times> (string \<times> int) option" where
  "bridge_next c = (case ce_queue c of [] \<Rightarrow> (c, None) | x # q \<Rightarrow> (c\<lparr>ce_queue := q\<rparr>, Some x))"

definition bridge_sample :: "string \<times> int \<Rightarrow> 'a cell_scheme \<Rightarrow> 'a cell_scheme \<times> (string \<times> int) \<times> (string \<times> int) option" where
  "bridge_sample published c =
     (let x = (ce_state c, ce_version c); c1 = c\<lparr>ce_queue := []\<rparr>
      in if x = published then (c1, published, None) else (c1, x, Some x))"

definition bridge_patch :: "string \<times> int \<Rightarrow> ctx" where
  "bridge_patch x = [(''line'', JObj [(''state'', JStr (fst x)), (''version'', JInt (snd x))])]"

section \<open>The controller with fast variables\<close>

record multi_cell = cell +
  mc_global :: bool
  mc_fast :: "(string, rat) dict"
  mc_scan_us :: "rat list"

definition new_multi :: "bool \<Rightarrow> nat \<Rightarrow> int \<Rightarrow> multi_cell" where
  "new_multi global n boot_us =
     (let c = new_cell None False None boot_us
      in cell.extend c \<lparr>mc_global = global, mc_fast = map (\<lambda>i. (CHR ''v'' # show_nat i, 0)) [0..<n], mc_scan_us = []\<rparr>)"

text \<open>\<^const>\<open>None\<close> is \<^verbatim>\<open>KeyError\<close>.\<close>

definition fast_change :: "string \<Rightarrow> multi_cell \<Rightarrow> multi_cell option" where
  "fast_change name c =
     (case map_of (mc_fast c) name of
        None \<Rightarrow> None
      | Some x \<Rightarrow>
          (let c1 = c\<lparr>mc_fast := dict_set name (x + 1) (mc_fast c)\<rparr>
           in Some (if mc_global c1 then announce (c1\<lparr>ce_version := ce_version c1 + 1\<rparr>) else c1)))"

definition multi_scan :: "rat \<Rightarrow> rat \<Rightarrow> multi_cell \<Rightarrow> multi_cell \<times> answer list" where
  "multi_scan now elapsed_us c =
     (case scan now c of (c1, as) \<Rightarrow> (c1\<lparr>mc_scan_us := mc_scan_us c1 @ [elapsed_us]\<rparr>, as))"

definition scan_stats :: "multi_cell \<Rightarrow> string" where
  "scan_stats c =
     (let xs = (if mc_scan_us c = [] then [0] else sort (mc_scan_us c)); n = length xs
      in fmt1 (sum_list xs / of_nat n) @ '':'' @ fmt1 (xs ! nat (trunc_rat (99 / 100 * of_nat (n - 1)))) @ '':'' @ fmt1 (last xs))"

text \<open>The bridge publishes the latest queued pair only.\<close>

definition bridge_latest :: "'a cell_scheme \<Rightarrow> 'a cell_scheme \<times> (string \<times> int) option" where
  "bridge_latest c = (if ce_queue c = [] then (c, None) else (c\<lparr>ce_queue := []\<rparr>, Some (last (ce_queue c))))"

section \<open>Histories of a controller\<close>

datatype cell_event =
    SetLine string
  | Command command
  | Scan rat
  | Publish
  | Reboot int

text \<open>A reboot drops the queued commands and the conveyor's state, and reads the version from the state file.\<close>

fun cell_step :: "cell_event \<Rightarrow> cell \<Rightarrow> cell" where
  "cell_step (SetLine val) c = fst (set_line val c)"
| "cell_step (Command cmd) c = enqueue cmd c"
| "cell_step (Scan now) c = fst (scan now c)"
| "cell_step Publish c = fst (bridge_next c)"
| "cell_step (Reboot boot_us) c = announce (new_cell None (ce_persist c) (ce_disk c) boot_us)"

definition cell_inv :: "cell \<Rightarrow> bool" where
  "cell_inv c \<longleftrightarrow> ce_persist c \<and> ce_disk c = Some (ce_version c) \<and> 0 \<le> ce_version c"

lemma execute_cmd_keeps [simp]:
  "ce_state (fst (execute_cmd now cmd c)) = ce_state c" "ce_version (fst (execute_cmd now cmd c)) = ce_version c"
  "ce_persist (fst (execute_cmd now cmd c)) = ce_persist c" "ce_disk (fst (execute_cmd now cmd c)) = ce_disk c"
  "ce_queue (fst (execute_cmd now cmd c)) = ce_queue c" "ce_pending (fst (execute_cmd now cmd c)) = ce_pending c"
  by (auto simp: execute_cmd_def)

lemma execute_all_keeps [simp]:
  "ce_state (fst (execute_all now cmds c)) = ce_state c" "ce_version (fst (execute_all now cmds c)) = ce_version c"
  "ce_persist (fst (execute_all now cmds c)) = ce_persist c" "ce_disk (fst (execute_all now cmds c)) = ce_disk c"
  "ce_queue (fst (execute_all now cmds c)) = ce_queue c" "ce_pending (fst (execute_all now cmds c)) = ce_pending c"
  by (induction cmds arbitrary: c; simp split: prod.splits; metis execute_cmd_keeps fst_conv)+

lemma scan_keeps [simp]:
  "ce_state (fst (scan now c)) = ce_state c" "ce_version (fst (scan now c)) = ce_version c"
  "ce_persist (fst (scan now c)) = ce_persist c" "ce_disk (fst (scan now c)) = ce_disk c" "ce_pending (fst (scan now c)) = []"
  by (simp_all add: scan_def)

lemma cell_step_version:
  assumes "cell_inv c"
  shows "cell_inv (cell_step ev c) \<and>
    ((ce_version (cell_step ev c) = ce_version c \<and> ce_state (cell_step ev c) = ce_state c) \<or>
     ce_version c < ce_version (cell_step ev c))"
  using assms
  by (cases ev) (auto simp: cell_inv_def set_line_def Let_def announce_def persist_def enqueue_def bridge_next_def
      new_cell_def start_version_def split: list.splits)

text \<open>The controller's version is a versioned view of the line state, so equal readings mean that nothing changed between.\<close>

interpretation cv: versioned_view cell_step "\<lambda>_. True" cell_inv ce_version ce_version ce_state
proof
  fix ev c assume "cell_inv c"
  then show "cell_inv (cell_step ev c)" "ce_version c \<le> ce_version (cell_step ev c)"
    using cell_step_version [of c ev] by auto
next
  fix ev c assume "cell_inv c"
  then show "(ce_version (cell_step ev c) = ce_version c \<and> ce_state (cell_step ev c) = ce_state c) \<or>
      (ce_version (cell_step ev c) < 0 \<and> ce_version c < ce_version (cell_step ev c)) \<or> ce_version c < ce_version (cell_step ev c)"
    using cell_step_version [of c ev] by auto
next
  fix ev c assume "cell_inv c" "ce_version c < 0"
  then show "ce_version (cell_step ev c) < 0 \<or> ce_version c \<le> ce_version (cell_step ev c)" by (simp add: cell_inv_def)
qed simp

section \<open>What an executed command means\<close>

lemma execute_all_answer:
  fixes c :: "'a cell_scheme"
  shows "(cmd, a) \<in> set (zip cmds (snd (execute_all now cmds c))) \<Longrightarrow>
   \<exists>c' :: 'a cell_scheme. ce_state c' = ce_state c \<and> ce_version c' = ce_version c \<and> a = snd (execute_cmd now cmd c')"
proof (induction cmds arbitrary: c)
  case (Cons x cmds)
  obtain c1 b where c1: "execute_cmd now x c = (c1, b)" by fastforce
  then have k: "ce_state c1 = ce_state c" "ce_version c1 = ce_version c"
    using execute_cmd_keeps(1,2) [of now x c] by simp_all
  from Cons.prems consider "(cmd, a) = (x, b)" | "(cmd, a) \<in> set (zip cmds (snd (execute_all now cmds c1)))"
    using c1 by (auto split: prod.splits)
  then show ?case
  proof cases
    case 1
    then show ?thesis using c1 by (intro exI [of _ c]) simp
  next
    case 2
    then show ?thesis using Cons.IH [of c1] k by simp
  qed
qed simp

lemma scan_answer:
  fixes c :: "'a cell_scheme"
  assumes "(cmd, a) \<in> set (zip (ce_pending c) (snd (scan now c)))"
  obtains c' :: "'a cell_scheme" where "ce_state c' = ce_state c" "ce_version c' = ce_version c" "a = snd (execute_cmd now cmd c')"
  using assms execute_all_answer [of cmd a "ce_pending c" now "c\<lparr>ce_pending := []\<rparr>"] unfolding scan_def by auto

text \<open>
  What a scan does. Every queued command gets one answer, in the order of the queue, the queue is empty
  afterwards, the line state and its version are untouched, and the effect counter grows by the number of
  commands answered as executed.
\<close>

theorem scan_answers_all:
  "length (snd (scan now c)) = length (ce_pending c) \<and> ce_pending (fst (scan now c)) = [] \<and>
   ce_state (fst (scan now c)) = ce_state c \<and> ce_version (fst (scan now c)) = ce_version c \<and>
   ce_effects (fst (scan now c)) =
     ce_effects c + length (filter (\<lambda>a. a = Executed (ce_state c) (ce_version c)) (snd (scan now c)))"
proof -
  have "length (snd (execute_all now cmds c)) = length cmds \<and>
      ce_effects (fst (execute_all now cmds c)) =
        ce_effects c + length (filter (\<lambda>a. a = Executed (ce_state c) (ce_version c)) (snd (execute_all now cmds c)))"
    for cmds :: "command list" and c :: "'a cell_scheme"
  proof (induction cmds arbitrary: c)
    case (Cons x cmds)
    obtain c1 b where c1: "execute_cmd now x c = (c1, b)" by fastforce
    have "ce_state c1 = ce_state c" "ce_version c1 = ce_version c"
      using c1 execute_cmd_keeps(1,2) [of now x c] by simp_all
    moreover have "ce_effects c1 = ce_effects c + (if b = Executed (ce_state c) (ce_version c) then 1 else 0)"
      using c1 by (auto simp: execute_cmd_def split: if_splits)
    ultimately show ?case using c1 Cons.IH [of c1] by (auto split: prod.splits)
  qed simp
  from this [of "ce_pending c" "c\<lparr>ce_pending := []\<rparr>"] show ?thesis by (simp add: scan_def)
qed

text \<open>
  A version-conditional command acts on the state its version was read with. If the scan executes a command
  whose expected version was read from the controller at some earlier time, then the line state at the effect
  is the one that was read, and it was the same at every moment in between, also across reboots with a state file.
\<close>

theorem conditional_command_current:
  assumes "cell_inv c" and "c' = fold cell_step evs c" and "cm_expected cmd = Some (ce_version c)"
    and "(cmd, Executed s v) \<in> set (zip (ce_pending c') (snd (scan now c')))"
  shows "s = ce_state c \<and> v = ce_version c \<and> ce_state (fold cell_step (take k evs) c) = ce_state c"
proof -
  obtain d :: cell where d: "ce_state d = ce_state c'" "ce_version d = ce_version c'" "Executed s v = snd (execute_cmd now cmd d)"
    by (rule scan_answer [OF assms(4)])
  have e: "ce_version c' = ce_version c" "s = ce_state c'" "v = ce_version c'"
    using d assms(3) by (auto simp: execute_cmd_def split: if_splits)
  have "ce_state (fold cell_step (take n evs) c) = ce_state c" for n
    using cv.unchanged_run [OF assms(1), of evs n] assms(1,2) e(1) by (simp add: cell_inv_def list_all_iff)
  from this [of "length evs"] this [of k] show ?thesis using e assms(2) by simp
qed

definition demo_cell :: cell where
  "demo_cell = announce (new_cell None True (Some 41) 0)"

theorem conditional_command_current_witness:
  "snd (scan 5 (fold cell_step [Publish, Command (conditional_resume_cmd ''a'' 42 0)] demo_cell)) = [Executed ''RUN'' 42] \<and>
   ce_state (fold cell_step (take 1 [Publish, Command (conditional_resume_cmd ''a'' 42 0)]) demo_cell) = ''RUN''"
proof -
  let ?evs = "[Publish, Command (conditional_resume_cmd ''a'' 42 0)]"
  let ?c = "fold cell_step ?evs demo_cell"
  have s: "snd (scan 5 ?c) = [Executed ''RUN'' 42]" by code_simp
  have p: "ce_pending ?c = [conditional_resume_cmd ''a'' 42 0]" by code_simp
  have "cell_inv demo_cell" by code_simp
  moreover have "cm_expected (conditional_resume_cmd ''a'' 42 0) = Some (ce_version demo_cell)" by code_simp
  moreover have "ce_state demo_cell = ''RUN''" by code_simp
  ultimately show ?thesis
    using conditional_command_current [of demo_cell ?c ?evs "conditional_resume_cmd ''a'' 42 0" "''RUN''" 42 5 1] s p by simp
qed

section \<open>No effect on a paused line\<close>

text \<open>Commands guarded by the controller's own state, or by a version at which the line was seen in \<^verbatim>\<open>RUN\<close>.\<close>

definition cell_at :: "cell \<Rightarrow> cell_event list \<Rightarrow> nat \<Rightarrow> cell" where
  "cell_at c evs k = fold cell_step (take k evs) c"

definition guarded_at :: "cell \<Rightarrow> cell_event list \<Rightarrow> nat \<Rightarrow> command \<Rightarrow> bool" where
  "guarded_at c evs k cmd \<longleftrightarrow>
     cm_needs_run cmd \<or>
     (\<exists>j \<le> k. cm_expected cmd = Some (ce_version (cell_at c evs j)) \<and> ce_state (cell_at c evs j) = ''RUN'')"

definition all_guarded :: "cell \<Rightarrow> cell_event list \<Rightarrow> bool" where
  "all_guarded c evs \<longleftrightarrow> (\<forall>k < length evs. case evs ! k of Command cmd \<Rightarrow> guarded_at c evs k cmd | _ \<Rightarrow> True)"

lemma cell_at_Suc: "k < length evs \<Longrightarrow> cell_at c evs (Suc k) = cell_step (evs ! k) (cell_at c evs k)"
  by (simp add: cell_at_def take_Suc_conv_app_nth)

lemma cell_at_inv: "cell_inv c \<Longrightarrow> cell_inv (cell_at c evs k)"
  unfolding cell_at_def by (rule cv.inv_run) (auto simp: list_all_iff)

lemma same_version_same_state:
  assumes "cell_inv c" "j \<le> k" "ce_version (cell_at c evs j) = ce_version (cell_at c evs k)"
  shows "ce_state (cell_at c evs j) = ce_state (cell_at c evs k)"
proof -
  let ?es = "drop j (take k evs)"
  have "cell_at c evs k = fold cell_step ?es (cell_at c evs j)"
  proof -
    have "take k evs = take j evs @ ?es" using assms(2) append_take_drop_id [of j "take k evs"] by (simp add: min_def)
    then show ?thesis unfolding cell_at_def by (metis fold_append comp_apply)
  qed
  then have k: "fold cell_step ?es (cell_at c evs j) = cell_at c evs k" by simp
  have inv: "cell_inv (cell_at c evs j)" by (rule cell_at_inv [OF assms(1)])
  have "0 \<le> ce_version (cell_at c evs j)" using inv by (simp add: cell_inv_def)
  moreover have "ce_version (fold cell_step ?es (cell_at c evs j)) = ce_version (cell_at c evs j)" using k assms(3) by simp
  ultimately have "ce_state (fold cell_step (take (length ?es) ?es) (cell_at c evs j)) = ce_state (cell_at c evs j)"
    by (intro cv.unchanged_run [OF inv, THEN conjunct2]) (simp_all add: list_all_iff)
  then show ?thesis using k by simp
qed

lemma guarded_mono: "guarded_at c evs j cmd \<Longrightarrow> j \<le> k \<Longrightarrow> guarded_at c evs k cmd"
  unfolding guarded_at_def by (meson order_trans)

lemma execute_guarded_conveyor:
  assumes "cell_inv c" "guarded_at c evs k cmd" "ce_version d = ce_version (cell_at c evs k)" "ce_state d = ce_state (cell_at c evs k)"
    and "ce_conveyor d = ''RUNNING'' \<longrightarrow> ce_state d = ''RUN''"
  shows "ce_conveyor (fst (execute_cmd now cmd d)) = ''RUNNING'' \<longrightarrow> ce_state d = ''RUN''"
proof (cases "snd (execute_cmd now cmd d)")
  case (Executed s v)
  then have e: "\<forall>v \<in> set_option (cm_expected cmd). v = ce_version d" "cm_needs_run cmd \<longrightarrow> ce_state d = ''RUN''"
    by (auto simp: execute_cmd_def split: if_splits)
  show ?thesis
  proof (cases "cm_needs_run cmd")
    case False
    then obtain j where j: "j \<le> k" "cm_expected cmd = Some (ce_version (cell_at c evs j))" "ce_state (cell_at c evs j) = ''RUN''"
      using assms(2) by (auto simp: guarded_at_def)
    then have "ce_version (cell_at c evs j) = ce_version (cell_at c evs k)" using e(1) assms(3) by simp
    then show ?thesis using same_version_same_state [OF assms(1) j(1)] j(3) assms(4) by simp
  qed (use e(2) in simp)
next
  case (Refused why v)
  then have "fst (execute_cmd now cmd d) = d" by (auto simp: execute_cmd_def split: if_splits)
  then show ?thesis using assms(5) by simp
qed

lemma execute_all_guarded_conveyor:
  assumes "cell_inv c" "\<forall>cmd \<in> set cmds. guarded_at c evs k cmd"
    and "ce_version d = ce_version (cell_at c evs k)" "ce_state d = ce_state (cell_at c evs k)"
    and "ce_conveyor d = ''RUNNING'' \<longrightarrow> ce_state d = ''RUN''"
  shows "ce_conveyor (fst (execute_all now cmds d)) = ''RUNNING'' \<longrightarrow> ce_state d = ''RUN''"
  using assms(2-)
proof (induction cmds arbitrary: d)
  case (Cons cmd cmds)
  let ?d = "fst (execute_cmd now cmd d)"
  have "ce_conveyor ?d = ''RUNNING'' \<longrightarrow> ce_state ?d = ''RUN''"
    using execute_guarded_conveyor [OF assms(1), of evs k cmd d now] Cons.prems by simp
  then show ?case using Cons.IH [of ?d] Cons.prems by (simp split: prod.splits)
qed simp

lemma step_conveyor:
  assumes "ce_conveyor c = ''RUNNING'' \<longrightarrow> ce_state c = ''RUN''"
    and "\<And>now. ce_conveyor (fst (scan now c)) = ''RUNNING'' \<longrightarrow> ce_state c = ''RUN''"
    and "\<And>cmd. ev = Command cmd \<Longrightarrow> G cmd" and "\<And>cmd. cmd \<in> set (ce_pending c) \<Longrightarrow> G cmd"
  shows "(ce_conveyor (cell_step ev c) = ''RUNNING'' \<longrightarrow> ce_state (cell_step ev c) = ''RUN'') \<and>
    (\<forall>cmd \<in> set (ce_pending (cell_step ev c)). G cmd)"
proof (cases ev)
  case (SetLine val)
  have "ce_pending (fst (set_line val c)) = ce_pending c" "ce_state (fst (set_line val c)) = val"
    "val \<noteq> ''RUN'' \<Longrightarrow> ce_conveyor (fst (set_line val c)) = ''STOPPED''"
    by (auto simp: set_line_def Let_def announce_def persist_def)
  then show ?thesis using assms(4) SetLine by (cases "val = ''RUN''") simp_all
next
  case (Command cmd)
  then show ?thesis using assms(1,3,4) by (auto simp: enqueue_def)
next
  case (Scan now)
  then show ?thesis using assms(2) by simp
next
  case Publish
  then show ?thesis using assms(1,4) by (simp add: bridge_next_def split: list.splits)
next
  case (Reboot b)
  then show ?thesis by (simp add: announce_def new_cell_def persist_def)
qed


definition demo_history :: "cell_event list" where
  "demo_history = [Command (conditional_resume_cmd ''a'' 42 0), SetLine ''PAUSED'', Scan 5, Command (predicate_resume_cmd ''b'' 0), SetLine ''RUN'', Scan 6]"



end
