(* ===== verification/Plc.thy ===== *)
theory Plc
  imports Cell "HOL-Library.Word"
begin

unbundle bit_operations_syntax

text \<open>
  \<^verbatim>\<open>docker/openplc/cell_ctl.st\<close>, the cell controller as a Structured Text program, and \<^verbatim>\<open>scripts/plc_modbus.py\<close>, the
  Modbus client in front of it. A register is a 16-bit word; the program reads it as a signed \<^verbatim>\<open>INT\<close>, the client
  converts it. The version is a pair of an epoch and a counter of 15 bits each.

  The program refines the emulated controller: one scan of the program is a change of the line state followed
  by a scan of \<^verbatim>\<open>cell_controller.py\<close>, as long as the pair does not wrap.
\<close>

type_synonym reg = "16 word"

record plc =
  line_state :: reg
  version :: reg
  set_req :: reg
  cmd_seq :: reg
  cmd_mode :: reg
  cmd_expected :: reg
  cmd_done :: reg
  cmd_result :: reg
  effects :: reg
  conveyor :: reg
  version_epoch :: reg
  cmd_expected_epoch :: reg
  booted :: bool

section \<open>The program\<close>

definition plc_boot :: "plc \<Rightarrow> plc" where
  "plc_boot p =
     (if booted p then p
      else p\<lparr>line_state := 1, version := 0, set_req := - 1, cmd_seq := 0, cmd_done := 0, cmd_mode := 0,
             cmd_expected := - 1, conveyor := 0, version_epoch := 0, cmd_expected_epoch := - 1, booted := True\<rparr>)"

definition plc_advance :: "plc \<Rightarrow> plc" where
  "plc_advance p =
     (if sint (version p) \<ge> 32767
      then (let p1 = p\<lparr>version := 0\<rparr>
            in if sint (version_epoch p1) \<ge> 32767 then p1\<lparr>version_epoch := 0\<rparr>
               else p1\<lparr>version_epoch := version_epoch p1 + 1\<rparr>)
      else p\<lparr>version := version p + 1\<rparr>)"

definition plc_operator :: "plc \<Rightarrow> plc" where
  "plc_operator p =
     (if sint (set_req p) \<ge> 0
      then (let p1 = (if set_req p \<noteq> line_state p then plc_advance (p\<lparr>line_state := set_req p\<rparr>) else p);
                p2 = (if set_req p1 = 0 then p1\<lparr>conveyor := 0\<rparr> else p1)
            in p2\<lparr>set_req := - 1\<rparr>)
      else p)"

definition plc_execute :: "plc \<Rightarrow> plc" where
  "plc_execute p =
     (if cmd_seq p \<noteq> cmd_done p
      then (let p1 =
              (if cmd_mode p = 2 \<and> line_state p \<noteq> 1 then p\<lparr>cmd_result := 4\<rparr>
               else if cmd_mode p = 0 \<or> cmd_mode p = 2 \<or>
                 (cmd_mode p = 1 \<and> sint (cmd_expected p) \<ge> 0 \<and> cmd_expected p = version p \<and> cmd_expected_epoch p = version_epoch p)
               then p\<lparr>effects := effects p + 1, conveyor := 1, cmd_result := (if line_state p = 1 then 1 else 2)\<rparr>
               else p\<lparr>cmd_result := 3\<rparr>)
            in p1\<lparr>cmd_done := cmd_seq p1\<rparr>)
      else p)"

definition plc_scan :: "plc \<Rightarrow> plc" where
  "plc_scan p = plc_execute (plc_operator (plc_boot p))"

section \<open>The Modbus client\<close>

definition plc_registers :: "plc \<Rightarrow> reg list" where
  "plc_registers p = [line_state p, version p, set_req p, cmd_seq p, cmd_mode p, cmd_expected p, cmd_done p, cmd_result p,
     effects p, conveyor p, version_epoch p, cmd_expected_epoch p]"

text \<open>\<^verbatim>\<open>v - 65536 if v > 32767 else v\<close>.\<close>

definition decode_reg :: "reg \<Rightarrow> int" where
  "decode_reg w = (let v = uint w in if v > 32767 then v - 65536 else v)"

definition plc_regs :: "plc \<Rightarrow> nat \<Rightarrow> nat \<Rightarrow> int list" where
  "plc_regs p start n = map decode_reg (take n (drop start (plc_registers p)))"

text \<open>\<^verbatim>\<open>version()\<close> reads the two registers in two requests.\<close>

definition plc_version :: "plc \<Rightarrow> plc \<Rightarrow> int" where
  "plc_version p p' = plc_regs p' 10 1 ! 0 * 32768 + plc_regs p 1 1 ! 0"

definition plc_state :: "plc \<Rightarrow> string \<times> int" where
  "plc_state p = (let r = plc_regs p 0 11 in (if r ! 0 = 1 then ''RUN'' else ''PAUSED'', r ! 10 * 32768 + r ! 1))"

definition to_reg :: "int \<Rightarrow> reg" where
  "to_reg x = word_of_int (x AND 0xFFFF)"

definition plc_request_state :: "string \<Rightarrow> plc \<Rightarrow> plc" where
  "plc_request_state val p = p\<lparr>set_req := to_reg (if val = ''RUN'' then 1 else 0)\<rparr>"

text \<open>
  The waiting loops: \<^term>\<open>views\<close> is the list of register reads within the timeout; \<^const>\<open>None\<close> is \<^verbatim>\<open>TimeoutError\<close>.
\<close>

fun plc_await_state :: "string \<Rightarrow> plc list \<Rightarrow> int option" where
  "plc_await_state val [] = None"
| "plc_await_state val (p # views) =
     (let r = plc_regs p 0 11
      in if r ! 0 = (if val = ''RUN'' then 1 else 0) \<and> r ! 2 = - 1 then Some (r ! 10 * 32768 + r ! 1)
         else plc_await_state val views)"

datatype cmd_kind = Plain | OnVersion | OnPredicate

definition kind_mode :: "cmd_kind \<Rightarrow> int" where
  "kind_mode k = (case k of Plain \<Rightarrow> 0 | OnVersion \<Rightarrow> 1 | OnPredicate \<Rightarrow> 2)"

text \<open>The next sequence number; the first one follows the last command the program has done.\<close>

definition next_seq :: "int option \<Rightarrow> plc \<Rightarrow> int" where
  "next_seq seq p = (let s = (case seq of None \<Rightarrow> plc_regs p 6 1 ! 0 | Some s \<Rightarrow> s) in if s < 32000 then s + 1 else 1)"

definition split_version :: "int option \<Rightarrow> int \<times> int" where
  "split_version expected = (case expected of None \<Rightarrow> (- 1, - 1) | Some v \<Rightarrow> (v mod 32768, v div 32768))"

definition plc_issue :: "int \<Rightarrow> int option \<Rightarrow> cmd_kind \<Rightarrow> plc \<Rightarrow> plc" where
  "plc_issue seq expected kind p =
     (case split_version expected of (counter, epoch) \<Rightarrow>
        (p\<lparr>cmd_expected_epoch := to_reg epoch\<rparr>)\<lparr>cmd_seq := to_reg seq, cmd_mode := word_of_int (kind_mode kind), cmd_expected := to_reg counter\<rparr>)"

definition result_text :: "int \<Rightarrow> int \<Rightarrow> string" where
  "result_text res v =
     (if res = 1 then answer_text (Executed ''RUN'' v)
      else if res = 2 then answer_text (Executed ''PAUSED'' v)
      else if res = 3 then answer_text (Refused ''version_changed'' v)
      else if res = 4 then answer_text (Refused ''predicate_false'' v)
      else ''error:unknown_result_'' @ show_int res @ '':'' @ show_int v)"

fun plc_await_result :: "int \<Rightarrow> plc list \<Rightarrow> string option" where
  "plc_await_result seq [] = None"
| "plc_await_result seq (p # views) =
     (let r = plc_regs p 0 11; v = r ! 10 * 32768 + r ! 1
      in if r ! 6 = seq then Some (result_text (r ! 7) v) else plc_await_result seq views)"

text \<open>\<^term>\<open>views\<close> gives what the client reads after it has issued the command on the registers \<^term>\<open>p\<close>.\<close>

definition plc_command :: "int option \<Rightarrow> int option \<Rightarrow> cmd_kind \<Rightarrow> (plc \<Rightarrow> plc list) \<Rightarrow> plc \<Rightarrow> int \<times> plc \<times> string option" where
  "plc_command seq0 expected kind views p =
     (let seq = next_seq seq0 p; p1 = plc_issue seq expected kind p
      in (seq, p1, plc_await_result seq (views p1)))"

text \<open>One pass of the polling bridge: it posts a state that differs from the last one it posted.\<close>

definition plc_bridge_step :: "(string \<times> int) option \<Rightarrow> plc \<Rightarrow> (string \<times> int) option" where
  "plc_bridge_step posted p = (if Some (plc_state p) = posted then None else Some (plc_state p))"

section \<open>Registers and versions\<close>

lemma sint_reg: "sint (word_of_int x :: reg) = (x + 32768) mod 65536 - 32768"
  by (simp add: int_word_sint)

lemma decode_reg_sint: "decode_reg w = sint w"
proof -
  have u: "0 \<le> uint w" "uint w < 65536" using uint_lt2p [of w] by simp_all
  have "sint w = (uint w + 32768) mod 65536 - 32768" using sint_reg [of "uint w"] by simp
  also have "\<dots> = decode_reg w"
  proof (cases "uint w > 32767")
    case True
    then have "(uint w + 32768) mod 65536 = uint w - 32768"
      using u by (simp add: mod_pos_pos_trivial minus_mod_self2 [of "uint w + 32768", symmetric])
    then show ?thesis using True by (simp add: decode_reg_def Let_def)
  qed (use u in \<open>simp add: decode_reg_def Let_def mod_pos_pos_trivial\<close>)
  finally show ?thesis by simp
qed

lemma to_reg_word: "to_reg x = word_of_int x"
proof -
  have "x AND 0xFFFF = take_bit 16 x" by (simp add: take_bit_eq_mask mask_eq_exp_minus_1)
  then have "x AND 0xFFFF = x mod 65536" by (simp add: take_bit_eq_mod)
  then show ?thesis by (simp add: to_reg_def word_of_int_eq_iff take_bit_eq_mod)
qed

lemma sint_to_reg: "- 32768 \<le> x \<Longrightarrow> x < 32768 \<Longrightarrow> sint (to_reg x) = x"
  unfolding to_reg_word sint_reg by (simp add: mod_pos_pos_trivial)

lemma to_reg_eq: "- 32768 \<le> x \<Longrightarrow> x < 32768 \<Longrightarrow> to_reg x = w \<longleftrightarrow> x = sint w"
  using sint_to_reg [of x] by (auto simp: to_reg_word)

lemma sint_bounds: "- 32768 \<le> sint (w :: reg)" "sint (w :: reg) < 32768"
  using sint_ge [of w] sint_lt [of w] by simp_all

lemma plc_regs_nth:
  "plc_regs p 0 11 ! 0 = sint (line_state p)" "plc_regs p 0 11 ! 1 = sint (version p)" "plc_regs p 0 11 ! 2 = sint (set_req p)"
  "plc_regs p 0 11 ! 6 = sint (cmd_done p)" "plc_regs p 0 11 ! 7 = sint (cmd_result p)"
  "plc_regs p 0 11 ! 10 = sint (version_epoch p)" "plc_regs p 6 1 ! 0 = sint (cmd_done p)"
  by (simp_all add: plc_regs_def plc_registers_def decode_reg_sint)

lemmas plc_regs_sel = plc_regs_nth plc_regs_nth [unfolded One_nat_def]

definition abs_version :: "plc \<Rightarrow> int" where
  "abs_version p = sint (version_epoch p) * 32768 + sint (version p)"

text \<open>Type invariant of the running program.\<close>

definition plc_ok :: "plc \<Rightarrow> bool" where
  "plc_ok p \<longleftrightarrow> booted p \<and> 0 \<le> sint (version p) \<and> 0 \<le> sint (version_epoch p) \<and>
     line_state p \<in> {0, 1} \<and> set_req p \<in> {- 1, 0, 1} \<and> conveyor p \<in> {0, 1}"

lemma abs_version_range:
  assumes "plc_ok p"
  shows "0 \<le> abs_version p" "abs_version p < 2 ^ 30"
  using assms sint_bounds(2) [of "version p"] sint_bounds(2) [of "version_epoch p"]
  by (auto simp: plc_ok_def abs_version_def)

lemma sint_add_one: "sint (w :: reg) < 32767 \<Longrightarrow> sint (w + 1) = sint w + 1"
proof -
  assume a: "sint w < 32767"
  have "w + 1 = word_of_int (sint w + 1)" by simp
  moreover have "sint (word_of_int (sint w + 1) :: reg) = sint w + 1"
    using a sint_bounds(1) [of w] sint_to_reg [of "sint w + 1"] by (simp add: to_reg_word)
  ultimately show ?thesis by simp
qed

lemma plc_advance_sel [simp]:
  "line_state (plc_advance p) = line_state p" "set_req (plc_advance p) = set_req p" "conveyor (plc_advance p) = conveyor p"
  "booted (plc_advance p) = booted p" "cmd_seq (plc_advance p) = cmd_seq p" "cmd_done (plc_advance p) = cmd_done p"
  "cmd_mode (plc_advance p) = cmd_mode p" "cmd_expected (plc_advance p) = cmd_expected p"
  "cmd_expected_epoch (plc_advance p) = cmd_expected_epoch p"
  by (simp_all add: plc_advance_def Let_def)

text \<open>The pair counts like one number of 30 bits.\<close>

lemma plc_advance_version:
  assumes "0 \<le> sint (version p)" "0 \<le> sint (version_epoch p)"
  shows "0 \<le> sint (version (plc_advance p)) \<and> 0 \<le> sint (version_epoch (plc_advance p)) \<and>
    abs_version (plc_advance p) = (abs_version p + 1) mod 2 ^ 30"
proof -
  consider "sint (version p) < 32767" | "sint (version p) = 32767" "sint (version_epoch p) < 32767"
    | "sint (version p) = 32767" "sint (version_epoch p) = 32767"
    using sint_bounds(2) [of "version p"] sint_bounds(2) [of "version_epoch p"] by linarith
  then show ?thesis
  proof cases
    case 1
    then have "abs_version p + 1 < 2 ^ 30" "0 \<le> abs_version p + 1"
      using assms sint_bounds(2) [of "version_epoch p"] by (simp_all add: abs_version_def)
    then show ?thesis using 1 assms sint_add_one [of "version p"] by (simp add: plc_advance_def abs_version_def)
  next
    case 2
    then have "abs_version p + 1 < 2 ^ 30" "0 \<le> abs_version p + 1" using assms by (simp_all add: abs_version_def)
    then show ?thesis using 2 assms sint_add_one [of "version_epoch p"] by (simp add: plc_advance_def abs_version_def Let_def)
  next
    case 3
    then show ?thesis by (simp add: plc_advance_def abs_version_def Let_def)
  qed
qed


section \<open>Refinement of the emulated controller\<close>

definition line_text :: "reg \<Rightarrow> string" where
  "line_text w = (if w = 1 then ''RUN'' else ''PAUSED'')"

definition same_line :: "plc \<Rightarrow> cell \<Rightarrow> bool" where
  "same_line p c \<longleftrightarrow> ce_state c = line_text (line_state p) \<and> ce_version c = abs_version p \<and>
     ce_conveyor c = (if conveyor p = 1 then ''RUNNING'' else ''STOPPED'')"

text \<open>The operator's part of a scan is \<^const>\<open>set_line\<close>.\<close>

definition apply_request :: "plc \<Rightarrow> cell \<Rightarrow> cell" where
  "apply_request p c = (if set_req p = - 1 then c else fst (set_line (line_text (set_req p)) c))"

definition command_of :: "cmd_kind \<Rightarrow> int option \<Rightarrow> command" where
  "command_of kind expected =
     (case kind of
        Plain \<Rightarrow> resume_cmd []
      | OnVersion \<Rightarrow> conditional_resume_cmd [] (case expected of None \<Rightarrow> - 1 | Some v \<Rightarrow> v) 0
      | OnPredicate \<Rightarrow> predicate_resume_cmd [] 0)"

lemma plc_operator_commands [simp]:
  "cmd_seq (plc_operator p) = cmd_seq p" "cmd_done (plc_operator p) = cmd_done p" "cmd_mode (plc_operator p) = cmd_mode p"
  "cmd_expected (plc_operator p) = cmd_expected p" "cmd_expected_epoch (plc_operator p) = cmd_expected_epoch p"
  by (simp_all add: plc_operator_def Let_def)

lemma set_req_sint: "set_req p \<in> {- 1, 0, 1} \<Longrightarrow> sint (set_req p) \<ge> 0 \<longleftrightarrow> set_req p \<noteq> - 1"
  by auto

lemma plc_operator_refines:
  assumes ok: "plc_ok p" and same: "same_line p c" and nowrap: "abs_version p + 1 < 2 ^ 30"
  shows "plc_ok (plc_operator p) \<and> same_line (plc_operator p) (apply_request p c)"
proof (cases "set_req p = - 1")
  case True
  then show ?thesis using assms by (simp add: plc_operator_def apply_request_def)
next
  case False
  let ?p = "p\<lparr>line_state := set_req p\<rparr>"
  have req: "set_req p = 0 \<or> set_req p = 1" using False ok by (auto simp: plc_ok_def)
  have s: "sint (set_req p) \<ge> 0" using False set_req_sint [of p] ok by (simp add: plc_ok_def)
  have "(abs_version p + 1) mod 2 ^ 30 = abs_version p + 1"
    using nowrap abs_version_range(1) [OF ok] by (intro mod_pos_pos_trivial) simp_all
  moreover have "abs_version ?p = abs_version p" by (simp add: abs_version_def)
  ultimately have adv: "0 \<le> sint (version (plc_advance ?p))" "0 \<le> sint (version_epoch (plc_advance ?p))"
    "abs_version (plc_advance ?p) = abs_version p + 1"
    using plc_advance_version [of ?p] ok by (auto simp: plc_ok_def)
  have eq: "set_req p \<noteq> line_state p \<longleftrightarrow> line_text (set_req p) \<noteq> ce_state c"
    using req ok same by (auto simp: same_line_def line_text_def plc_ok_def)
  have run: "set_req p = 0 \<longleftrightarrow> line_text (set_req p) \<noteq> ''RUN''" using req by (auto simp: line_text_def)
  define p1 where "p1 = (if set_req p \<noteq> line_state p then plc_advance ?p else p)"
  have p1: "line_state p1 = set_req p" "set_req p1 = set_req p" "conveyor p1 = conveyor p" "booted p1"
    "0 \<le> sint (version p1)" "0 \<le> sint (version_epoch p1)"
    "abs_version p1 = (if set_req p \<noteq> line_state p then abs_version p + 1 else abs_version p)"
    using adv ok by (auto simp: p1_def plc_ok_def)
  have op: "plc_operator p = (if set_req p = 0 then p1\<lparr>conveyor := 0\<rparr> else p1)\<lparr>set_req := - 1\<rparr>"
    using s p1(2) by (simp add: plc_operator_def p1_def Let_def)
  have c: "ce_state (apply_request p c) = line_text (set_req p)"
    "ce_version (apply_request p c) = (if line_text (set_req p) \<noteq> ce_state c then ce_version c + 1 else ce_version c)"
    "ce_conveyor (apply_request p c) = (if line_text (set_req p) \<noteq> ''RUN'' then ''STOPPED'' else ce_conveyor c)"
    using False by (auto simp: apply_request_def set_line_def Let_def announce_def persist_def)
  have "plc_ok (plc_operator p)" using op p1 req ok by (auto simp: plc_ok_def)
  moreover have "abs_version (plc_operator p) = abs_version p1" "line_state (plc_operator p) = set_req p"
    "conveyor (plc_operator p) = (if set_req p = 0 then 0 else conveyor p)"
    using op p1(1,3) by (simp_all add: abs_version_def)
  ultimately show ?thesis using c p1(7) eq run same by (simp add: same_line_def)
qed

text \<open>A conditional command passes exactly on the version it names.\<close>

lemma split_version_matches:
  assumes "plc_ok p" "0 \<le> v" "v < 2 ^ 30"
  shows "sint (to_reg (v mod 32768)) \<ge> 0"
    and "to_reg (v mod 32768) = version p \<and> to_reg (v div 32768) = version_epoch p \<longleftrightarrow> v = abs_version p"
proof -
  have b: "0 \<le> v mod 32768" "v mod 32768 < 32768" "0 \<le> v div 32768" "v div 32768 < 32768" using assms(2,3) by auto
  then show "sint (to_reg (v mod 32768)) \<ge> 0" by (simp add: sint_to_reg)
  have "to_reg (v mod 32768) = version p \<longleftrightarrow> v mod 32768 = sint (version p)"
    "to_reg (v div 32768) = version_epoch p \<longleftrightarrow> v div 32768 = sint (version_epoch p)"
    using b by (simp_all add: to_reg_eq)
  moreover have "v = abs_version p \<longleftrightarrow> v mod 32768 = sint (version p) \<and> v div 32768 = sint (version_epoch p)"
  proof
    assume "v = abs_version p"
    then show "v mod 32768 = sint (version p) \<and> v div 32768 = sint (version_epoch p)"
      using assms(1) sint_bounds(2) [of "version p"] by (simp add: abs_version_def plc_ok_def)
  next
    assume "v mod 32768 = sint (version p) \<and> v div 32768 = sint (version_epoch p)"
    then show "v = abs_version p" unfolding abs_version_def using div_mult_mod_eq [of v 32768] by simp
  qed
  ultimately show "to_reg (v mod 32768) = version p \<and> to_reg (v div 32768) = version_epoch p \<longleftrightarrow> v = abs_version p" by blast
qed



lemma plc_execute_done: "cmd_done (plc_execute p) = cmd_seq p" "cmd_seq (plc_execute p) = cmd_seq p"
  by (simp_all add: plc_execute_def Let_def)

lemma sint_small [simp]: "sint (2 :: reg) = 2" "sint (3 :: reg) = 3" "sint (4 :: reg) = 4"
  by simp_all

text \<open>The command part of a scan, on the registers the client has written.\<close>

definition issued :: "cmd_kind \<Rightarrow> int option \<Rightarrow> plc \<Rightarrow> bool" where
  "issued kind expected p \<longleftrightarrow> cmd_seq p \<noteq> cmd_done p \<and> cmd_mode p = word_of_int (kind_mode kind) \<and>
     cmd_expected p = to_reg (fst (split_version expected)) \<and> cmd_expected_epoch p = to_reg (snd (split_version expected))"

lemma version_guard:
  assumes "plc_ok p" "issued OnVersion expected p" "\<forall>v \<in> set_option expected. 0 \<le> v \<and> v < 2 ^ 30"
  shows "sint (cmd_expected p) \<ge> 0 \<and> cmd_expected p = version p \<and> cmd_expected_epoch p = version_epoch p \<longleftrightarrow>
    expected = Some (abs_version p)"
proof (cases expected)
  case None
  then have "sint (cmd_expected p) = - 1" using assms(2) by (simp add: issued_def split_version_def sint_to_reg)
  then show ?thesis using None by simp
next
  case (Some v)
  then show ?thesis using split_version_matches [OF assms(1), of v] assms(2,3) by (auto simp: issued_def split_version_def)
qed

lemma plc_execute_refines:
  assumes ok: "plc_ok p" and same: "same_line p c" and i: "issued kind expected p"
    and range: "kind = OnVersion \<longrightarrow> (\<forall>v \<in> set_option expected. 0 \<le> v \<and> v < 2 ^ 30)"
  shows "plc_ok (plc_execute p) \<and> abs_version (plc_execute p) = abs_version p \<and>
    (\<exists>c' a. execute_cmd now (command_of kind expected) c = (c', a) \<and> same_line (plc_execute p) c' \<and>
       answer_text a = result_text (sint (cmd_result (plc_execute p))) (abs_version p))"
proof -
  have ne: "cmd_seq p \<noteq> cmd_done p" and m: "cmd_mode p = word_of_int (kind_mode kind)" using i by (auto simp: issued_def)
  have st: "line_state p = 1 \<longleftrightarrow> ce_state c = ''RUN''" and v: "ce_version c = abs_version p"
    using same by (auto simp: same_line_def line_text_def)
  have st': "ce_state c = (if line_state p = 1 then ''RUN'' else ''PAUSED'')" using same by (simp add: same_line_def line_text_def)
  show ?thesis
  proof (cases kind)
    case Plain
    then show ?thesis using ok same ne m st' v
      by (simp add: plc_execute_def Let_def kind_mode_def command_of_def execute_cmd_def resume_cmd_def plc_ok_def
          same_line_def line_text_def abs_version_def result_text_def)
  next
    case OnPredicate
    then show ?thesis using ok same ne m st' v
      by (cases "line_state p = 1") (simp_all add: plc_execute_def Let_def kind_mode_def command_of_def execute_cmd_def predicate_resume_cmd_def deadline_of_def
          plc_ok_def same_line_def line_text_def abs_version_def result_text_def)
  next
    case OnVersion
    have g: "sint (cmd_expected p) \<ge> 0 \<and> cmd_expected p = version p \<and> cmd_expected_epoch p = version_epoch p \<longleftrightarrow>
        expected = Some (abs_version p)"
      using version_guard [OF ok, of expected] i range OnVersion by simp
    have e: "(case expected of None \<Rightarrow> - 1 | Some v \<Rightarrow> v) = abs_version p \<longleftrightarrow> expected = Some (abs_version p)"
      using abs_version_range(1) [OF ok] by (cases expected) auto
    show ?thesis
    proof (cases "expected = Some (abs_version p)")
      case True
      then have "plc_execute p = p\<lparr>effects := effects p + 1, conveyor := 1, cmd_result := (if line_state p = 1 then 1 else 2), cmd_done := cmd_seq p\<rparr>"
        using g ne m OnVersion ok by (simp add: plc_execute_def Let_def kind_mode_def plc_ok_def)
      then show ?thesis using True ok same st' v OnVersion
        by (simp add: command_of_def execute_cmd_def conditional_resume_cmd_def deadline_of_def plc_ok_def
            same_line_def line_text_def abs_version_def result_text_def)
    next
      case False
      then have "plc_execute p = p\<lparr>cmd_result := 3, cmd_done := cmd_seq p\<rparr>"
        using g ne m OnVersion by (auto simp: plc_execute_def Let_def kind_mode_def)
      moreover have "execute_cmd now (command_of kind expected) c = (c, Refused ''version_changed'' (abs_version p))"
        using False e v OnVersion by (simp add: command_of_def execute_cmd_def conditional_resume_cmd_def)
      ultimately show ?thesis using ok same by (simp add: plc_ok_def same_line_def abs_version_def result_text_def)
    qed
  qed
qed


lemma next_seq_fresh:
  assumes "seq0 = None \<or> seq0 = Some (sint (cmd_done p))"
  shows "- 32768 \<le> next_seq seq0 p" "next_seq seq0 p \<le> 32000" "next_seq seq0 p \<noteq> sint (cmd_done p)"
  using assms sint_bounds(1) [of "cmd_done p"] by (auto simp: next_seq_def Let_def plc_regs_sel)

lemma plc_issue_sel [simp]:
  "line_state (plc_issue s x k p) = line_state p" "version (plc_issue s x k p) = version p"
  "version_epoch (plc_issue s x k p) = version_epoch p" "conveyor (plc_issue s x k p) = conveyor p"
  "set_req (plc_issue s x k p) = set_req p" "booted (plc_issue s x k p) = booted p" "cmd_done (plc_issue s x k p) = cmd_done p"
  "cmd_seq (plc_issue s x k p) = to_reg s" "cmd_mode (plc_issue s x k p) = word_of_int (kind_mode k)"
  "cmd_expected (plc_issue s x k p) = to_reg (fst (split_version x))"
  "cmd_expected_epoch (plc_issue s x k p) = to_reg (snd (split_version x))"
  by (simp_all add: plc_issue_def split: prod.splits)

text \<open>
  C20: the PLC refines the emulated controller. A command issued through the Modbus client and executed by one
  scan of the program has the effect and the textual answer that the emulated controller gives after the
  operator's pending request: the line state, the version read as one number and the conveyor agree before and
  after. This holds until the version of 30 bits wraps; an expected version lies in its range.
\<close>

theorem plc_refines_cell:
  assumes "plc_ok p" and "same_line p c" and "abs_version p + 1 < 2 ^ 30"
    and "kind = OnVersion \<longrightarrow> (\<forall>v \<in> set_option expected. 0 \<le> v \<and> v < 2 ^ 30)"
    and "seq0 = None \<or> seq0 = Some (sint (cmd_done p))"
    and "plc_command seq0 expected kind (\<lambda>p1. [plc_scan p1]) p = (seq, p1, reply)"
  shows "plc_ok (plc_scan p1) \<and>
    (\<exists>c' a. execute_cmd now (command_of kind expected) (apply_request p c) = (c', a) \<and>
       same_line (plc_scan p1) c' \<and> reply = Some (answer_text a))"
proof -
  have p1: "seq = next_seq seq0 p" "p1 = plc_issue seq expected kind p" and reply: "reply = plc_await_result seq [plc_scan p1]"
    using assms(6) by (auto simp: plc_command_def Let_def)
  have seq: "- 32768 \<le> seq" "seq < 32768" "seq \<noteq> sint (cmd_done p)" using next_seq_fresh [OF assms(5)] p1(1) by simp_all
  have ok1: "plc_ok p1" and same1: "same_line p1 c" and nw: "abs_version p1 + 1 < 2 ^ 30" and r1: "apply_request p1 c = apply_request p c"
    using assms(1-3) p1(2) by (simp_all add: plc_ok_def same_line_def abs_version_def apply_request_def)
  let ?q = "plc_operator p1"
  have q: "plc_ok ?q" "same_line ?q (apply_request p c)" using plc_operator_refines [OF ok1 same1 nw] r1 by simp_all
  have scan: "plc_scan p1 = plc_execute ?q" using ok1 by (simp add: plc_scan_def plc_boot_def plc_ok_def)
  have "to_reg seq \<noteq> cmd_done p" using seq to_reg_eq [of seq "cmd_done p"] by simp
  then have i: "issued kind expected ?q" using p1(2) by (simp add: issued_def)
  have fin: "sint (cmd_done (plc_scan p1)) = seq" using scan p1(2) seq by (simp add: plc_execute_done sint_to_reg)
  obtain c' a where e: "execute_cmd now (command_of kind expected) (apply_request p c) = (c', a)" "same_line (plc_execute ?q) c'"
    "answer_text a = result_text (sint (cmd_result (plc_execute ?q))) (abs_version ?q)" and ok2: "plc_ok (plc_execute ?q)"
    and v: "abs_version (plc_execute ?q) = abs_version ?q"
    using plc_execute_refines [OF q i assms(4), of now] by blast
  have "reply = Some (answer_text a)"
    unfolding reply using fin e(3) v scan by (simp add: Let_def plc_regs_sel abs_version_def)
  then show ?thesis using e(1,2) ok2 scan by auto
qed

definition demo_plc :: plc where
  "demo_plc = plc_scan \<lparr>line_state = 0, version = 0, set_req = 0, cmd_seq = 0, cmd_mode = 0, cmd_expected = 0, cmd_done = 0, cmd_result = 0,
     effects = 0, conveyor = 0, version_epoch = 0, cmd_expected_epoch = 0, booted = False\<rparr>"

theorem plc_refines_cell_witness:
  "snd (snd (plc_command None (Some 0) OnVersion (\<lambda>p1. [plc_scan p1]) demo_plc)) = Some ''executed:RUN:0'' \<and>
   plc_ok (plc_scan (fst (snd (plc_command None (Some 0) OnVersion (\<lambda>p1. [plc_scan p1]) demo_plc))))"
proof -
  let ?c = "new_cell (Some 0) False None 0"
  obtain seq p1 reply where c: "plc_command None (Some 0) OnVersion (\<lambda>p1. [plc_scan p1]) demo_plc = (seq, p1, reply)" by (metis prod_cases3)
  have r: "snd (snd (plc_command None (Some 0) OnVersion (\<lambda>p1. [plc_scan p1]) demo_plc)) = Some ''executed:RUN:0''" by code_simp
  have "plc_ok demo_plc" by code_simp
  moreover have "same_line demo_plc ?c" by code_simp
  moreover have "abs_version demo_plc + 1 < 2 ^ 30" by code_simp
  ultimately have "plc_ok (plc_scan p1)" using plc_refines_cell [OF _ _ _ _ _ c] by simp
  then show ?thesis using r c by simp
qed

text \<open>
  The version pair of the PLC. Every change of the line state moves the pair to the next of \<open>2\<^sup>30\<close> values, so
  a value comes back only after \<open>2\<^sup>30\<close> changes, and in that range a conditional command is executed on exactly one
  version, the one it names.
\<close>

theorem plc_version_bounds:
  assumes "plc_ok p"
  shows "0 \<le> abs_version p \<and> abs_version p < 2 ^ 30 \<and> abs_version (plc_advance p) = (abs_version p + 1) mod 2 ^ 30 \<and>
    abs_version ((plc_advance ^^ n) p) = (abs_version p + int n) mod 2 ^ 30 \<and>
    (\<forall>v. 0 \<le> v \<and> v < 2 ^ 30 \<longrightarrow>
       (to_reg (v mod 32768) = version p \<and> to_reg (v div 32768) = version_epoch p \<longleftrightarrow> v = abs_version p))"
proof -
  have nn: "0 \<le> sint (version p)" "0 \<le> sint (version_epoch p)" using assms by (simp_all add: plc_ok_def)
  have "0 \<le> sint (version ((plc_advance ^^ n) p)) \<and> 0 \<le> sint (version_epoch ((plc_advance ^^ n) p)) \<and>
      abs_version ((plc_advance ^^ n) p) = (abs_version p + int n) mod 2 ^ 30"
  proof (induction n)
    case 0
    then show ?case using nn abs_version_range [OF assms] by (simp add: mod_pos_pos_trivial)
  next
    case (Suc n)
    then show ?case using plc_advance_version [of "(plc_advance ^^ n) p"] by (simp add: mod_simps algebra_simps)
  qed
  then show ?thesis
    using abs_version_range [OF assms] plc_advance_version [OF nn] split_version_matches(2) [OF assms] by blast
qed

theorem plc_version_bounds_witness:
  "abs_version (plc_advance (demo_plc\<lparr>version := 32767, version_epoch := 32767\<rparr>)) = 0 \<and>
   abs_version (plc_advance (demo_plc\<lparr>version := 32767\<rparr>)) = 32768"
proof -
  have "plc_ok (demo_plc\<lparr>version := 32767, version_epoch := 32767\<rparr>)" "plc_ok (demo_plc\<lparr>version := 32767\<rparr>)" by code_simp+
  moreover have "abs_version (demo_plc\<lparr>version := 32767, version_epoch := 32767\<rparr>) = 2 ^ 30 - 1"
    "abs_version (demo_plc\<lparr>version := 32767\<rparr>) = 32767" by code_simp+
  ultimately show ?thesis using plc_version_bounds [of "demo_plc\<lparr>version := 32767, version_epoch := 32767\<rparr>"]
      plc_version_bounds [of "demo_plc\<lparr>version := 32767\<rparr>"] by simp
qed

end
