(* ===== verification/Gateway.thy ===== *)
theory Gateway
  imports Server Consumer Plc
begin

text \<open>
  \<^verbatim>\<open>scripts/actuator_gateway.py\<close>: the gateway between producers and the middleware. It validates an intent by one
  of several policies and hands the command to ROS or to the cell controller.

  What the gateway calls is the record \<^verbatim>\<open>api\<close> of functions on a state \<^typ>\<open>'x\<close>: the methods of \<^verbatim>\<open>XAIRHttpClient\<close>, the
  controller, and the policy engine; \<^const>\<open>Inl\<close> is an exception with the name of its class. The record \<^verbatim>\<open>gw_env\<close>
  holds what one request observes (clock readings, predicate evaluation times, a generated id) and the Python
  functions \<^verbatim>\<open>fromisoformat\<close> and \<^verbatim>\<open>str\<close> on numbers and containers. Instants in the replies and the delays are left
  out. The functions of the \<^verbatim>\<open>api\<close> may change the state in any way, so what other processes write between two calls
  is part of them, also the write that experiment E10 injects from a second thread.
\<close>

record xair_result =
  xr_id :: json
  xr_state :: string
  xr_outcome :: "decision_outcome option"
  xr_reason :: string
  xr_payload :: "ctx option"
  xr_read_set :: "string list"
  xr_predicates :: "string list"
  xr_policy_predicates :: "string list"
  xr_read_set_version :: "int option"
  xr_predicate_version :: "int option"
  xr_context_version :: "int option"
  xr_duplicate :: bool
  xr_action_class :: string
  xr_read_values :: ctx

record gate_snapshot =
  gs_context :: ctx
  gs_version :: "int option"
  gs_pv :: path_versions
  gs_trusted :: bool
  gs_preds :: pred_versions
  gs_intent_state :: "intent_state option"

record commit_reply =
  ac_committed :: bool
  ac_reason :: string
  ac_version :: "int option"

datatype cell_call =
    CallResume string
  | CallConditional string int rat
  | CallPredicate string rat
  | CallPlc "int option" cmd_kind

record opa_pred =
  op_path :: "string list"
  op_op :: cmp_op
  op_value :: json

record opa_doc =
  od_allow :: bool
  od_allow_versioned :: bool
  od_version :: "int option"
  od_readset_version :: "int option"

record 'x api =
  xa_submit :: "ctx \<Rightarrow> 'x \<Rightarrow> 'x \<times> (string + xair_result)"
  xa_snapshot :: "string list option \<Rightarrow> string option \<Rightarrow> 'x \<Rightarrow> 'x \<times> (string + gate_snapshot)"
  xa_commit :: "string \<Rightarrow> bool \<Rightarrow> rat \<Rightarrow> 'x \<Rightarrow> 'x \<times> (string + commit_reply)"
  xa_release :: "string \<Rightarrow> release_body \<Rightarrow> 'x \<Rightarrow> 'x \<times> (string + string)"
  xa_withheld :: "string \<Rightarrow> string \<Rightarrow> 'x \<Rightarrow> 'x \<times> (string + unit)"
  xa_update :: "ctx \<Rightarrow> 'x \<Rightarrow> 'x \<times> (string + ctx)"
  xa_cell :: "cell_call \<Rightarrow> 'x \<Rightarrow> 'x \<times> (string + string)"
  xa_opa :: "opa_pred list \<Rightarrow> int option \<Rightarrow> 'x \<Rightarrow> 'x \<times> (string + opa_doc)"

record gw_env =
  ge_temporal :: temporal_validator
  ge_fromiso :: "string \<Rightarrow> datetime option"
  ge_str :: "json \<Rightarrow> string"
  ge_uuid :: string
  ge_now_text :: string
  ge_now :: "nat \<Rightarrow> rat"
  ge_elapsed :: "nat \<Rightarrow> nat \<Rightarrow> rat"
  ge_timeout_s :: rat
  ge_default_scope :: string

text \<open>\<^verbatim>\<open>gw_sent\<close> lists the pose and gripper values handed to ROS.\<close>

record 'x gateway =
  gw_cache :: ctx
  gw_releases :: nat
  gw_ros_count :: nat
  gw_ros :: bool
  gw_sent :: "(json \<times> json) list"
  gw_x :: 'x

type_synonym query = "(string, string) dict"

section \<open>Cache and validation\<close>

definition cache_merge :: "ctx \<Rightarrow> 'x gateway \<Rightarrow> 'x gateway" where
  "cache_merge patch g = g\<lparr>gw_cache := deep_merge (gw_cache g) patch\<rparr>"

definition intent_or_none :: "gw_env \<Rightarrow> ctx \<Rightarrow> action_intent option" where
  "intent_or_none e data = (case from_dict (ge_fromiso e) (ge_uuid e) data of Inl _ \<Rightarrow> None | Inr i \<Rightarrow> Some i)"

definition temporal_check :: "gw_env \<Rightarrow> nat \<Rightarrow> bool \<Rightarrow> action_intent \<Rightarrow> bool \<times> string" where
  "temporal_check e k release intent =
     (if release then validate_release (ge_temporal e) intent (ge_now e k) else validate (ge_temporal e) intent (ge_now e k))"

definition predicates_check :: "gw_env \<Rightarrow> nat \<Rightarrow> string list \<Rightarrow> string list \<Rightarrow> ctx \<Rightarrow> bool \<times> string" where
  "predicates_check e k safety pre c = evaluate_predicates (ge_elapsed e k) (ge_timeout_s e) safety pre c"

definition gw_validate :: "gw_env \<Rightarrow> nat \<Rightarrow> bool \<Rightarrow> action_intent \<Rightarrow> ctx \<Rightarrow> bool \<times> string" where
  "gw_validate e k release intent c =
     (case temporal_check e k release intent of (ok, reason) \<Rightarrow>
        if \<not> ok then (ok, reason) else predicates_check e k (safety_constraints intent) (preconditions intent) c)"

text \<open>\<^verbatim>\<open>_pull_xair_snapshot_timed\<close> turns every exception into an untrusted empty snapshot.\<close>

definition no_snapshot :: gate_snapshot where
  "no_snapshot = \<lparr>gs_context = [], gs_version = None, gs_pv = [], gs_trusted = False, gs_preds = [], gs_intent_state = None\<rparr>"

definition pull_snapshot :: "'x api \<Rightarrow> string list option \<Rightarrow> string option \<Rightarrow> 'x gateway \<Rightarrow> 'x gateway \<times> gate_snapshot" where
  "pull_snapshot api predicates intent_id g =
     (case xa_snapshot api predicates intent_id (gw_x g) of
        (x, Inl _) \<Rightarrow> (g\<lparr>gw_x := x\<rparr>, no_snapshot)
      | (x, Inr s) \<Rightarrow> (g\<lparr>gw_x := x\<rparr>, s))"

datatype scope = ReadsetScope | GlobalScope | TruthScope | PredicateScope

definition scope_of :: "gw_env \<Rightarrow> query \<Rightarrow> scope" where
  "scope_of e query =
     (let s = lower (dict_get query ''version_scope'' (ge_default_scope e))
      in if s = ''global'' then GlobalScope else if s = ''truth'' then TruthScope
         else if s = ''predicate'' then PredicateScope else ReadsetScope)"

definition gate_version :: "scope \<Rightarrow> int option \<Rightarrow> path_versions \<Rightarrow> string list \<Rightarrow> int option" where
  "gate_version scope ver pv paths =
     (if scope = GlobalScope then ver else if ver \<noteq> None then Some (read_set_version pv paths) else None)"

section \<open>Release into the middleware\<close>

text \<open>\<^verbatim>\<open>publish_command\<close>: conversion errors of single coordinates are caught and printed.\<close>

definition publish_command :: "json \<Rightarrow> json \<Rightarrow> 'x gateway \<Rightarrow> 'x gateway \<times> bool" where
  "publish_command pose gripper g =
     (if \<not> gw_ros g then (g, False)
      else (g\<lparr>gw_sent := gw_sent g @ [(pose, gripper)], gw_ros_count := gw_ros_count g + 1\<rparr>, True))"

definition point :: "rat \<Rightarrow> rat \<Rightarrow> rat \<Rightarrow> json" where
  "point x y z = JObj [(''x'', JFloat (Fin x)), (''y'', JFloat (Fin y)), (''z'', JFloat (Fin z))]"

definition pose_at :: "rat \<Rightarrow> rat \<Rightarrow> rat \<Rightarrow> json" where
  "pose_at x y z = JObj [(''position'', point x y z), (''orientation'', JObj [(''w'', JFloat (Fin 1))])]"

text \<open>\<^verbatim>\<open>x or d\<close>, and \<^verbatim>\<open>d.get(k, {})\<close> of which a method is called.\<close>

definition json_or :: "json \<Rightarrow> json \<Rightarrow> json" where
  "json_or v d = (if falsy v then d else v)"

definition sub_dict :: "ctx \<Rightarrow> string \<Rightarrow> string + ctx" where
  "sub_dict d k = (case dict_get d k (JObj []) of JObj kvs \<Rightarrow> Inr kvs | _ \<Rightarrow> Inl ''AttributeError'')"

definition release_cmd :: "ctx \<Rightarrow> 'x gateway \<Rightarrow> 'x gateway \<times> (string + bool)" where
  "release_cmd data g =
     (let g1 = g\<lparr>gw_releases := gw_releases g + 1\<rparr>
      in case bind_err (sub_dict data ''payload'') (\<lambda>p. bind_err (sub_dict p ''parameters'') (\<lambda>params. Inr (p, params))) of
           Inl exc \<Rightarrow> (g1, Inl exc)
         | Inr (p, params) \<Rightarrow>
             let pose0 = json_or (doc_get params ''pose'') (pose_at (1 / 10) (2 / 10) (3 / 10));
                 gripper = json_or (doc_get params ''gripper'') (point 0 0 0);
                 pose = (if doc_get p ''action_type'' \<in> set [JStr ''RESUME'', JStr ''MOVE'', JStr ''STOP_ROBOT'', JStr ''GRASP'']
                         then pose_at (5 / 10) 0 (5 / 10) else pose0)
             in case publish_command pose gripper g1 of (g2, ros) \<Rightarrow> (g2, Inr ros))"

section \<open>Helpers\<close>

text \<open>\<^verbatim>\<open>str(v)\<close>.\<close>

definition py_str :: "(json \<Rightarrow> string) \<Rightarrow> json \<Rightarrow> string" where
  "py_str other v =
     (case v of JStr s \<Rightarrow> s | JNull \<Rightarrow> ''None'' | JInt i \<Rightarrow> show_int i | JBool b \<Rightarrow> (if b then ''True'' else ''False'') | _ \<Rightarrow> other v)"

text \<open>\<^verbatim>\<open>int(v)\<close> of a JSON value, texts included; \<^const>\<open>Inl\<close> names the exception.\<close>

definition int_of_json :: "json \<Rightarrow> string + int" where
  "int_of_json v =
     (case v of
        JStr s \<Rightarrow> (case py_int_text s of None \<Rightarrow> Inl ''ValueError'' | Some i \<Rightarrow> Inr i)
      | JFloat NaN \<Rightarrow> Inl ''ValueError''
      | JFloat PosInf \<Rightarrow> Inl ''OverflowError''
      | JFloat NegInf \<Rightarrow> Inl ''OverflowError''
      | _ \<Rightarrow> (case py_int_opt v of None \<Rightarrow> Inl ''TypeError'' | Some i \<Rightarrow> Inr i))"

definition legacy_to_ais :: "gw_env \<Rightarrow> ctx \<Rightarrow> string + ctx" where
  "legacy_to_ais e data =
     bind_err (int_of_json (dict_get data ''freshness_window_ms'' (JInt 500))) (\<lambda>fresh.
     bind_err (int_of_json (dict_get data ''priority'' (JInt 10))) (\<lambda>prio.
     let ts = doc_get data ''timestamp_decision''
     in Inr
       [(''id'', json_or (doc_get data ''id'') (JStr (ge_uuid e))),
        (''source'', dict_get data ''source'' (JStr ''xr'')),
        (''timestamp_decision'', JStr (if falsy ts then ge_now_text e else py_str (ge_str e) ts)),
        (''freshness_window_ms'', JInt fresh),
        (''priority'', JInt prio),
        (''preconditions'', dict_get data ''preconditions'' (JList [JObj [(''expr'', JStr (''line.state == '' @ [CHR 0x27] @ ''RUN'' @ [CHR 0x27]))]])),
        (''payload'', JObj
          [(''action_type'', dict_get data ''action_type'' (JStr ''SET_POSE_GRIPPER'')),
           (''target_entity'', dict_get data ''target_entity'' (JStr ''robot_arm'')),
           (''parameters'', JObj [(''pose'', dict_get data ''pose'' (JObj [])), (''gripper'', dict_get data ''gripper'' (JObj []))])])]))"

record gw_result =
  gr_id :: json
  gr_outcome :: "decision_outcome option"
  gr_state :: string
  gr_reason :: string
  gr_released :: bool
  gr_ros :: bool
  gr_baseline :: string
  gr_blocked :: bool
  gr_version :: "int option"
  gr_cell :: "string option"

definition mk_result :: "ctx \<Rightarrow> string \<Rightarrow> decision_outcome option \<Rightarrow> string \<Rightarrow> bool \<Rightarrow> bool \<Rightarrow> int option \<Rightarrow> gw_result" where
  "mk_result data baseline outcome reason released ros ver =
     \<lparr>gr_id = doc_get data ''id'', gr_outcome = outcome, gr_state = (if released then ''RELEASED'' else ''WITHHELD''),
      gr_reason = reason, gr_released = released, gr_ros = ros, gr_baseline = baseline, gr_blocked = False, gr_version = ver,
      gr_cell = None\<rparr>"

definition refused :: "ctx \<Rightarrow> string \<Rightarrow> string \<Rightarrow> int option \<Rightarrow> gw_result" where
  "refused data baseline reason ver = mk_result data baseline (Some REVOKE) reason False False ver"

fun join_comma :: "string list \<Rightarrow> string" where
  "join_comma [] = []"
| "join_comma [s] = s"
| "join_comma (s # ss) = s @ '','' @ join_comma ss"

text \<open>\<^const>\<open>Inl\<close> is the exception of a payload that is no object.\<close>

definition reject_incomplete :: "ctx \<Rightarrow> string \<Rightarrow> string + gw_result option" where
  "reject_incomplete data baseline =
     (if \<not> falsy (doc_get data ''pose'') \<or> \<not> falsy (doc_get data ''command'') then Inr None
      else
        let missing = filter (\<lambda>k. falsy (doc_get data k)) [''id'', ''timestamp_decision'', ''freshness_window_ms'', ''payload'']
        in if missing \<noteq> [] then Inr (Some (refused data baseline (''schema_incomplete:'' @ join_comma missing) None))
           else case doc_get data ''payload'' of
                  JObj p \<Rightarrow> Inr (if falsy (doc_get p ''action_type'')
                                then Some (refused data baseline ''schema_incomplete:action_type'' None) else None)
                | _ \<Rightarrow> Inl ''AttributeError'')"

section \<open>Local policies\<close>

text \<open>The release at the end of a policy that keeps no record in XAIR.\<close>

definition finish :: "ctx \<Rightarrow> string \<Rightarrow> string \<Rightarrow> int option \<Rightarrow> 'x gateway \<Rightarrow> 'x gateway \<times> (string + gw_result)" where
  "finish data baseline reason ver g =
     (case release_cmd data g of
        (g1, Inl exc) \<Rightarrow> (g1, Inl exc)
      | (g1, Inr ros) \<Rightarrow> (g1, Inr (mk_result data baseline (Some EXECUTE) reason True ros ver)))"

definition local_policy :: "gw_env \<Rightarrow> 'x api \<Rightarrow> ctx \<Rightarrow> action_intent \<Rightarrow> string \<Rightarrow> bool \<Rightarrow> 'x gateway \<Rightarrow> 'x gateway \<times> (string + gw_result)" where
  "local_policy e api data intent baseline refresh g =
     (let (g1, trusted) =
        (if refresh then
           (case pull_snapshot api None None g of (g1, s) \<Rightarrow>
              (if gs_trusted s then cache_merge (gs_context s) g1 else g1, gs_trusted s))
         else (g, True))
      in if \<not> trusted then (g1, Inr (refused data baseline ''context_untrusted'' None))
         else case gw_validate e 0 False intent (gw_cache g1) of (ok, reason) \<Rightarrow>
                if \<not> ok then (g1, Inr (refused data baseline reason None))
                else finish data baseline (baseline @ ''_guard_passed'') None g1)"

definition local_authoritative :: "gw_env \<Rightarrow> 'x api \<Rightarrow> ctx \<Rightarrow> action_intent \<Rightarrow> scope \<Rightarrow> 'x gateway \<Rightarrow> 'x gateway \<times> (string + gw_result)" where
  "local_authoritative e api data intent scope g =
     (let baseline = ''local_authoritative''; paths = read_set (safety_constraints intent @ preconditions intent);
          (g1, s1) = pull_snapshot api None None g; ver = gate_version scope (gs_version s1) (gs_pv s1) paths
      in if \<not> gs_trusted s1 then (g1, Inr (refused data baseline ''context_untrusted'' None))
         else case gw_validate e 0 False intent (gs_context s1) of (ok1, reason1) \<Rightarrow>
           if \<not> ok1 then (g1, Inr (refused data baseline reason1 ver))
           else
             let (g2, s2) = pull_snapshot api None None g1; ver2 = gate_version scope (gs_version s2) (gs_pv s2) paths
             in if \<not> gs_trusted s2 then (g2, Inr (refused data baseline ''context_untrusted_at_publish'' ver))
                else if ver = None \<or> ver2 = None \<or> ver2 \<noteq> ver
                then (g2, Inr (refused data baseline ''context_version_changed_at_publish'' ver))
                else case gw_validate e 1 True intent (gs_context s2) of (ok2, reason2) \<Rightarrow>
                  if \<not> ok2 then (g2, Inr (refused data baseline (reason2 @ ''_at_publish'') ver))
                  else finish data baseline ''local_authoritative_read'' ver2 g2)"

section \<open>Effects and the controller\<close>

definition effect_of :: "string option \<Rightarrow> bool \<Rightarrow> effect_status \<times> string" where
  "effect_of cell_result ros =
     (case cell_result of
        Some s \<Rightarrow>
          (if starts_with s ''executed'' then (EffConfirmed, s)
           else if starts_with s ''refused'' then (EffFailed, s)
           else (EffUnknown, s))
      | None \<Rightarrow> (EffUnknown, if ros then ''ros_published_no_feedback'' else ''no_actuator_feedback''))"

definition CELL_ACTUATORS :: "string list" where
  "CELL_ACTUATORS = [''plc_plain'', ''plc_conditional'', ''plc_predicate'', ''openplc_plain'', ''openplc_conditional'', ''openplc_predicate'']"

text \<open>The call for an actuator; \<^term>\<open>expected\<close> is the witnessed controller version (\<^const>\<open>JNull\<close>: none).\<close>

definition cell_call_of :: "string \<Rightarrow> string \<Rightarrow> json \<Rightarrow> rat option \<Rightarrow> string + cell_call" where
  "cell_call_of act intent_id expected dl =
     (let d = (case dl of None \<Rightarrow> 0 | Some x \<Rightarrow> x)
      in if starts_with act ''openplc'' then
           (let kind = (if act = ''openplc_conditional'' then OnVersion else if act = ''openplc_predicate'' then OnPredicate else Plain)
            in if expected = JNull then Inr (CallPlc None kind) else bind_err (int_of_json expected) (\<lambda>v. Inr (CallPlc (Some v) kind)))
         else if act = ''plc_conditional'' then
           (if expected = JNull then Inr (CallConditional intent_id (- 1) d)
            else bind_err (int_of_json expected) (\<lambda>v. Inr (CallConditional intent_id v d)))
         else if act = ''plc_predicate'' then Inr (CallPredicate intent_id d)
         else Inr (CallResume intent_id))"

definition release_deadline :: "gw_env \<Rightarrow> ctx \<Rightarrow> rat option" where
  "release_deadline e data =
     map_option (\<lambda>i. decision_epoch_ms i + release_bound_ms i - clock_uncertainty_ms (ge_temporal e)) (intent_or_none e data)"

text \<open>The middleware call (\<^verbatim>\<open>t_m\<close>): the controller's answer, or the ROS publication.\<close>

definition middleware :: "gw_env \<Rightarrow> 'x api \<Rightarrow> query \<Rightarrow> json \<Rightarrow> ctx \<Rightarrow> 'x gateway \<Rightarrow> 'x gateway \<times> (string + bool \<times> string option)" where
  "middleware e api query witness data g =
     (let act = dict_get query ''actuator'' []
      in if act \<in> set CELL_ACTUATORS then
           (case cell_call_of act (py_str (ge_str e) (doc_get data ''id'')) witness (release_deadline e data) of
              Inl exc \<Rightarrow> (g, Inl exc)
            | Inr call \<Rightarrow>
                (case xa_cell api call (gw_x g) of
                   (x, Inl exc) \<Rightarrow> (g\<lparr>gw_x := x\<rparr>, Inl exc)
                 | (x, Inr answer) \<Rightarrow> (g\<lparr>gw_x := x\<rparr>, Inr (False, Some answer))))
         else case release_cmd data g of (g1, Inl exc) \<Rightarrow> (g1, Inl exc) | (g1, Inr ros) \<Rightarrow> (g1, Inr (ros, None)))"

section \<open>The policies that go through XAIR\<close>

text \<open>What the part after the validation leaves behind.\<close>

record gate_run =
  gk_released :: bool
  gk_ros :: bool
  gk_blocked :: bool
  gk_reason :: string
  gk_cell :: "string option"
  gk_state :: string

text \<open>The release report; an exception is noted in the reason, and the state stays the one XAIR gave before.\<close>

definition report_to_xair :: "'x api \<Rightarrow> string \<Rightarrow> release_body \<Rightarrow> string \<Rightarrow> gate_run \<Rightarrow> 'x gateway \<Rightarrow> 'x gateway \<times> gate_run" where
  "report_to_xair api i body note run g =
     (case xa_release api i body (gw_x g) of
        (x, Inl exc) \<Rightarrow> (g\<lparr>gw_x := x\<rparr>, run\<lparr>gk_reason := gk_reason run @ ''|'' @ note @ '':'' @ exc\<rparr>)
      | (x, Inr state) \<Rightarrow> (g\<lparr>gw_x := x\<rparr>, run\<lparr>gk_state := state\<rparr>))"

definition release_doc :: "gate_run \<Rightarrow> int option \<Rightarrow> int option \<Rightarrow> release_body" where
  "release_doc run cv rv =
     (case effect_of (gk_cell run) (gk_ros run) of (status, detail) \<Rightarrow>
        \<lparr>rb_released = gk_released run, rb_reason = gk_reason run, rb_context_version = cv, rb_read_set_version = rv,
         rb_effect_status = (if gk_released run then Some status else None),
         rb_effect_detail = (if gk_released run then detail else [])\<rparr>)"

definition stop_release :: "'x api \<Rightarrow> xair_result \<Rightarrow> string \<Rightarrow> ctx \<Rightarrow> 'x gateway \<Rightarrow> 'x gateway \<times> gate_run" where
  "stop_release api res i data g =
     (let reason = ''released_risk_reducing_action'';
          (g1, run) =
            (case release_cmd data g of
               (g1, Inr ros) \<Rightarrow> (g1, \<lparr>gk_released = True, gk_ros = ros, gk_blocked = False, gk_reason = reason, gk_cell = None, gk_state = xr_state res\<rparr>)
             | (g1, Inl exc) \<Rightarrow> (g1, \<lparr>gk_released = True, gk_ros = False, gk_blocked = False, gk_reason = reason,
                                     gk_cell = Some (''error:'' @ exc), gk_state = xr_state res\<rparr>))
      in report_to_xair api i (release_doc run None None) ''release_audit_error'' run g1)"

text \<open>\<^verbatim>\<open>float(query.get(k, 0) or 0)\<close>.\<close>

definition query_float :: "query \<Rightarrow> string \<Rightarrow> pyfloat option" where
  "query_float query k = (let s = dict_get query k [] in if s = [] then Some (Fin 0) else py_float s)"

text \<open>The release guard: the deadline on the gateway's clock, just before the call; a failed guard is reported as withheld.\<close>

definition release_guard :: "gw_env \<Rightarrow> 'x api \<Rightarrow> string \<Rightarrow> ctx \<Rightarrow> string \<Rightarrow> 'x gateway \<Rightarrow> 'x gateway \<times> bool \<times> string" where
  "release_guard e api i data reason g =
     (case (case intent_or_none e data of Some intent \<Rightarrow> temporal_check e 0 True intent | None \<Rightarrow> (False, ''schema'')) of
        (ok, why) \<Rightarrow>
          if ok then (g, True, reason)
          else let why' = ''withheld_by_release_guard:'' @ why
               in case xa_withheld api i why' (gw_x g) of (x, _) \<Rightarrow> (g\<lparr>gw_x := x\<rparr>, False, why'))"

text \<open>The server answers 422 to a margin that is not finite, which the client raises as \<^verbatim>\<open>HTTPError\<close>.\<close>

definition atomic_commit :: "gw_env \<Rightarrow> 'x api \<Rightarrow> query \<Rightarrow> scope \<Rightarrow> xair_result \<Rightarrow> string \<Rightarrow> ctx \<Rightarrow> 'x gateway \<Rightarrow> 'x gateway \<times> gate_run" where
  "atomic_commit e api query scope res i data g =
     (let blocked = (\<lambda>reason. \<lparr>gk_released = False, gk_ros = False, gk_blocked = True, gk_reason = reason, gk_cell = None, gk_state = xr_state res\<rparr>)
      in case query_float query ''commit_margin_ms'' of
           None \<Rightarrow> (g, blocked ''atomic_actuation_error:ValueError'')
         | Some (Fin margin) \<Rightarrow>
             (case xa_commit api i (scope = TruthScope) margin (gw_x g) of
                (x, Inl exc) \<Rightarrow> (g\<lparr>gw_x := x\<rparr>, blocked (''atomic_actuation_error:'' @ exc))
              | (x, Inr act) \<Rightarrow>
                  let g1 = g\<lparr>gw_x := x\<rparr>; reason0 = (if ac_reason act = [] then ''atomic_commit'' else ac_reason act);
                      (g2, guard_ok, reason) =
                        (if ac_committed act \<and> dict_get query ''release_guard'' ''0'' = ''1''
                         then release_guard e api i data reason0 g1 else (g1, True, reason0))
                  in if ac_committed act \<and> guard_ok then
                       (case middleware e api query (doc_get (xr_read_values res) ''line.version'') data g2 of
                          (g3, Inr (ros, cell)) \<Rightarrow>
                            (g3, \<lparr>gk_released = True, gk_ros = ros, gk_blocked = False, gk_reason = reason, gk_cell = cell, gk_state = xr_state res\<rparr>)
                        | (g3, Inl exc) \<Rightarrow>
                            (g3, \<lparr>gk_released = True, gk_ros = False, gk_blocked = False, gk_reason = ''atomic_actuation_error:'' @ exc,
                                  gk_cell = Some (''error:'' @ exc), gk_state = xr_state res\<rparr>))
                     else (g2, blocked reason))
         | Some _ \<Rightarrow> (g, blocked ''atomic_actuation_error:HTTPError''))"

definition atomic_release :: "gw_env \<Rightarrow> 'x api \<Rightarrow> query \<Rightarrow> scope \<Rightarrow> xair_result \<Rightarrow> string \<Rightarrow> ctx \<Rightarrow> 'x gateway \<Rightarrow> 'x gateway \<times> gate_run" where
  "atomic_release e api query scope res i data g =
     (case atomic_commit e api query scope res i data g of (g1, run) \<Rightarrow>
        if gk_released run then report_to_xair api i (release_doc run None None) ''release_audit_error'' run g1 else (g1, run))"

text \<open>The optimistic gate (\<^verbatim>\<open>t_g\<close>) on the snapshot it reads.\<close>

definition validation_version :: "scope \<Rightarrow> xair_result \<Rightarrow> int option" where
  "validation_version scope res =
     (case scope of ReadsetScope \<Rightarrow> xr_read_set_version res | TruthScope \<Rightarrow> xr_predicate_version res | _ \<Rightarrow> xr_context_version res)"

definition current_gate_version :: "scope \<Rightarrow> xair_result \<Rightarrow> gate_snapshot \<Rightarrow> int option" where
  "current_gate_version scope res s =
     (if scope = TruthScope then Some (predicate_version (gs_preds s) (xr_predicates res))
      else gate_version scope (gs_version s) (gs_pv s) (xr_read_set res))"

definition versions_agree :: "int option \<Rightarrow> int option \<Rightarrow> bool" where
  "versions_agree v cur = (case (v, cur) of (Some a, Some b) \<Rightarrow> 0 \<le> a \<and> 0 \<le> b \<and> b = a | _ \<Rightarrow> False)"

text \<open>\<^verbatim>\<open>s.replace(a, b)\<close> for a text \<^term>\<open>a\<close> that is not empty.\<close>

function replace_text :: "string \<Rightarrow> string \<Rightarrow> string \<Rightarrow> string" where
  "replace_text a b s =
     (if s = [] then []
      else if a \<noteq> [] \<and> starts_with s a then b @ replace_text a b (drop (length a) s)
      else hd s # replace_text a b (tl s))"
  by pat_completeness auto
termination
  by (relation "measure (\<lambda>(a, b, s). length s)") (auto simp: diff_less)

declare replace_text.simps [simp del]

definition optimistic_check :: "gw_env \<Rightarrow> scope \<Rightarrow> xair_result \<Rightarrow> action_intent option \<Rightarrow> gate_snapshot \<Rightarrow> bool \<times> string" where
  "optimistic_check e scope res intent s =
     (if \<not> gs_trusted s then (False, ''context_untrusted_at_publish'')
      else if gs_intent_state s \<noteq> Some AUTHORIZED then
        (False, case gs_intent_state s of None \<Rightarrow> ''intent_unknown_at_gate'' | Some st \<Rightarrow> ''intent_'' @ lower (state_value st) @ ''_at_gate'')
      else if scope \<noteq> PredicateScope \<and> \<not> versions_agree (validation_version scope res) (current_gate_version scope res s) then
        (False, if scope = ReadsetScope then ''read_set_version_changed_at_gate''
                else if scope = TruthScope then ''predicate_truth_changed_at_gate'' else ''context_version_changed_at_publish'')
      else case intent of
             None \<Rightarrow> (False, ''schema_invalid_at_publish'')
           | Some i \<Rightarrow>
               (case gw_validate e 0 True i (gs_context s) of (ok, reason) \<Rightarrow>
                  if \<not> ok then (False, reason @ ''_at_publish'')
                  else case predicates_check e 1 (xr_policy_predicates res) [] (gs_context s) of (ok2, reason2) \<Rightarrow>
                    if \<not> ok2 then (False, replace_text ''safety_constraint_failed'' ''policy_predicate_failed'' reason2 @ ''_at_publish'')
                    else (True, ''published_after_gate_recheck'')))"

text \<open>The witness of the optimistic gate: the controller version in the snapshot it read, otherwise the one read at validation.\<close>

definition gate_witness :: "xair_result \<Rightarrow> ctx \<Rightarrow> json" where
  "gate_witness res c = (case get_path c ''line.version'' of Some v \<Rightarrow> v | None \<Rightarrow> doc_get (xr_read_values res) ''line.version'')"

definition optimistic_gate :: "gw_env \<Rightarrow> 'x api \<Rightarrow> query \<Rightarrow> scope \<Rightarrow> xair_result \<Rightarrow> string \<Rightarrow> ctx \<Rightarrow> 'x gateway \<Rightarrow> 'x gateway \<times> gate_run \<times> int option" where
  "optimistic_gate e api query scope res i data g =
     (case pull_snapshot api (if scope = TruthScope then Some (xr_predicates res) else None) (Some i) g of (g1, s) \<Rightarrow>
        let cur = current_gate_version scope res s;
            blocked = (\<lambda>reason. \<lparr>gk_released = False, gk_ros = False, gk_blocked = True, gk_reason = reason, gk_cell = None, gk_state = xr_state res\<rparr>)
        in case optimistic_check e scope res (intent_or_none e data) s of
             (False, reason) \<Rightarrow> (g1, blocked reason, cur)
           | (True, reason) \<Rightarrow>
               (case middleware e api query (gate_witness res (gs_context s)) data g1 of
                  (g2, Inl exc) \<Rightarrow> (g2, blocked (''publication_gate_error:'' @ exc), cur)
                | (g2, Inr (ros, cell)) \<Rightarrow>
                    (g2, \<lparr>gk_released = True, gk_ros = ros, gk_blocked = False, gk_reason = reason, gk_cell = cell, gk_state = xr_state res\<rparr>, cur)))"

definition optimistic_release :: "gw_env \<Rightarrow> 'x api \<Rightarrow> query \<Rightarrow> scope \<Rightarrow> xair_result \<Rightarrow> string \<Rightarrow> ctx \<Rightarrow> 'x gateway \<Rightarrow> 'x gateway \<times> gate_run" where
  "optimistic_release e api query scope res i data g =
     (case optimistic_gate e api query scope res i data g of (g1, run, cur) \<Rightarrow>
        report_to_xair api i
          (release_doc run (if scope = GlobalScope then cur else None) (if scope = ReadsetScope then cur else None))
          ''publication_audit_error'' run g1)"

definition run_result :: "xair_result \<Rightarrow> bool \<Rightarrow> int option \<Rightarrow> decision_outcome option \<Rightarrow> gate_run \<Rightarrow> gw_result" where
  "run_result res atomic ver outcome run =
     \<lparr>gr_id = xr_id res, gr_outcome = (if gk_blocked run then Some REVOKE else outcome), gr_state = gk_state run, gr_reason = gk_reason run,
      gr_released = gk_released run, gr_ros = gk_ros run, gr_baseline = (if atomic then ''xair_atomic'' else ''xair''),
      gr_blocked = gk_blocked run, gr_version = ver, gr_cell = gk_cell run\<rparr>"

definition xair_policy :: "gw_env \<Rightarrow> 'x api \<Rightarrow> bool \<Rightarrow> query \<Rightarrow> ctx \<Rightarrow> 'x gateway \<Rightarrow> 'x gateway \<times> (string + gw_result)" where
  "xair_policy e api atomic query data0 g =
     (case xa_submit api data0 (gw_x g) of
        (x, Inl exc) \<Rightarrow> (g\<lparr>gw_x := x\<rparr>, Inr (refused data0 ''xair'' (''xair_unreachable:'' @ exc) None))
      | (x, Inr res) \<Rightarrow>
          let g1 = g\<lparr>gw_x := x\<rparr>; data = (case xr_payload res of Some p \<Rightarrow> if p = [] then data0 else dict_set ''payload'' (JObj p) data0 | None \<Rightarrow> data0);
              outcome = xr_outcome res; scope = scope_of e query; ver = validation_version scope res;
              i = py_str (ge_str e) (xr_id res);
              finished = (\<lambda>p. case p of (g', run) \<Rightarrow> (g', Inr (run_result res atomic ver outcome run)))
          in if xr_duplicate res then (g1, Inr (mk_result data ''xair'' outcome ''duplicate_idempotent_replay'' False False ver))
             else if query_float query ''publish_delay_ms'' = None then (g1, Inl ''ValueError'')
             else if outcome = Some EXECUTE \<and> xr_action_class res = ''stop'' then finished (stop_release api res i data g1)
             else if outcome = Some EXECUTE \<and> atomic then finished (atomic_release e api query scope res i data g1)
             else if outcome = Some EXECUTE then finished (optimistic_release e api query scope res i data g1)
             else finished (g1, \<lparr>gk_released = False, gk_ros = False, gk_blocked = False,
                    gk_reason = (if xr_reason res = [] then ''validation_rejected'' else xr_reason res), gk_cell = None, gk_state = xr_state res\<rparr>))"

section \<open>The policy engine\<close>

text \<open>\<^verbatim>\<open>_opa_predicates\<close>: a number becomes a float.\<close>

definition opa_value :: "json \<Rightarrow> json" where
  "opa_value v = (case v of JInt i \<Rightarrow> JFloat (double_of_rat (of_int i)) | _ \<Rightarrow> v)"

fun opa_predicates :: "string list \<Rightarrow> opa_pred list option" where
  "opa_predicates [] = Some []"
| "opa_predicates (expr # exprs) =
     (case parse_pred (strip expr) of
        None \<Rightarrow> None
      | Some (path, op, v) \<Rightarrow>
          (case opa_predicates exprs of
             None \<Rightarrow> None
           | Some ps \<Rightarrow> Some (\<lparr>op_path = split_dot path, op_op = op, op_value = opa_value v\<rparr> # ps)))"

definition opa_policy :: "gw_env \<Rightarrow> 'x api \<Rightarrow> query \<Rightarrow> ctx \<Rightarrow> action_intent \<Rightarrow> 'x gateway \<Rightarrow> 'x gateway \<times> (string + gw_result)" where
  "opa_policy e api query data intent g =
     (let versioned = (lower (dict_get query ''version_scope'' []) = ''readset''); label = (if versioned then ''opa_readset'' else ''opa'');
          deny = (\<lambda>g why. (g, Inr (refused data label why None)))
      in case opa_predicates (safety_constraints intent @ preconditions intent) of
           None \<Rightarrow> deny g ''unsupported_predicate''
         | Some preds \<Rightarrow>
             (case temporal_check e 0 False intent of (ok, reason) \<Rightarrow>
                if \<not> ok then deny g reason
                else
                  (case xa_opa api preds None (gw_x g) of
                     (x1, Inl exc) \<Rightarrow> deny (g\<lparr>gw_x := x1\<rparr>) (''opa_unreachable:'' @ exc)
                   | (x1, Inr d_v) \<Rightarrow>
                       let g1 = g\<lparr>gw_x := x1\<rparr>
                       in if \<not> od_allow d_v then deny g1 ''opa_denied_at_validation''
                          else if query_float query ''publish_delay_ms'' = None then deny g1 ''opa_unreachable:ValueError''
                          else
                            (case temporal_check e 1 True intent of (ok2, reason2) \<Rightarrow>
                               if \<not> ok2 then deny g1 reason2
                               else
                                 (case xa_opa api preds (od_readset_version d_v) (gw_x g1) of
                                    (x2, Inl exc) \<Rightarrow> deny (g1\<lparr>gw_x := x2\<rparr>) (''opa_unreachable:'' @ exc)
                                  | (x2, Inr d_g) \<Rightarrow>
                                      let g2 = g1\<lparr>gw_x := x2\<rparr>
                                      in if (if versioned then od_allow_versioned d_g else od_allow d_g)
                                         then finish data label ''opa_allowed_at_gate'' None g2
                                         else deny g2 (if versioned \<and> od_allow d_g then ''opa_readset_version_changed_at_gate''
                                                       else ''opa_denied_at_gate''))))))"

section \<open>Requests\<close>

definition process_intent_payload :: "gw_env \<Rightarrow> 'x api \<Rightarrow> string \<Rightarrow> query \<Rightarrow> ctx \<Rightarrow> 'x gateway \<Rightarrow> 'x gateway \<times> (string + gw_result)" where
  "process_intent_payload e api mode0 query data0 g =
     (let mode = lower (if mode0 = [] then ''xair'' else mode0)
      in case (if mode = ''direct'' then Inr None else reject_incomplete data0 mode) of
           Inl exc \<Rightarrow> (g, Inl exc)
         | Inr (Some r) \<Rightarrow> (g, Inr r)
         | Inr None \<Rightarrow>
             (case (if falsy (doc_get data0 ''payload'') \<or> falsy (doc_get data0 ''timestamp_decision'') then legacy_to_ais e data0 else Inr data0) of
                Inl exc \<Rightarrow> (g, Inl exc)
              | Inr data \<Rightarrow>
                  if mode = ''direct'' then finish data ''direct'' ''direct_bypass_no_validation'' None g
                  else if mode = ''xair'' then xair_policy e api False query data g
                  else if mode = ''xair_atomic'' then xair_policy e api True query data g
                  else
                    (case intent_or_none e data of
                       None \<Rightarrow> (g, Inr (refused data mode ''schema_invalid'' None))
                     | Some intent \<Rightarrow>
                         if mode = ''naive'' then
                           (case temporal_check e 0 False intent of (ok, reason) \<Rightarrow>
                              if \<not> ok then (g, Inr (refused data ''naive'' reason None))
                              else finish data ''naive'' ''naive_temporal_only'' None g)
                         else if mode = ''local'' then local_policy e api data intent ''local'' True g
                         else if mode = ''local_stale'' then local_policy e api data intent ''local_stale'' False g
                         else if mode = ''local_push'' then
                           local_policy e api data intent ''local_push''
                             (lower (dict_get query ''push_notified'' ''true'') \<in> {''1'', ''true'', ''yes''}) g
                         else if mode = ''local_authoritative'' then local_authoritative e api data intent (scope_of e query) g
                         else if mode = ''opa'' then opa_policy e api query data intent g
                         else (g, Inr (refused data mode (''unknown_mode:'' @ mode) None)))))"

text \<open>\<^const>\<open>Inl\<close> is the error text the handler answers with.\<close>

definition process_context_payload :: "'x api \<Rightarrow> ctx \<Rightarrow> 'x gateway \<Rightarrow> 'x gateway \<times> (string + ctx)" where
  "process_context_payload api data g =
     (let g1 = cache_merge data g
      in case xa_update api data (gw_x g1) of
           (x, Inl exc) \<Rightarrow> (g1\<lparr>gw_x := x\<rparr>, Inl exc)
         | (x, Inr out) \<Rightarrow> (g1\<lparr>gw_x := x\<rparr>, if out = [] then Inl ''empty response from XAIR'' else Inr out))"

end
