(* ===== verification/Gateway_Properties.thy ===== *)
theory Gateway_Properties
  imports Gateway
begin

text \<open>
  What a release at the gateway rests on, for any services behind it (record \<^typ>\<open>'x api\<close>): a commit in the
  atomic mode, a recheck on a trusted snapshot in the optimistic mode; and what the gateway does when nothing
  answers.
\<close>

section \<open>The atomic mode\<close>

lemma report_to_xair_keeps [simp]:
  "gk_released (snd (report_to_xair api i body note run g)) = gk_released run"
  "gk_blocked (snd (report_to_xair api i body note run g)) = gk_blocked run"
  "gk_cell (snd (report_to_xair api i body note run g)) = gk_cell run"
  "gw_releases (fst (report_to_xair api i body note run g)) = gw_releases g"
  "gw_sent (fst (report_to_xair api i body note run g)) = gw_sent g"
  by (simp_all add: report_to_xair_def split: prod.split sum.split)

lemma report_to_xair_released:
  "report_to_xair api i body note run g = (g', run') \<Longrightarrow>
   gk_released run' = gk_released run \<and> gw_releases g' = gw_releases g \<and> gw_sent g' = gw_sent g"
  by (metis report_to_xair_keeps(1,4,5) fst_conv snd_conv)

text \<open>The commit a released run rests on: its reply says committed, and with the guard on the deadline still holds.\<close>

definition commit_backed :: "gw_env \<Rightarrow> 'x api \<Rightarrow> query \<Rightarrow> scope \<Rightarrow> string \<Rightarrow> ctx \<Rightarrow> 'x \<Rightarrow> bool" where
  "commit_backed e api query scope i data x \<longleftrightarrow>
     (\<exists>margin x' act. query_float query ''commit_margin_ms'' = Some (Fin margin) \<and>
        xa_commit api i (scope = TruthScope) margin x = (x', Inr act) \<and> ac_committed act) \<and>
     (dict_get query ''release_guard'' ''0'' = ''1'' \<longrightarrow>
        (\<exists>intent. intent_or_none e data = Some intent \<and> fst (validate_release (ge_temporal e) intent (ge_now e 0))))"

lemma release_guard_ok:
  "release_guard e api i data reason g = (g', True, reason') \<Longrightarrow>
   \<exists>intent. intent_or_none e data = Some intent \<and> fst (validate_release (ge_temporal e) intent (ge_now e 0))"
  by (auto simp: release_guard_def temporal_check_def Let_def split: option.splits prod.splits if_splits)

lemma release_guard_keeps:
  "release_guard e api i data reason g = (g', ok, reason') \<Longrightarrow> gw_releases g' = gw_releases g \<and> gw_sent g' = gw_sent g"
  by (auto simp: release_guard_def Let_def split: option.splits prod.splits if_splits)

text \<open>What follows a commit reply.\<close>

definition guarded :: "gw_env \<Rightarrow> 'x api \<Rightarrow> query \<Rightarrow> string \<Rightarrow> ctx \<Rightarrow> commit_reply \<Rightarrow> 'x gateway \<Rightarrow> 'x gateway \<times> bool \<times> string" where
  "guarded e api query i data act g =
     (let reason = (if ac_reason act = [] then ''atomic_commit'' else ac_reason act)
      in if ac_committed act \<and> dict_get query ''release_guard'' ''0'' = ''1'' then release_guard e api i data reason g else (g, True, reason))"

lemma atomic_commit_cases:
  assumes "atomic_commit e api query scope res i data g = (g', run)"
  obtains (refused) "\<not> gk_released run" "gk_blocked run" "gw_releases g' = gw_releases g" "gw_sent g' = gw_sent g"
  | (called) margin x act g2 reason where
      "query_float query ''commit_margin_ms'' = Some (Fin margin)" "xa_commit api i (scope = TruthScope) margin (gw_x g) = (x, Inr act)"
      "ac_committed act" "guarded e api query i data act (g\<lparr>gw_x := x\<rparr>) = (g2, True, reason)"
      "g' = fst (middleware e api query (doc_get (xr_read_values res) ''line.version'') data g2)" "gk_released run" "\<not> gk_blocked run"
      "gk_cell run = (case snd (middleware e api query (doc_get (xr_read_values res) ''line.version'') data g2) of
         Inl exc \<Rightarrow> Some (''error:'' @ exc) | Inr (ros, cell) \<Rightarrow> cell)"
proof (cases "query_float query ''commit_margin_ms''")
  case None
  then show ?thesis using assms that(1) by (auto simp: atomic_commit_def)
next
  case (Some m)
  show ?thesis
  proof (cases m)
    case (Fin margin)
    obtain x r where c: "xa_commit api i (scope = TruthScope) margin (gw_x g) = (x, r)" by fastforce
    show ?thesis
    proof (cases r)
      case (Inl exc)
      then show ?thesis using assms that(1) Some Fin c by (auto simp: atomic_commit_def)
    next
      case (Inr act)
      obtain g2 ok reason where gd: "guarded e api query i data act (g\<lparr>gw_x := x\<rparr>) = (g2, ok, reason)" by (metis prod_cases3)
      have keep: "gw_releases g2 = gw_releases g" "gw_sent g2 = gw_sent g"
        using gd release_guard_keeps [of e api i data _ "g\<lparr>gw_x := x\<rparr>"] by (fastforce simp: guarded_def Let_def split: if_splits)+
      have a: "atomic_commit e api query scope res i data g = (g', run)" by fact
      show ?thesis
      proof (cases "ac_committed act \<and> ok")
        case True
        then show ?thesis using a that(2) Some Fin c Inr gd
          by (auto simp: atomic_commit_def guarded_def Let_def split: prod.splits sum.splits)
      next
        case False
        then show ?thesis using a that(1) Some Fin c Inr gd keep
          by (auto simp: atomic_commit_def guarded_def Let_def split: prod.splits)
      qed
    qed
  qed (use assms that(1) Some in \<open>auto simp: atomic_commit_def\<close>)
qed

section \<open>Both modes\<close>

text \<open>What the gateway releases: the payload XAIR authorized, if it sent one.\<close>

definition released_data :: "xair_result \<Rightarrow> ctx \<Rightarrow> ctx" where
  "released_data res data = (case xr_payload res of Some p \<Rightarrow> if p = [] then data else dict_set ''payload'' (JObj p) data | None \<Rightarrow> data)"

definition not_run :: "xair_result \<Rightarrow> gate_run" where
  "not_run res = \<lparr>gk_released = False, gk_ros = False, gk_blocked = False,
     gk_reason = (if xr_reason res = [] then ''validation_rejected'' else xr_reason res), gk_cell = None, gk_state = xr_state res\<rparr>"

definition policy_run :: "gw_env \<Rightarrow> 'x api \<Rightarrow> bool \<Rightarrow> query \<Rightarrow> ctx \<Rightarrow> xair_result \<Rightarrow> 'x gateway \<Rightarrow> 'x gateway \<times> gate_run" where
  "policy_run e api atomic query data res g =
     (let i = py_str (ge_str e) (xr_id res); scope = scope_of e query; d = released_data res data
      in if xr_outcome res \<noteq> Some EXECUTE then (g, not_run res)
         else if xr_action_class res = ''stop'' then stop_release api res i d g
         else if atomic then atomic_release e api query scope res i d g
         else optimistic_release e api query scope res i d g)"

lemma xair_policy_reply:
  assumes "xair_policy e api atomic query data g = (g', Inr r)" "gr_released r"
  obtains x res run where "xa_submit api data (gw_x g) = (x, Inr res)" "\<not> xr_duplicate res" "xr_outcome res = Some EXECUTE"
    "policy_run e api atomic query data res (g\<lparr>gw_x := x\<rparr>) = (g', run)" "gk_released run" "gr_cell r = gk_cell run" "gr_state r = gk_state run"
proof -
  obtain x s where sub: "xa_submit api data (gw_x g) = (x, s)" by fastforce
  then obtain res where res: "s = Inr res" using assms by (cases s) (auto simp: xair_policy_def refused_def mk_result_def)
  obtain g2 run where run: "policy_run e api atomic query data res (g\<lparr>gw_x := x\<rparr>) = (g2, run)" by fastforce
  have "xair_policy e api atomic query data g =
      (if xr_duplicate res then (g\<lparr>gw_x := x\<rparr>, Inr (mk_result (released_data res data) ''xair'' (xr_outcome res) ''duplicate_idempotent_replay'' False False
            (validation_version (scope_of e query) res)))
       else if query_float query ''publish_delay_ms'' = None then (g\<lparr>gw_x := x\<rparr>, Inl ''ValueError'')
       else (g2, Inr (run_result res atomic (validation_version (scope_of e query) res) (xr_outcome res) run)))"
    using sub res run by (auto simp: xair_policy_def policy_run_def released_data_def not_run_def Let_def split: prod.splits option.splits)
  then have "\<not> xr_duplicate res" "g2 = g'" "r = run_result res atomic (validation_version (scope_of e query) res) (xr_outcome res) run"
    using assms by (auto simp: mk_result_def split: if_splits)
  moreover from this have "gk_released run" using assms(2) by (simp add: run_result_def)
  moreover from this have "xr_outcome res = Some EXECUTE" using run by (auto simp: policy_run_def not_run_def Let_def split: if_splits)
  ultimately show thesis using that [OF sub [unfolded res]] run by (simp add: run_result_def)
qed

lemma atomic_release_commit:
  assumes "atomic_release e api query scope res i data g = (g', run)" "gk_released run"
  shows "commit_backed e api query scope i data (gw_x g)"
proof -
  obtain g1 run1 where c: "atomic_commit e api query scope res i data g = (g1, run1)" by fastforce
  have "gk_released run1" using assms c report_to_xair_released by (fastforce simp: atomic_release_def split: if_splits)
  with c show ?thesis
  proof (cases rule: atomic_commit_cases)
    case (called margin x act g2 reason)
    then show ?thesis using release_guard_ok [of e api i data _ "g\<lparr>gw_x := x\<rparr>" g2]
      by (auto simp: commit_backed_def guarded_def Let_def split: if_splits)
  qed simp
qed

text \<open>
  C7: in the atomic mode nothing but a stop reaches the middleware without a commit. If the gateway reports a
  release, then XAIR answered the submission with a fresh \<^verbatim>\<open>EXECUTE\<close> (not a replay), and the action is of the stop
  class or XAIR has answered the commit of that id, asked for right after it, with \<^verbatim>\<open>committed\<close>; with the release
  guard on, the deadline also held on the gateway's clock. XAIR, the controller and the network are arbitrary.
\<close>

theorem atomic_release_needs_commit:
  assumes "xair_policy e api True query data g = (g', Inr r)" "gr_released r"
  shows "\<exists>x res. xa_submit api data (gw_x g) = (x, Inr res) \<and> \<not> xr_duplicate res \<and> xr_outcome res = Some EXECUTE \<and>
    (xr_action_class res = ''stop'' \<or>
     commit_backed e api query (scope_of e query) (py_str (ge_str e) (xr_id res)) (released_data res data) x)"
proof -
  from assms obtain x res run where "xa_submit api data (gw_x g) = (x, Inr res)" "\<not> xr_duplicate res" "xr_outcome res = Some EXECUTE"
    and run: "policy_run e api True query data res (g\<lparr>gw_x := x\<rparr>) = (g', run)" "gk_released run"
    by (rule xair_policy_reply)
  moreover have "commit_backed e api query (scope_of e query) (py_str (ge_str e) (xr_id res)) (released_data res data) x"
    if "xr_action_class res \<noteq> ''stop''"
    using that run calculation(3) atomic_release_commit by (fastforce simp: policy_run_def Let_def)
  ultimately show ?thesis by blast
qed

section \<open>The optimistic mode\<close>

text \<open>The snapshot a released run was rechecked on.\<close>

definition recheck_passed :: "gw_env \<Rightarrow> scope \<Rightarrow> xair_result \<Rightarrow> ctx \<Rightarrow> gate_snapshot \<Rightarrow> bool" where
  "recheck_passed e scope res data s \<longleftrightarrow>
     gs_trusted s \<and> gs_intent_state s = Some AUTHORIZED \<and>
     (scope = PredicateScope \<or> (\<exists>v\<ge>0. validation_version scope res = Some v \<and> current_gate_version scope res s = Some v)) \<and>
     (\<exists>intent. intent_or_none e data = Some intent \<and> fst (validate_release (ge_temporal e) intent (ge_now e 0)) \<and>
        list_all (\<lambda>x. truth x (gs_context s)) (safety_constraints intent @ preconditions intent @ xr_policy_predicates res))"

lemma predicates_check_true:
  "fst (predicates_check e k safety pre c) \<Longrightarrow> list_all (\<lambda>x. truth x c) (safety @ pre)"
  by (auto simp: predicates_check_def evaluate_predicates_ok list_all_iff)

lemma gw_validate_ok:
  "fst (gw_validate e k True intent c) \<Longrightarrow>
   fst (validate_release (ge_temporal e) intent (ge_now e k)) \<and> list_all (\<lambda>x. truth x c) (safety_constraints intent @ preconditions intent)"
  by (auto simp: gw_validate_def temporal_check_def dest: predicates_check_true split: prod.splits if_splits)

lemma versions_agree_iff: "versions_agree v cur \<longleftrightarrow> (\<exists>n\<ge>0. v = Some n \<and> cur = Some n)"
  by (auto simp: versions_agree_def split: option.splits)

lemma optimistic_check_passed:
  assumes "optimistic_check e scope res (intent_or_none e data) s = (True, reason)"
  shows "recheck_passed e scope res data s"
proof -
  obtain intent where i: "intent_or_none e data = Some intent" "fst (gw_validate e 0 True intent (gs_context s))"
    "fst (predicates_check e 1 (xr_policy_predicates res) [] (gs_context s))"
    using assms by (auto simp: optimistic_check_def split: if_splits option.splits prod.splits)
  have "gs_trusted s" "gs_intent_state s = Some AUTHORIZED"
    "scope = PredicateScope \<or> versions_agree (validation_version scope res) (current_gate_version scope res s)"
    using assms by (auto simp: optimistic_check_def split: if_splits option.splits)
  then show ?thesis
    using i gw_validate_ok [OF i(2)] predicates_check_true [OF i(3)] unfolding recheck_passed_def versions_agree_iff by fastforce
qed

lemma optimistic_release_recheck:
  assumes "optimistic_release e api query scope res i data g = (g', run)" "gk_released run"
  shows "\<exists>x s. xa_snapshot api (if scope = TruthScope then Some (xr_predicates res) else None) (Some i) (gw_x g) = (x, Inr s) \<and>
    recheck_passed e scope res data s"
proof -
  let ?exprs = "if scope = TruthScope then Some (xr_predicates res) else None"
  obtain g1 run1 cur where gate: "optimistic_gate e api query scope res i data g = (g1, run1, cur)" by (metis prod_cases3)
  have rel: "gk_released run1" using assms gate report_to_xair_released by (fastforce simp: optimistic_release_def)
  obtain g2 s where pull: "pull_snapshot api ?exprs (Some i) g = (g2, s)" by fastforce
  obtain ok reason where chk: "optimistic_check e scope res (intent_or_none e data) s = (ok, reason)" by fastforce
  have ok using gate pull chk rel by (cases ok) (auto simp: optimistic_gate_def Let_def)
  then have passed: "recheck_passed e scope res data s" using chk optimistic_check_passed by fastforce
  then have "s \<noteq> no_snapshot" by (auto simp: recheck_passed_def no_snapshot_def)
  then show ?thesis using pull passed by (auto simp: pull_snapshot_def split: prod.splits sum.splits)
qed

text \<open>
  C8: in the optimistic mode nothing but a stop is released on an unchecked snapshot. If the gateway reports a
  release, XAIR answered with a fresh \<^verbatim>\<open>EXECUTE\<close>, and the action is of the stop class or the gate has read, after
  that answer, a trusted snapshot on which the recheck holds: the intent is still \<^const>\<open>AUTHORIZED\<close> (neither revoked
  nor unknown), the version of the chosen scope is the one of the validation and not negative (the predicate-only
  scope has none), the deadline holds on the gateway's clock, and all predicates of the producer and of the
  operator are true. A read that raises is no trusted snapshot.
\<close>

theorem optimistic_release_needs_recheck:
  assumes "xair_policy e api False query data g = (g', Inr r)" "gr_released r"
  shows "\<exists>x res. xa_submit api data (gw_x g) = (x, Inr res) \<and> \<not> xr_duplicate res \<and> xr_outcome res = Some EXECUTE \<and>
    (xr_action_class res = ''stop'' \<or>
     (\<exists>x2 s. xa_snapshot api (if scope_of e query = TruthScope then Some (xr_predicates res) else None)
          (Some (py_str (ge_str e) (xr_id res))) x = (x2, Inr s) \<and>
        recheck_passed e (scope_of e query) res (released_data res data) s))"
proof -
  from assms obtain x res run where "xa_submit api data (gw_x g) = (x, Inr res)" "\<not> xr_duplicate res" "xr_outcome res = Some EXECUTE"
    and run: "policy_run e api False query data res (g\<lparr>gw_x := x\<rparr>) = (g', run)" "gk_released run"
    by (rule xair_policy_reply)
  moreover have "\<exists>x2 s. xa_snapshot api (if scope_of e query = TruthScope then Some (xr_predicates res) else None)
          (Some (py_str (ge_str e) (xr_id res))) x = (x2, Inr s) \<and> recheck_passed e (scope_of e query) res (released_data res data) s"
    if "xr_action_class res \<noteq> ''stop''"
    using that run calculation(3) optimistic_release_recheck by (fastforce simp: policy_run_def Let_def)
  ultimately show ?thesis by blast
qed

section \<open>When nothing answers\<close>

text \<open>Services every call of which raises, leaving the state to them.\<close>

definition silent :: "'x api \<Rightarrow> bool" where
  "silent api \<longleftrightarrow>
     (\<forall>d x. isl (snd (xa_submit api d x))) \<and> (\<forall>ps i x. isl (snd (xa_snapshot api ps i x))) \<and> (\<forall>ps v x. isl (snd (xa_opa api ps v x)))"

text \<open>The modes that ask XAIR or the policy engine before a release.\<close>

definition guarded_modes :: "string set" where
  "guarded_modes = {''xair'', ''xair_atomic'', ''local'', ''local_authoritative'', ''opa''}"

lemma silent_calls:
  assumes "silent api"
  shows "\<exists>x' exc. xa_submit api d x = (x', Inl exc)" "\<exists>x' exc. xa_snapshot api ps i x = (x', Inl exc)" "\<exists>x' exc. xa_opa api qs v x = (x', Inl exc)"
  using assms unfolding silent_def by (metis isl_def prod.collapse)+

definition untouched :: "'x gateway \<Rightarrow> 'x gateway \<times> (string + gw_result) \<Rightarrow> bool" where
  "untouched g out \<longleftrightarrow> gw_releases (fst out) = gw_releases g \<and> gw_sent (fst out) = gw_sent g \<and> (\<forall>r. snd out = Inr r \<longrightarrow> \<not> gr_released r)"

lemma untouched_refused [simp]:
  "untouched g (g\<lparr>gw_x := x\<rparr>, Inr (refused data baseline reason ver))" "untouched g (g, Inr (refused data baseline reason ver))"
  "untouched g (g, Inl exc)"
  by (simp_all add: untouched_def refused_def mk_result_def)

lemma pull_silent:
  assumes "silent api"
  obtains x where "pull_snapshot api ps i g = (g\<lparr>gw_x := x\<rparr>, no_snapshot)"
  using silent_calls(2) [OF assms, of ps i "gw_x g"] by (auto simp: pull_snapshot_def)

lemma xair_policy_silent: "silent api \<Longrightarrow> untouched g (xair_policy e api atomic query data g)"
  using silent_calls(1) [of api data "gw_x g"] by (auto simp: xair_policy_def)

lemma local_authoritative_silent: "silent api \<Longrightarrow> untouched g (local_authoritative e api data intent scope g)"
  by (rule pull_silent [of api None None g]) (simp_all add: local_authoritative_def no_snapshot_def Let_def)

lemma local_policy_silent: "silent api \<Longrightarrow> untouched g (local_policy e api data intent baseline True g)"
  by (rule pull_silent [of api None None g]) (simp_all add: local_policy_def no_snapshot_def)

lemma opa_policy_silent:
  assumes "silent api"
  shows "untouched g (opa_policy e api query data intent g)"
proof (cases "opa_predicates (safety_constraints intent @ preconditions intent)")
  case (Some preds)
  then show ?thesis using silent_calls(3) [OF assms, of preds None "gw_x g"] by (auto simp: opa_policy_def Let_def split: prod.split)
qed (simp add: opa_policy_def Let_def)

lemma reject_incomplete_untouched: "reject_incomplete data baseline = Inr (Some r) \<Longrightarrow> untouched g (g, Inr r)"
  by (auto simp: reject_incomplete_def Let_def split: if_splits json.splits)

text \<open>
  C15: the gateway fails closed. When neither XAIR nor the policy engine answers, no request in a mode that asks
  one of them releases anything: the reply, if there is one, says so, nothing is handed to ROS and the release
  counter stays.
\<close>

theorem gateway_fails_closed:
  assumes "silent api" "lower mode \<in> guarded_modes"
  shows "untouched g (process_intent_payload e api mode query data g)"
proof -
  have m: "mode \<noteq> []" using assms(2) by (auto simp: guarded_modes_def lower_def)
  note silent = xair_policy_silent [OF assms(1)] local_policy_silent [OF assms(1)] local_authoritative_silent [OF assms(1)] opa_policy_silent [OF assms(1)]
  from assms(2) show ?thesis unfolding guarded_modes_def process_intent_payload_def Let_def
    by (elim insertE emptyE) (simp_all add: m silent reject_incomplete_untouched split: sum.split option.split)
qed

section \<open>Instances\<close>

text \<open>Services that give the same answers whatever is asked.\<close>

definition fixed_api :: "(string + xair_result) \<Rightarrow> (string + gate_snapshot) \<Rightarrow> (string + commit_reply) \<Rightarrow> unit api" where
  "fixed_api sub snap com =
     \<lparr>xa_submit = (\<lambda>_ x. (x, sub)), xa_snapshot = (\<lambda>_ _ x. (x, snap)), xa_commit = (\<lambda>_ _ _ x. (x, com)),
      xa_release = (\<lambda>_ _ x. (x, Inr ''RELEASED'')), xa_withheld = (\<lambda>_ _ x. (x, Inr ())), xa_update = (\<lambda>_ x. (x, Inl ''URLError'')),
      xa_cell = (\<lambda>_ x. (x, Inl ''TimeoutError'')), xa_opa = (\<lambda>_ _ x. (x, Inl ''URLError''))\<rparr>"

definition sample_env :: gw_env where
  "sample_env = \<lparr>ge_temporal = \<lparr>max_future_skew_ms = 1000, clock_uncertainty_ms = 0\<rparr>, ge_fromiso = (\<lambda>_. Some (DateTime 0 None)), ge_str = (\<lambda>_. []), ge_uuid = ''u'', ge_now_text = ''t'',
     ge_now = (\<lambda>_. 10), ge_elapsed = (\<lambda>_ _. 0), ge_timeout_s = 5 / 1000, ge_default_scope = ''readset''\<rparr>"

definition sample_reply :: xair_result where
  "sample_reply = \<lparr>xr_id = JStr ''a'', xr_state = ''AUTHORIZED'', xr_outcome = Some EXECUTE, xr_reason = ''ok'', xr_payload = None,
     xr_read_set = [''t''], xr_predicates = [''t < 5''], xr_policy_predicates = [], xr_read_set_version = Some 3, xr_predicate_version = Some 3,
     xr_context_version = Some 3, xr_duplicate = False, xr_action_class = ''motion'', xr_read_values = []\<rparr>"

definition sample_snapshot :: gate_snapshot where
  "sample_snapshot = \<lparr>gs_context = [(''t'', JInt 1)], gs_version = Some 4, gs_pv = [(''t'', 3)], gs_trusted = True, gs_preds = [],
     gs_intent_state = Some AUTHORIZED\<rparr>"

definition sample_data :: ctx where
  "sample_data = [(''id'', JStr ''a''), (''source'', JStr ''xr''), (''timestamp_decision'', JStr ''t''), (''freshness_window_ms'', JInt 1000),
     (''preconditions'', JList [JStr ''t < 5'']), (''payload'', JObj [(''action_type'', JStr ''MOVE''), (''target_entity'', JStr ''r'')])]"

definition idle_gateway :: "unit gateway" where
  "idle_gateway = \<lparr>gw_cache = [], gw_releases = 0, gw_ros_count = 0, gw_ros = True, gw_sent = [], gw_x = ()\<rparr>"

definition reply_released :: "'x gateway \<times> (string + gw_result) \<Rightarrow> bool" where
  "reply_released out = (case snd out of Inr r \<Rightarrow> gr_released r | Inl _ \<Rightarrow> False)"

lemma reply_releasedE: "reply_released out \<Longrightarrow> \<exists>r. out = (fst out, Inr r) \<and> gr_released r"
  by (cases out) (auto simp: reply_released_def split: sum.splits)

definition committing_api :: "unit api" where
  "committing_api = fixed_api (Inr sample_reply) (Inl ''URLError'') (Inr \<lparr>ac_committed = True, ac_reason = ''authorization_committed'', ac_version = Some 4\<rparr>)"

theorem atomic_release_needs_commit_witness:
  "reply_released (xair_policy sample_env committing_api True [(''release_guard'', ''1'')] sample_data idle_gateway) \<and>
   (\<exists>x res. xa_submit committing_api sample_data (gw_x idle_gateway) = (x, Inr res) \<and> \<not> xr_duplicate res \<and>
      (xr_action_class res = ''stop'' \<or>
       commit_backed sample_env committing_api [(''release_guard'', ''1'')] (scope_of sample_env [(''release_guard'', ''1'')])
         (py_str (ge_str sample_env) (xr_id res)) (released_data res sample_data) x))"
proof -
  have rel: "reply_released (xair_policy sample_env committing_api True [(''release_guard'', ''1'')] sample_data idle_gateway)" by code_simp
  from reply_releasedE [OF this] obtain r where
    "xair_policy sample_env committing_api True [(''release_guard'', ''1'')] sample_data idle_gateway =
       (fst (xair_policy sample_env committing_api True [(''release_guard'', ''1'')] sample_data idle_gateway), Inr r)" "gr_released r" by blast
  from atomic_release_needs_commit [OF this] rel show ?thesis by blast
qed

definition snapshot_api :: "unit api" where
  "snapshot_api = fixed_api (Inr sample_reply) (Inr sample_snapshot) (Inl ''URLError'')"

theorem optimistic_release_needs_recheck_witness:
  "reply_released (xair_policy sample_env snapshot_api False [] sample_data idle_gateway) \<and>
   (\<exists>x res. xa_submit snapshot_api sample_data (gw_x idle_gateway) = (x, Inr res) \<and> \<not> xr_duplicate res \<and>
      (xr_action_class res = ''stop'' \<or>
       (\<exists>x2 s. xa_snapshot snapshot_api (if scope_of sample_env [] = TruthScope then Some (xr_predicates res) else None)
            (Some (py_str (ge_str sample_env) (xr_id res))) x = (x2, Inr s) \<and>
          recheck_passed sample_env (scope_of sample_env []) res (released_data res sample_data) s)))"
proof -
  have rel: "reply_released (xair_policy sample_env snapshot_api False [] sample_data idle_gateway)" by code_simp
  from reply_releasedE [OF this] obtain r where
    "xair_policy sample_env snapshot_api False [] sample_data idle_gateway =
       (fst (xair_policy sample_env snapshot_api False [] sample_data idle_gateway), Inr r)" "gr_released r" by blast
  from optimistic_release_needs_recheck [OF this] rel show ?thesis by blast
qed

theorem gateway_fails_closed_witness:
  "untouched idle_gateway (process_intent_payload sample_env (fixed_api (Inl ''URLError'') (Inl ''URLError'') (Inl ''URLError'')) ''xair'' [] sample_data idle_gateway)"
  by (rule gateway_fails_closed) (simp_all add: silent_def fixed_api_def guarded_modes_def lower_def, code_simp)

end
