(* ===== verification/Batch.thy ===== *)
theory Batch
  imports Server
begin

text \<open>
  \<^verbatim>\<open>submit_intent_batch\<close> of \<^verbatim>\<open>xair/adapters/http_server.py\<close>: classification of the items, stops first, intents
  preempted by a stop, losers of a conflict on one target, winners; then the conflict count of the reply.

  \<^term>\<open>es\<close> gives the environment of each store-using step: \<^term>\<open>es 0\<close> the first snapshot read, then one for every
  stop and one for every winner, in order (for a winner, snapshot read 2 is the read that follows the fence); \<^verbatim>\<open>ev_uuid (es k)\<close> is the id generated for item \<^term>\<open>k\<close>. An
  exception in a step ends the request: it is the \<^const>\<open>Http\<close> of the reply, and the changes made before it stay.
\<close>

record batch_row =
  br_id :: json
  br_source :: json
  br_outcome :: "decision_outcome option"
  br_reason :: string

record batch_doc =
  bd_results :: "batch_row list"
  bd_cv :: nat
  bd_winner :: "string option"
  bd_winners :: "string list"
  bd_version :: int

section \<open>Classification of the items\<close>

definition item_row :: "ctx \<Rightarrow> string \<Rightarrow> batch_row" where
  "item_row item reason =
     \<lparr>br_id = doc_get item ''id'', br_source = doc_get item ''source'', br_outcome = Some REVOKE, br_reason = reason\<rparr>"

definition record_row :: "action_intent \<Rightarrow> intent_record \<Rightarrow> batch_row" where
  "record_row intent r =
     \<lparr>br_id = JStr (int_id intent), br_source = JStr (int_source intent), br_outcome = rec_outcome r, br_reason = rec_reason r\<rparr>"

record classified =
  cl_results :: "batch_row list"
  cl_intents :: "action_intent list"
  cl_stops :: "action_intent list"

definition classify_item :: "config \<Rightarrow> runtime \<Rightarrow> bool \<Rightarrow> string \<times> ctx \<Rightarrow> classified \<Rightarrow> classified" where
  "classify_item cf rt trusted x cl =
     (case x of (uuid, item) \<Rightarrow> case cf_schema_error cf item of
        Some err \<Rightarrow> cl\<lparr>cl_results := cl_results cl @ [item_row item (''schema_invalid:'' @ err)]\<rparr>
      | None \<Rightarrow>
          (case from_dict (cf_fromiso cf) uuid item of
             Inl err \<Rightarrow> cl\<lparr>cl_results := cl_results cl @ [item_row item ''schema_invalid:'']\<rparr>
           | Inr intent \<Rightarrow>
               if action_class rt intent \<in> set RISK_REDUCING then cl\<lparr>cl_stops := cl_stops cl @ [intent]\<rparr>
               else if \<not> trusted then cl\<lparr>cl_results := cl_results cl @ [item_row item ''context_store_untrusted'']\<rparr>
               else cl\<lparr>cl_intents := cl_intents cl @ [intent]\<rparr>))"

definition classify :: "config \<Rightarrow> (nat \<Rightarrow> env) \<Rightarrow> runtime \<Rightarrow> bool \<Rightarrow> ctx list \<Rightarrow> classified" where
  "classify cf es rt trusted body =
     fold (classify_item cf rt trusted) (zip (map (\<lambda>k. ev_uuid (es k)) [0..<length body]) body) \<lparr>cl_results = [], cl_intents = [], cl_stops = []\<rparr>"

section \<open>Stops, preempted intents and losers\<close>

text \<open>Sequencing of steps that add rows to the results.\<close>

type_synonym batch_step = "server \<Rightarrow> server \<times> batch_row list reply"

definition then_rows :: "batch_step \<Rightarrow> batch_step \<Rightarrow> batch_step" where
  "then_rows m1 m2 sv =
     (case m1 sv of
        (sv1, Http sc msg) \<Rightarrow> (sv1, Http sc msg)
      | (sv1, Ok rows) \<Rightarrow>
          (case m2 sv1 of
             (sv2, Http sc msg) \<Rightarrow> (sv2, Http sc msg)
           | (sv2, Ok rows') \<Rightarrow> (sv2, Ok (rows @ rows'))))"

definition no_rows :: batch_step where
  "no_rows sv = (sv, Ok [])"

definition admit_in :: "env \<Rightarrow> action_intent \<Rightarrow> server \<Rightarrow> server \<times> intent_record \<times> bool" where
  "admit_in e intent sv = (case admit (ev_mono_s e) False intent (sv_runtime sv) of (rt, r, dup) \<Rightarrow> (sv\<lparr>sv_runtime := rt\<rparr>, r, dup))"

definition batch_stop :: "config \<Rightarrow> env \<Rightarrow> action_intent \<Rightarrow> batch_step" where
  "batch_stop cf e stop sv =
     (case admit_in e stop sv of (sv1, r, dup) \<Rightarrow>
        if rec_state r \<noteq> CREATED then (sv1, Ok [record_row stop r])
        else (case run_rt (validate_twice (request_args e None None) stop) sv1 of
                (sv2, Inl err) \<Rightarrow> (sv2, Http 500 (int_id stop))
              | (sv2, Inr r') \<Rightarrow> (record_stop cf e stop r' sv2, Ok [record_row stop r'])))"

fun batch_stops :: "config \<Rightarrow> (nat \<Rightarrow> env) \<Rightarrow> nat \<Rightarrow> action_intent list \<Rightarrow> batch_step" where
  "batch_stops cf es k [] = no_rows"
| "batch_stops cf es k (stop # stops) = then_rows (batch_stop cf (es k) stop) (batch_stops cf es (Suc k) stops)"

text \<open>An intent refused without validation: by a stop in the batch or by the winner of its target.\<close>

definition batch_refuse :: "env \<Rightarrow> string \<Rightarrow> action_intent \<Rightarrow> batch_step" where
  "batch_refuse e reason intent sv =
     (case admit_in e intent sv of (sv1, r, dup) \<Rightarrow>
        if dup then (sv1, Ok [record_row intent r])
        else (case revoke_now (int_id intent) reason sv1 of
                (sv2, Inl err) \<Rightarrow> (sv2, Http 500 (int_id intent))
              | (sv2, Inr r') \<Rightarrow> (sv2, Ok [record_row intent r'])))"

fun batch_refuse_all :: "env \<Rightarrow> string \<Rightarrow> action_intent list \<Rightarrow> batch_step" where
  "batch_refuse_all e reason [] = no_rows"
| "batch_refuse_all e reason (intent # intents) = then_rows (batch_refuse e reason intent) (batch_refuse_all e reason intents)"

section \<open>Conflicts\<close>

text \<open>\<^verbatim>\<open>by_target\<close> keeps the order in which targets first occur.\<close>

definition targets_of :: "action_intent list \<Rightarrow> string list" where
  "targets_of intents = unique (map (\<lambda>i. target_entity (payload i)) intents)"

definition group_of :: "action_intent list \<Rightarrow> string \<Rightarrow> action_intent list" where
  "group_of intents target = filter (\<lambda>i. target_entity (payload i) = target) intents"

definition groups :: "action_intent list \<Rightarrow> action_intent list list" where
  "groups intents = map (group_of intents) (targets_of intents)"

definition winners_of :: "action_intent list list \<Rightarrow> action_intent list" where
  "winners_of gs = concat (map (\<lambda>g. case fst (resolve_intents g ''priority_then_xr'') of None \<Rightarrow> [] | Some w \<Rightarrow> [w]) gs)"

definition losers_of :: "action_intent list list \<Rightarrow> action_intent list" where
  "losers_of gs = concat (map (\<lambda>g. snd (resolve_intents g ''priority_then_xr'')) gs)"

section \<open>Winners\<close>

definition batch_winner :: "config \<Rightarrow> env \<Rightarrow> action_intent \<Rightarrow> server \<Rightarrow> server \<times> (batch_row list \<times> int option) reply" where
  "batch_winner cf e winner sv =
     (case admit_in e winner sv of (sv1, r, dup) \<Rightarrow>
        if dup then (sv1, Ok ([record_row winner r], None))
        else
          (case fence_intent cf e winner sv1 of
             (sv2, Http sc msg) \<Rightarrow> (sv2, Http sc msg)
           | (sv2, Ok intent) \<Rightarrow>
               let sv3 = on_runtime (modify_record (int_id intent) (\<lambda>r. r\<lparr>rec_intent := intent\<rparr>)) sv2
               in case read_snapshot_full (ev_snap e 2) sv3 of (sv4, c, ver, pv, trusted) \<Rightarrow>
                    (case run_rt (validate_twice (request_args e (Some (c, ver)) None) intent) sv4 of
                       (sv5, Inl err) \<Rightarrow> (sv5, Http 500 (int_id winner))
                     | (sv5, Inr r') \<Rightarrow>
                         ((if rec_state r' = AUTHORIZED then on_runtime (unlock r') sv5 else sv5),
                          Ok ([record_row winner r'], Some ver)))))"

fun batch_winners :: "config \<Rightarrow> (nat \<Rightarrow> env) \<Rightarrow> nat \<Rightarrow> int \<Rightarrow> action_intent list \<Rightarrow> server \<Rightarrow> server \<times> (batch_row list \<times> int) reply" where
  "batch_winners cf es k ver [] sv = (sv, Ok ([], ver))"
| "batch_winners cf es k ver (w # ws) sv =
     (case batch_winner cf (es k) w sv of
        (sv1, Http sc msg) \<Rightarrow> (sv1, Http sc msg)
      | (sv1, Ok (rows, v)) \<Rightarrow>
          (case batch_winners cf es (Suc k) (case v of None \<Rightarrow> ver | Some v' \<Rightarrow> v') ws sv1 of
             (sv2, Http sc msg) \<Rightarrow> (sv2, Http sc msg)
           | (sv2, Ok (rows', ver')) \<Rightarrow> (sv2, Ok (rows @ rows', ver'))))"

section \<open>The handler\<close>

definition executed_on :: "runtime \<Rightarrow> action_intent list \<Rightarrow> string \<Rightarrow> nat" where
  "executed_on rt intents target =
     length (filter (\<lambda>i. target_entity (payload i) = target \<and>
        (case get_record (rt_lifecycle rt) (int_id i) of
           None \<Rightarrow> False
         | Some r \<Rightarrow> rec_outcome r = Some EXECUTE \<and> rec_action_class r \<notin> set RISK_REDUCING)) intents)"

definition conflict_violations :: "runtime \<Rightarrow> action_intent list \<Rightarrow> nat" where
  "conflict_violations rt intents = length (filter (\<lambda>t. executed_on rt intents t > 1) (targets_of intents))"

definition submit_intent_batch :: "config \<Rightarrow> (nat \<Rightarrow> env) \<Rightarrow> ctx list \<Rightarrow> server \<Rightarrow> server \<times> batch_doc reply" where
  "submit_intent_batch cf es body sv =
     (case read_snapshot_full (ev_snap (es 0) 0) sv of (sv1, c, ver, pv, trusted) \<Rightarrow>
        let cl = classify cf es (sv_runtime sv1) trusted body;
            stops = cl_stops cl;
            stopped = map (\<lambda>s. target_entity (payload s)) stops;
            preempted = filter (\<lambda>i. target_entity (payload i) \<in> set stopped) (cl_intents cl);
            intents = filter (\<lambda>i. target_entity (payload i) \<notin> set stopped) (cl_intents cl);
            gs = groups intents;
            winners = winners_of gs
        in case then_rows (batch_stops cf es 1 stops)
                  (then_rows (batch_refuse_all (es 0) ''preempted_by_stop'' preempted)
                     (batch_refuse_all (es 0) ''conflict_loser'' (losers_of gs))) sv1 of
             (sv2, Http sc msg) \<Rightarrow> (sv2, Http sc msg)
           | (sv2, Ok rows) \<Rightarrow>
               (case batch_winners cf es (1 + length stops) ver winners sv2 of
                  (sv3, Http sc msg) \<Rightarrow> (sv3, Http sc msg)
                | (sv3, Ok (rows', ver')) \<Rightarrow>
                    (sv3, Ok \<lparr>bd_results = cl_results cl @ rows @ rows',
                             bd_cv = conflict_violations (sv_runtime sv3) (intents @ stops),
                             bd_winner = (case winners of [w] \<Rightarrow> Some (int_source w) | _ \<Rightarrow> None),
                             bd_winners = map int_source winners, bd_version = ver'\<rparr>)))"

end
