(* ===== verification/Server_Properties.thy ===== *)
theory Server_Properties
  imports Batch
begin

text \<open>
  Properties of the HTTP handlers on top of the runtime and the store: what an authorization in the reply of a
  submission means, what a commit of it guarantees, and how the handlers behave on errors and replays.
\<close>

section \<open>What an authorized record holds\<close>

text \<open>The versions a record was authorized on are those of the snapshot, and all its predicates hold there.\<close>

definition exprs_of :: "action_intent \<Rightarrow> string list" where
  "exprs_of intent = safety_constraints intent @ preconditions intent"

definition authorized_on :: "snap \<Rightarrow> intent_record \<Rightarrow> bool" where
  "authorized_on s r \<longleftrightarrow>
     (let es = exprs_of (rec_intent r)
      in rec_read_set r = read_set es \<and> rec_read_set_version r = read_set_version (sn_pv s) (read_set es) \<and>
         rec_predicates r = registered es \<and> rec_predicate_version r = predicate_version (sn_preds s) (registered es) \<and>
         rec_action_class r \<notin> set RISK_REDUCING \<and> (\<forall>x \<in> set es. truth x (sn_context s)))"

definition snap_args :: "process_args \<Rightarrow> snap \<Rightarrow> bool" where
  "snap_args a s \<longleftrightarrow> pa_context a = Some (sn_context s) \<and> pa_path_versions a = Some (sn_pv s) \<and> pa_predicate_versions a = Some (sn_preds s)"

lemma process_execute:
  assumes "get_record (rt_lifecycle rt) (int_id intent) = Some r" "rec_state r \<in> set VALIDATABLE_STATES"
    and "action_class rt intent \<notin> set RISK_REDUCING" "\<not> stale_snapshot a rt"
    and "evaluate a (snapshot_of a rt) (apply_policy rt intent) rt = (EXECUTE, reason)"
  shows "snd (process_intent a intent rt) =
    Inr (moved AUTHORIZED (Some EXECUTE) reason (Some (pa_latency_ms a))
       (evaluated a (version_of a rt) (apply_policy rt intent) (validating (action_class rt intent) r)))"
  using assms
  by (simp add: process_intent_enter Let_def validate_now_def conclude_def bind_rt_def modify_record_def tally_def move_ok)

lemma moved_validation_sel [simp]:
  "rec_read_set (moved s out reason lat r) = rec_read_set r" "rec_read_set_version (moved s out reason lat r) = rec_read_set_version r"
  "rec_predicates (moved s out reason lat r) = rec_predicates r" "rec_predicate_version (moved s out reason lat r) = rec_predicate_version r"
  "rec_intent (moved s out reason lat r) = rec_intent r"
  by (simp_all add: moved_def)

lemma process_authorized:
  assumes r: "get_record (rt_lifecycle rt) (int_id intent) = Some r" "rec_state r \<in> set VALIDATABLE_STATES"
    and cls: "action_class rt intent \<notin> set RISK_REDUCING" and s: "snap_args a s"
    and p: "process_intent a intent rt = (rt', Inr r')" "rec_state r' = AUTHORIZED"
  shows "authorized_on s r' \<and> rec_intent r' = apply_policy rt intent \<and> get_record (rt_lifecycle rt') (int_id intent) = Some r'"
proof -
  have fresh: "\<not> stale_snapshot a rt"
  proof
    assume "stale_snapshot a rt"
    then have "snd (process_intent a intent rt) = Inr (moved REVOKED (Some REVOKE) ''stale_context_snapshot'' None
        ((validating (action_class rt intent) r)\<lparr>rec_context_version := rt_context_version rt\<rparr>))"
      using r cls by (simp add: process_intent_enter Let_def revoke_stale_def bind_rt_def modify_record_def move_ok tally_def)
    then show False using p by (auto simp: moved_def)
  qed
  obtain outcome reason where ev: "evaluate a (snapshot_of a rt) (apply_policy rt intent) rt = (outcome, reason)" by fastforce
  have "outcome = EXECUTE \<and> get_record (rt_lifecycle rt') (int_id intent) = Some r'"
  proof (rule process_ordinary [OF r cls fresh ev])
    fix e rt2 assume "process_intent a intent rt = (rt2, Inl e)"
    then show ?thesis using p by simp
  next
    fix rt2 r2 assume o: "process_intent a intent rt = (rt2, Inr r2)" "rec_state r2 = outcome_state outcome reason"
      "get_record (rt_lifecycle rt2) (int_id intent) = Some r2"
    then have "outcome_state outcome reason = AUTHORIZED" using p by simp
    then have "outcome = EXECUTE" by (cases outcome) (auto split: if_splits)
    then show ?thesis using o p(1) by simp
  qed
  then have out: "outcome = EXECUTE" and rec: "get_record (rt_lifecycle rt') (int_id intent) = Some r'" by blast+
  from ev out have x: "evaluate a (snapshot_of a rt) (apply_policy rt intent) rt = (EXECUTE, reason)" by simp
  then have "fst (evaluate_predicates (pa_elapsed a) (rt_eval_timeout_s rt) (safety_constraints (apply_policy rt intent))
      (preconditions (apply_policy rt intent)) (snapshot_of a rt))" "fst (validate (rt_temporal rt) (apply_policy rt intent) (pa_now a))"
    by (auto simp: evaluate_cases split: if_splits)
  then have "admissible a rt (apply_policy rt intent)" by (simp add: admissible_evaluate)
  then have "\<forall>e \<in> set (exprs_of (apply_policy rt intent)). truth e (sn_context s)"
    using s by (simp add: admissible_def Let_def exprs_of_def snapshot_of_def snap_args_def)
  then show ?thesis using process_execute [OF r cls fresh x] p s rec
    by (auto simp: authorized_on_def exprs_of_def evaluated_def validating_def Let_def snap_args_def cls)
qed


text \<open>A degraded intent keeps its predicates, its action and its id.\<close>

lemma apply_degradation_keeps:
  "apply_degradation intent = Inr intent' \<Longrightarrow>
   int_id intent' = int_id intent \<and> exprs_of intent' = exprs_of intent \<and> policy_added intent' = policy_added intent \<and>
   action_type (payload intent') = action_type (payload intent)"
  by (auto simp: apply_degradation_def exprs_of_def Let_def split: if_splits option.splits)

lemma apply_policy_exprs: "set (exprs_of intent) \<subseteq> set (exprs_of (apply_policy rt intent))"
  by (auto simp: apply_policy_def exprs_of_def Let_def split: option.splits)

lemma apply_policy_added: "policy_added (apply_policy rt intent) \<noteq> None"
  by (auto simp: apply_policy_def Let_def split: option.splits)

lemma apply_policy_again: "policy_added intent \<noteq> None \<Longrightarrow> apply_policy rt intent = intent"
  by (auto simp: apply_policy_def)

lemma process_degraded:
  assumes r: "get_record (rt_lifecycle rt) (int_id intent) = Some r" "rec_state r \<in> set VALIDATABLE_STATES"
    and cls: "action_class rt intent \<notin> set RISK_REDUCING"
    and p: "process_intent a intent rt = (rt', Inr r')" "rec_state r' = DEGRADED"
  shows "apply_degradation (apply_policy rt intent) = Inr (rec_intent r') \<and> get_record (rt_lifecycle rt') (int_id intent) = Some r' \<and>
    rt_action_classes rt' = rt_action_classes rt"
proof -
  have fresh: "\<not> stale_snapshot a rt"
  proof
    assume "stale_snapshot a rt"
    then show False using r cls p
      by (auto simp: process_intent_enter Let_def revoke_stale_def bind_rt_def modify_record_def move_ok tally_def moved_def)
  qed
  obtain outcome reason where ev: "evaluate a (snapshot_of a rt) (apply_policy rt intent) rt = (outcome, reason)" by fastforce
  have "outcome = DEGRADE"
  proof (rule process_ordinary [OF r cls fresh ev])
    fix e rt2 assume "process_intent a intent rt = (rt2, Inl e)"
    then show ?thesis using p by simp
  next
    fix rt2 r2 assume "process_intent a intent rt = (rt2, Inr r2)" "rec_state r2 = outcome_state outcome reason"
    then have "outcome_state outcome reason = DEGRADED" using p by simp
    then show ?thesis by (cases outcome) (auto split: if_splits)
  qed
  then show ?thesis using r cls fresh ev p
    by (auto simp: process_intent_enter Let_def validate_now_def conclude_def bind_rt_def modify_record_def tally_def move_ok
        requeue_if_def split: sum.splits)
qed

text \<open>The pass whose result the two validations return.\<close>

lemma validate_twice_final:
  assumes r: "get_record (rt_lifecycle rt) (int_id intent) = Some r" "rec_state r \<in> set VALIDATABLE_STATES"
    and cls: "action_class rt intent \<notin> set RISK_REDUCING" and p: "validate_twice a intent rt = (rt', Inr r')"
  obtains i rt1 r1 where "process_intent a i rt1 = (rt', Inr r')" "get_record (rt_lifecycle rt1) (int_id i) = Some r1"
    "rec_state r1 \<in> set VALIDATABLE_STATES" "action_class rt1 i \<notin> set RISK_REDUCING" "int_id i = int_id intent"
    "set (exprs_of intent) \<subseteq> set (exprs_of (apply_policy rt1 i))"
proof -
  obtain rt1 res where p1: "process_intent a intent rt = (rt1, res)" by fastforce
  obtain r1 where res: "res = Inr r1" using p p1 by (cases res) (auto simp: validate_twice_def bind_rt_def)
  show thesis
  proof (cases "rec_state r1 = DEGRADED")
    case False
    then have "process_intent a intent rt = (rt', Inr r')" using p p1 res by (simp add: validate_twice_def bind_rt_def return_rt_def)
    then show thesis using that r cls apply_policy_exprs by blast
  next
    case True
    let ?in = "apply_policy rt intent" and ?d = "rec_intent r1"
    have d: "apply_degradation ?in = Inr ?d" "get_record (rt_lifecycle rt1) (int_id intent) = Some r1"
      "rt_action_classes rt1 = rt_action_classes rt"
      using process_degraded [OF r cls p1 [unfolded res] True] by blast+
    have k: "int_id ?d = int_id intent" "exprs_of ?d = exprs_of ?in" "policy_added ?d \<noteq> None" "action_type (payload ?d) = action_type (payload intent)"
      using apply_degradation_keeps [OF d(1)] apply_policy_added by simp_all
    have p2: "process_intent a ?d rt1 = (rt', Inr r')" using p p1 res True by (simp add: validate_twice_def bind_rt_def)
    have "action_class rt1 ?d \<notin> set RISK_REDUCING" using cls d(3) k(4) by (simp add: action_class_def action_key_def)
    moreover have "rec_state r1 \<in> set VALIDATABLE_STATES" using True by (simp add: VALIDATABLE_STATES_def)
    ultimately show thesis
      using that [OF p2] d(2) k apply_policy_exprs [of intent rt] apply_policy_again [OF k(3)] by simp
  qed
qed

lemma validate_twice_authorized:
  assumes r: "get_record (rt_lifecycle rt) (int_id intent) = Some r" "rec_state r \<in> set VALIDATABLE_STATES"
    and cls: "action_class rt intent \<notin> set RISK_REDUCING" and s: "snap_args a s"
    and p: "validate_twice a intent rt = (rt', Inr r')" "rec_state r' = AUTHORIZED"
  shows "authorized_on s r' \<and> set (exprs_of intent) \<subseteq> set (exprs_of (rec_intent r')) \<and> int_id (rec_intent r') = int_id intent \<and>
    get_record (rt_lifecycle rt') (int_id intent) = Some r'"
proof (rule validate_twice_final [OF r cls p(1)])
  fix i rt1 r1
  assume f: "process_intent a i rt1 = (rt', Inr r')" "get_record (rt_lifecycle rt1) (int_id i) = Some r1"
    "rec_state r1 \<in> set VALIDATABLE_STATES" "action_class rt1 i \<notin> set RISK_REDUCING" and k: "int_id i = int_id intent"
    "set (exprs_of intent) \<subseteq> set (exprs_of (apply_policy rt1 i))"
  show ?thesis using process_authorized [OF f(2-4) s f(1) p(2)] k by simp
qed

text \<open>The decision \<^const>\<open>EXECUTE\<close> goes with the state \<^const>\<open>AUTHORIZED\<close>, and the tracker holds the record that is returned.\<close>

lemma process_execute_authorized:
  assumes r: "get_record (rt_lifecycle rt) (int_id intent) = Some r" "rec_state r \<in> set VALIDATABLE_STATES"
    and cls: "action_class rt intent \<notin> set RISK_REDUCING"
    and p: "process_intent a intent rt = (rt', Inr r')" "rec_outcome r' = Some EXECUTE"
  shows "rec_state r' = AUTHORIZED"
proof (cases "stale_snapshot a rt")
  case True
  then show ?thesis using r cls p
    by (auto simp: process_intent_enter Let_def revoke_stale_def bind_rt_def modify_record_def move_ok tally_def)
next
  case False
  obtain outcome reason where ev: "evaluate a (snapshot_of a rt) (apply_policy rt intent) rt = (outcome, reason)" by fastforce
  show ?thesis by (rule process_ordinary [OF r cls False ev]) (use p in auto)
qed

lemma validate_twice_execute:
  assumes r: "get_record (rt_lifecycle rt) (int_id intent) = Some r" "rec_state r \<in> set VALIDATABLE_STATES"
    and cls: "action_class rt intent \<notin> set RISK_REDUCING" and p: "validate_twice a intent rt = (rt', Inr r')" "rec_outcome r' = Some EXECUTE"
  shows "rec_state r' = AUTHORIZED"
  by (rule validate_twice_final [OF r cls p(1)]) (use p(2) process_execute_authorized in blast)

section \<open>A server whose store is in memory\<close>

definition memory_server :: "server \<Rightarrow> bool" where
  "memory_server sv \<longleftrightarrow> \<not> st_required (sv_store sv) \<and> st_layout (sv_store sv) = Document \<and> snap_inv (st_snap (sv_store sv))"

definition memory_env :: "env \<Rightarrow> bool" where
  "memory_env e \<longleftrightarrow> (\<forall>k. unreachable (ev_snap e k) \<and> unreachable (ev_update e k)) \<and> unreachable (ev_register e) \<and>
     unreachable (ev_claim e) \<and> unreachable (ev_commit e) \<and> unreachable (ev_append e)"

text \<open>What the handlers leave of the runtime and the log when they only move the context.\<close>

definition same_records :: "server \<Rightarrow> server \<Rightarrow> bool" where
  "same_records sv sv' \<longleftrightarrow>
     rt_lifecycle (sv_runtime sv') = rt_lifecycle (sv_runtime sv) \<and> rt_action_classes (sv_runtime sv') = rt_action_classes (sv_runtime sv) \<and>
     rt_policy (sv_runtime sv') = rt_policy (sv_runtime sv) \<and> rt_class_policy (sv_runtime sv') = rt_class_policy (sv_runtime sv) \<and>
     st_committed (sv_store sv') = st_committed (sv_store sv) \<and> st_actuations (sv_store sv') = st_actuations (sv_store sv)"

lemma install_same [simp]:
  "rt_lifecycle (fst (install_context_snapshot c v b rt)) = rt_lifecycle rt"
  "rt_action_classes (fst (install_context_snapshot c v b rt)) = rt_action_classes rt"
  "rt_policy (fst (install_context_snapshot c v b rt)) = rt_policy rt"
  "rt_class_policy (fst (install_context_snapshot c v b rt)) = rt_class_policy rt"
  by (simp_all add: install_context_snapshot_def)

lemma read_snapshot_memory:
  assumes "unreachable io" "memory_server sv" "read_snapshot_full io sv = (sv', c, v, pv, trusted)"
  shows "memory_server sv' \<and> same_records sv sv' \<and> trusted \<and> c = sn_context (st_snap (sv_store sv))"
  using assms
  by (auto simp: read_snapshot_full_def snapshot_full_def redis_first_unreachable memory_server_def set_available_def
      same_records_def on_runtime_def Let_def)

lemma update_context_memory:
  assumes "memory_env e" "memory_server sv" "wf_ctx patch"
  shows "memory_server (fst (update_context_store cf now opa patch (ev_update e k) (ev_snap e j) sv)) \<and>
    same_records sv (fst (update_context_store cf now opa patch (ev_update e k) (ev_snap e j) sv))"
proof -
  let ?s = "apply_patch (cf_retention_s cf) now patch (st_snap (sv_store sv))"
  let ?sv = "sv\<lparr>sv_store := (sv_store sv)\<lparr>st_available := False, st_snap := ?s\<rparr>\<rparr>"
  have u: "unreachable (ev_update e k)" "unreachable (ev_snap e j)" using assms(1) by (simp_all add: memory_env_def)
  have m: "memory_server ?sv" using assms(2,3) by (simp add: memory_server_def snap_inv_apply_patch del: wf_json.simps)
  have st: "update_store (cf_retention_s cf) now patch (ev_update e k) (sv_store sv) = ((sv_store sv)\<lparr>st_available := False, st_snap := ?s\<rparr>, sn_version ?s)"
    using u(1) assms(2) by (simp add: update_store_def redis_first_unreachable memory_server_def set_available_def Let_def)
  obtain sv' c v pv t where r: "read_snapshot_full (ev_snap e j) ?sv = (sv', c, v, pv, t)" by (metis prod_cases5)
  have r': "memory_server sv'" "same_records ?sv sv'" using read_snapshot_memory [OF u(2) m r] by simp_all
  have "same_records sv ?sv" by (simp add: same_records_def)
  then have "same_records sv sv'" using r'(2) by (simp add: same_records_def)
  then show ?thesis using r'(1) r st m
    by (auto simp: update_context_store_def Let_def memory_server_def same_records_def)
qed

lemma fence_memory:
  assumes "memory_env e" "memory_server sv" "fence_intent cf e intent sv = (sv1, Ok intent1)"
  shows "memory_server sv1 \<and> same_records sv sv1 \<and> set (exprs_of intent) \<subseteq> set (exprs_of intent1) \<and> int_id intent1 = int_id intent \<and>
    payload intent1 = payload intent"
proof (cases "\<not> cf_stop_fence cf \<or> action_class (sv_runtime sv) intent \<in> set RISK_REDUCING")
  case True
  then show ?thesis using assms(2,3) by (auto simp: fence_intent_def same_records_def)
next
  case False
  let ?key = "cf_stop_key cf (target_entity (payload intent))"
  obtain sv2 c v pv t where r: "read_snapshot_full (ev_snap e 0) sv = (sv2, c, v, pv, t)" by (metis prod_cases5)
  have r': "memory_server sv2" "same_records sv sv2" t
    using read_snapshot_memory [OF _ assms(2) r] assms(1) by (simp_all add: memory_env_def)
  let ?p = "[(''stop'', JObj [(?key, JInt 0)])]"
  have w: "wf_ctx ?p" by simp
  let ?sv3 = "fst (update_context_store cf (ev_now_s e) (ev_opa_ok e) ?p (ev_update e 0) (ev_snap e 1) sv2)"
  have u: "memory_server ?sv3" "same_records sv2 ?sv3" using update_context_memory [OF assms(1) r'(1) w] by simp_all
  have "same_records sv ?sv3" using u(2) r'(2) by (simp add: same_records_def)
  moreover obtain ep where "stop_epoch c ?key = Some ep"
    using assms(3) False r r'(3) by (cases "stop_epoch c ?key") (auto simp: fence_intent_def Let_def)
  ultimately show ?thesis using assms(3) False r r' u(1)
    by (auto simp: fence_intent_def Let_def exprs_of_def split: if_splits)
qed

lemma modify_same_record:
  "get_record (rt_lifecycle rt) i = Some r \<Longrightarrow> get_record (rt_lifecycle (modify_record i f rt)) i = Some (f r)"
  by (simp add: modify_record_def)


text \<open>The validation of a request: the pass it makes, on the document the store holds afterwards.\<close>

lemma validate_request_run:
  assumes e: "memory_env e" "\<not> cf_legacy_read cf" and sv: "memory_server sv"
    and r: "get_record (rt_lifecycle (sv_runtime sv)) (int_id intent0) = Some r"
    and cls: "action_class (sv_runtime sv) intent0 \<notin> set RISK_REDUCING"
    and v: "validate_request cf e body intent0 sv = (sv', Ok (Decided d))"
  obtains a intent rt where "validate_twice a intent rt = (sv_runtime sv', Inr (dd_record d))" "snap_args a (st_snap (sv_store sv'))"
    "get_record (rt_lifecycle rt) (int_id intent) = Some (r\<lparr>rec_intent := intent\<rparr>)" "action_class rt intent \<notin> set RISK_REDUCING"
    "int_id intent = int_id intent0" "set (exprs_of intent0) \<subseteq> set (exprs_of intent)" "memory_server sv'" "dd_id d = int_id intent0"
    "st_committed (sv_store sv') = st_committed (sv_store sv)"
proof -
  obtain sv1 res where f0: "fence_intent cf e intent0 sv = (sv1, res)" by fastforce
  obtain intent1 where f: "fence_intent cf e intent0 sv = (sv1, Ok intent1)"
    using f0 v by (cases res) (auto simp: validate_request_def)
  have m1: "memory_server sv1" "same_records sv sv1" "set (exprs_of intent0) \<subseteq> set (exprs_of intent1)" "int_id intent1 = int_id intent0"
    "payload intent1 = payload intent0"
    using fence_memory [OF e(1) sv f] by simp_all
  define intent where "intent = apply_policy (sv_runtime sv1) intent1"
  define exprs where "exprs = registered (safety_constraints intent @ preconditions intent)"
  have prep: "prepare (sv_runtime sv1) intent1 = (intent, exprs)" by (simp add: prepare_def intent_def exprs_def Let_def)
  have int: "int_id intent = int_id intent0" "action_type (payload intent) = action_type (payload intent0)"
    "set (exprs_of intent0) \<subseteq> set (exprs_of intent)"
    using m1(3-5) apply_policy_exprs [of intent1 "sv_runtime sv1"] by (auto simp: intent_def)
  define sv2 where "sv2 = on_runtime (modify_record (int_id intent) (\<lambda>r. r\<lparr>rec_intent := intent\<rparr>)) sv1"
  define s where "s = register_snap (cf_retention_s cf) (ev_now_s e) exprs (st_snap (sv_store sv1))"
  define st where "st = (sv_store sv1)\<lparr>st_available := False, st_snap := s\<rparr>"
  have st: "intent_snapshot cf e exprs (sv_store sv2) = (st, Some (s, True))"
    using e m1(1) by (simp add: intent_snapshot_def register_and_snapshot_def redis_first_unreachable memory_env_def sv2_def
        on_runtime_def memory_server_def set_available_def st_def s_def Let_def)
  define sv4 where "sv4 = on_runtime (\<lambda>rt. fst (install_context_snapshot (sn_context s) (sn_version s) True rt)) (sv2\<lparr>sv_store := st\<rparr>)"
  define a where "a = request_args e (Some (sn_context s, sn_version s)) (Some (sn_pv s, sn_preds s))"
  have lay: "st_layout st \<noteq> Shard" using m1(1) by (simp add: st_def memory_server_def)
  obtain sv5 out where run: "run_rt (validate_twice a intent) sv4 = (sv5, out)" by fastforce
  have "(case out of Inl err \<Rightarrow> (sv5, Http 500 (int_id intent)) | Inr r' \<Rightarrow> (sv5, decided (int_id intent) r' (read_values_of (sn_context s) (rec_read_set r')) False)) =
      (sv', Ok (Decided d))"
    using v f prep st lay run
    by (simp add: validate_request_def validate_prepared_def validate_on_snapshot_def sv2_def [symmetric] sv4_def [symmetric] a_def [symmetric])
  then obtain r' where out: "out = Inr r'" "sv5 = sv'" "dd_record d = r'" "dd_id d = int_id intent"
    by (cases out) (auto simp: decided_def)
  have twice: "validate_twice a intent (sv_runtime sv4) = (sv_runtime sv', Inr r')" and store: "sv_store sv' = st"
    using run out by (auto simp: run_rt_def sv4_def on_runtime_def split: prod.splits)
  have rec: "get_record (rt_lifecycle (sv_runtime sv4)) (int_id intent) = Some (r\<lparr>rec_intent := intent\<rparr>)"
    using r m1(2) int(1) by (simp add: sv4_def sv2_def on_runtime_def modify_same_record same_records_def)
  have cls4: "action_class (sv_runtime sv4) intent \<notin> set RISK_REDUCING"
    using cls m1(2) int(2) by (simp add: sv4_def sv2_def on_runtime_def action_class_def action_key_def same_records_def)
  have "memory_server sv'" using store m1(1) by (simp add: memory_server_def st_def s_def snap_inv_register)
  moreover have "snap_args a (st_snap (sv_store sv'))" using store by (simp add: snap_args_def a_def request_args_def st_def)
  moreover have "st_committed (sv_store sv') = st_committed (sv_store sv)" using store m1(2) by (simp add: st_def same_records_def)
  ultimately show thesis using that [OF twice [folded out(3)] _ rec cls4] int out(4) by simp
qed

lemma expire_from_seen: "map_of seen i = None \<Longrightarrow> map_of (fst (expire_from h seen t)) i = None"
  by (induction h seen t rule: expire_from.induct) (auto split: if_splits)

lemma admit_new:
  assumes "map_of (rt_seen rt) (int_id intent) = None" "admit mnow enq intent rt = (rt', r, dup)"
  shows "\<not> dup \<and> r = new_record intent \<and> get_record (rt_lifecycle rt') (int_id intent) = Some r \<and> rt_action_classes rt' = rt_action_classes rt"
proof -
  have "map_of (rt_seen (expire_seen mnow rt)) (int_id intent) = None" "rt_action_classes (expire_seen mnow rt) = rt_action_classes rt"
    using expire_from_seen [OF assms(1), of "mnow - rt_retention_s rt" "rt_lifecycle rt"]
    by (auto simp: expire_seen_def split: prod.splits)
  then show ?thesis using assms(2) by (auto simp: admit_def Let_def register_def tally_def)
qed

text \<open>A new ordinary intent that a submission decides about.\<close>

lemma submission_run:
  assumes e: "memory_env e" "\<not> cf_legacy_read cf" and sv: "memory_server sv"
    and body: "cf_schema_error cf body = None" "from_dict (cf_fromiso cf) (ev_uuid e) body = Inr intent0"
    and new: "map_of (rt_seen (sv_runtime sv)) (int_id intent0) = None" and cls: "action_class (sv_runtime sv) intent0 \<notin> set RISK_REDUCING"
    and s: "submit_intent_http cf e body sv = (sv', Ok (Decided d))"
  obtains a intent rt where "validate_twice a intent rt = (sv_runtime sv', Inr (dd_record d))" "snap_args a (st_snap (sv_store sv'))"
    "get_record (rt_lifecycle rt) (int_id intent) = Some ((new_record intent0)\<lparr>rec_intent := intent\<rparr>)" "action_class rt intent \<notin> set RISK_REDUCING"
    "int_id intent = int_id intent0" "set (exprs_of intent0) \<subseteq> set (exprs_of intent)" "memory_server sv'" "dd_id d = int_id intent0"
    "st_committed (sv_store sv') = st_committed (sv_store sv)"
proof -
  obtain rt r dup where a: "admit (ev_mono_s e) False intent0 (sv_runtime sv) = (rt, r, dup)" by (metis prod_cases3)
  have n: "\<not> dup" "r = new_record intent0" "get_record (rt_lifecycle rt) (int_id intent0) = Some r"
    "rt_action_classes rt = rt_action_classes (sv_runtime sv)"
    using admit_new [OF new a] by simp_all
  let ?sv = "sv\<lparr>sv_runtime := rt\<rparr>"
  have m: "memory_server ?sv" using sv by (simp add: memory_server_def)
  have c: "action_class rt intent0 \<notin> set RISK_REDUCING" using cls n(4) by (simp add: action_class_def)
  have claim: "claim_intent (ev_claim e) (sv_store ?sv) = (sv_store ?sv, True)" using m by (simp add: claim_intent_def memory_server_def)
  have "validate_request cf e body intent0 (?sv\<lparr>sv_store := sv_store ?sv\<rparr>) = (sv', Ok (Decided d))"
    using s body a n(1) c claim
    by (simp add: submit_intent_http_def submit_admitted_def submit_current_def submit_ordinary_def)
  then have v: "validate_request cf e body intent0 ?sv = (sv', Ok (Decided d))" by simp
  have r: "get_record (rt_lifecycle (sv_runtime ?sv)) (int_id intent0) = Some (new_record intent0)" using n(2,3) by simp
  show thesis
    by (rule validate_request_run [OF e m r _ v]) (use c that in simp_all)
qed

lemma submission_execute:
  assumes "memory_env e" "\<not> cf_legacy_read cf" "memory_server sv" "cf_schema_error cf body = None"
    "from_dict (cf_fromiso cf) (ev_uuid e) body = Inr intent" "map_of (rt_seen (sv_runtime sv)) (int_id intent) = None"
    "action_class (sv_runtime sv) intent \<notin> set RISK_REDUCING" "submit_intent_http cf e body sv = (sv', Ok (Decided d))"
    "rec_outcome (dd_record d) = Some EXECUTE"
  shows "rec_state (dd_record d) = AUTHORIZED"
proof (rule submission_run [OF assms(1-8)])
  fix a i rt
  assume t: "validate_twice a i rt = (sv_runtime sv', Inr (dd_record d))" "action_class rt i \<notin> set RISK_REDUCING"
    "get_record (rt_lifecycle rt) (int_id i) = Some ((new_record intent)\<lparr>rec_intent := i\<rparr>)"
  have "rec_state ((new_record intent)\<lparr>rec_intent := i\<rparr>) \<in> set VALIDATABLE_STATES" by (simp add: new_record_def VALIDATABLE_STATES_def)
  from validate_twice_execute [OF t(3) this t(2,1) assms(9)] show ?thesis .
qed

lemma submission_authorized:
  assumes e: "memory_env e" "\<not> cf_legacy_read cf" and sv: "memory_server sv"
    and body: "cf_schema_error cf body = None" "from_dict (cf_fromiso cf) (ev_uuid e) body = Inr intent"
    and new: "map_of (rt_seen (sv_runtime sv)) (int_id intent) = None" and cls: "action_class (sv_runtime sv) intent \<notin> set RISK_REDUCING"
    and s: "submit_intent_http cf e body sv = (sv', Ok (Decided d))" "rec_state (dd_record d) = AUTHORIZED"
  shows "memory_server sv' \<and> authorized_on (st_snap (sv_store sv')) (dd_record d) \<and> dd_id d = int_id intent \<and>
    set (exprs_of intent) \<subseteq> set (exprs_of (rec_intent (dd_record d))) \<and> int_id (rec_intent (dd_record d)) = int_id intent \<and>
    get_record (rt_lifecycle (sv_runtime sv')) (int_id intent) = Some (dd_record d) \<and>
    st_committed (sv_store sv') = st_committed (sv_store sv)"
proof (rule submission_run [OF e sv body new cls s(1)])
  fix a i rt
  assume t: "validate_twice a i rt = (sv_runtime sv', Inr (dd_record d))" "snap_args a (st_snap (sv_store sv'))"
    "get_record (rt_lifecycle rt) (int_id i) = Some ((new_record intent)\<lparr>rec_intent := i\<rparr>)" "action_class rt i \<notin> set RISK_REDUCING"
    and k: "int_id i = int_id intent" "set (exprs_of intent) \<subseteq> set (exprs_of i)" "memory_server sv'" "dd_id d = int_id intent"
    "st_committed (sv_store sv') = st_committed (sv_store sv)"
  have "rec_state ((new_record intent)\<lparr>rec_intent := i\<rparr>) \<in> set VALIDATABLE_STATES" by (simp add: new_record_def VALIDATABLE_STATES_def)
  from validate_twice_authorized [OF t(3) this t(4,2,1) s(2)] show ?thesis using k by auto
qed

section \<open>Submission and commit\<close>

text \<open>A commit of an authorized record on the store in memory.\<close>

lemma commit_http_committed:
  assumes e: "memory_env e" and sv: "memory_server sv" and r: "get_record (rt_lifecycle (sv_runtime sv)) i = Some r" "int_id (rec_intent r) = i"
    and c: "commit_http cf e i scope margin sv = (sv', Ok doc)" "cd_status doc = Committed"
  shows "commit_memory (ev_now_s e) (commit_request (rt_temporal (sv_runtime sv)) scope margin r) (set_available False (sv_store sv)) =
      (sv_store sv', the (cd_result doc)) \<and> cr_status (the (cd_result doc)) = Committed \<and>
    rec_state (cd_record doc) = COMMITTED \<and> get_record (rt_lifecycle (sv_runtime sv')) i = Some (cd_record doc)"
proof -
  let ?tv = "rt_temporal (sv_runtime sv)" and ?a = "commit_request (rt_temporal (sv_runtime sv)) scope margin r"
  have auth: "rec_state r = AUTHORIZED" "\<not> margin < 0" using c(1) r(1) by (auto simp: commit_http_def Let_def split: if_splits)
  obtain ok why where vr: "validate_release ?tv (rec_intent r) (ev_now_s e * 1000) = (ok, why)" by fastforce
  have noskew: "\<not> (\<not> ok \<and> starts_with why ''future_skew'')"
  proof
    assume "\<not> ok \<and> starts_with why ''future_skew''"
    then have "cd_status doc = FutureSkew"
      using c(1) r(1) auth vr by (auto simp: commit_http_def Let_def http_error_def split: prod.splits sum.splits rt_error.splits)
    then show False using c(2) by simp
  qed
  obtain st res where cm: "commit_memory (ev_now_s e) ?a (set_available False (sv_store sv)) = (st, res)" by fastforce
  have ca: "Store.commit_authorization (cf_cj cf) (ev_now_s e) ?a (ev_commit e) (sv_store sv) = (st, res)"
    using cm e sv by (simp add: Store.commit_authorization_def redis_first_unreachable memory_env_def memory_server_def set_available_def)
  let ?committed = "cr_status res = Committed \<or> cr_status res = Duplicate"
  let ?reason = "if scope \<and> cr_status res = Changed then ''predicate_truth_changed_at_commit'' else COMMIT_REASONS (cr_status res)"
  obtain sv1 out where rc: "run_rt (record_commit i ?committed ?reason (if ?committed then cr_seq res else None)) (sv\<lparr>sv_store := st\<rparr>) = (sv1, out)"
    by fastforce
  have "(case out of Inl err \<Rightarrow> (sv1, http_error err)
      | Inr f \<Rightarrow> (sv1, Ok \<lparr>cd_committed = ?committed, cd_status = cr_status res, cd_record = f, cd_expected = rec_read_set_version r, cd_result = Some res\<rparr>)) = (sv', Ok doc)"
    using c(1) r(1) auth vr noskew ca rc by (simp add: commit_http_def Let_def)
  then obtain f where f: "out = Inr f" "sv1 = sv'" "cd_status doc = cr_status res" "cd_record doc = f" "cd_result doc = Some res"
    by (cases out) (auto simp: http_error_def split: rt_error.splits)
  have res: "cr_status res = Committed" using f(3) c(2) by simp
  have "rec_state f = COMMITTED \<and> get_record (rt_lifecycle (sv_runtime sv')) i = Some f \<and> sv_store sv' = st"
    using rc f(1,2) res auth r
    by (auto simp: run_rt_def record_commit_def bind_rt_def the_record_def Let_def unlock_def modify_record_def move_ok tally_def
        moved_def split: prod.splits)
  then show ?thesis using cm f res by simp
qed

text \<open>From the submission to the commit.\<close>

lemma submission_to_commit:
  assumes mem: "memory_env e" "memory_env e2" "memory_server sv" "\<not> cf_legacy_read cf"
    and body: "cf_schema_error cf body = None" "from_dict (cf_fromiso cf) (ev_uuid e) body = Inr intent"
    and new: "map_of (rt_seen (sv_runtime sv)) (int_id intent) = None" "action_class (sv_runtime sv) intent \<notin> set RISK_REDUCING"
    and submitted: "submit_intent_http cf e body sv = (sv1, Ok (Decided d))" "rec_state (dd_record d) = AUTHORIZED"
    and history: "list_all event_ok evs" "st_snap (sv_store sv2) = fold (store_step ret) evs (st_snap (sv_store sv1))"
    and still: "memory_server sv2" "get_record (rt_lifecycle (sv_runtime sv2)) (int_id intent) = Some (dd_record d)"
    and commit: "commit_http cf e2 (int_id intent) scope margin sv2 = (sv3, Ok doc)" "cd_status doc = Committed"
  shows "set (exprs_of intent) \<subseteq> set (exprs_of (rec_intent (dd_record d))) \<and>
    (\<forall>x \<in> set (if scope then registered (exprs_of (rec_intent (dd_record d))) else exprs_of (rec_intent (dd_record d))).
       truth x (sn_context (fold (store_step ret) (take k evs) (st_snap (sv_store sv1))))) \<and>
    (\<exists>rec. st_actuations (sv_store sv3) = st_actuations (sv_store sv2) @ [rec] \<and> map_of rec ''intent_id'' = Some (JStr (int_id intent)) \<and>
       map_of rec ''commit_version'' = Some (JInt (sn_version (st_snap (sv_store sv2))))) \<and>
    rec_state (cd_record doc) = COMMITTED"
proof -
  let ?r = "dd_record d" and ?s = "st_snap (sv_store sv1)" and ?tv = "rt_temporal (sv_runtime sv2)"
  let ?es = "if scope then registered (exprs_of (rec_intent ?r)) else exprs_of (rec_intent ?r)" and ?a = "commit_request ?tv scope margin ?r"
  have a: "memory_server sv1" "authorized_on ?s ?r" "set (exprs_of intent) \<subseteq> set (exprs_of (rec_intent ?r))" "int_id (rec_intent ?r) = int_id intent"
    using submission_authorized [OF mem(1,4,3) body new submitted] by simp_all
  have c: "commit_memory (ev_now_s e2) ?a (set_available False (sv_store sv2)) = (sv_store sv3, the (cd_result doc))"
    "cr_status (the (cd_result doc)) = Committed" "rec_state (cd_record doc) = COMMITTED"
    using commit_http_committed [OF mem(2) still(1,2) a(4) commit] by simp_all
  have inv: "snap_inv ?s" using a(1) by (simp add: memory_server_def)
  have p: "ca_paths ?a = (if ca_scope ?a = ''truth'' then ?es else read_set ?es)" "ca_expected ?a = commit_observed ?a ?s"
    using a(2) by (simp_all add: commit_request_def Let_def authorized_on_def commit_observed_def)
  have "st_snap (set_available False (sv_store sv2)) = fold (store_step ret) evs ?s" using history(2) by (simp add: set_available_def)
  from committed_truths_kept [OF inv history(1) this p c(1,2), of k]
  have "truth x (sn_context (fold (store_step ret) (take k evs) ?s)) = truth x (sn_context ?s)" if "x \<in> set ?es" for x
    using that unfolding map_eq_conv by blast
  moreover have "truth x (sn_context ?s)" if "x \<in> set ?es" for x
    using that a(2) by (auto simp: authorized_on_def Let_def registered_def split: if_splits)
  moreover have "\<exists>rec. st_actuations (sv_store sv3) = st_actuations (sv_store sv2) @ [rec] \<and> map_of rec ''intent_id'' = Some (JStr (int_id intent)) \<and>
      map_of rec ''commit_version'' = Some (JInt (sn_version (st_snap (sv_store sv2))))"
    using commit_memory_committed(4) [OF c(1,2)] a(4) by (simp add: set_available_def committed_record_def commit_request_def Let_def)
  ultimately show ?thesis using a(3) c(3) by blast
qed


definition demo_config :: config where
  "demo_config = \<lparr>cf_stop_fence = True, cf_legacy_read = False, cf_opa = False, cf_retention_s = 3600, cf_schema_error = (\<lambda>_. None),
     cf_fromiso = (\<lambda>_. Some (DateTime 0 None)), cf_stop_key = (\<lambda>_. ''b0''), cf_cj = id, cf_policy_token = Some ''secret''\<rparr>"

definition demo_env :: "rat \<Rightarrow> env" where
  "demo_env now = \<lparr>ev_now_s = now, ev_mono_s = now, ev_uuid = ''u'', ev_elapsed = (\<lambda>_. 0), ev_latency_ms = 0, ev_snap = (\<lambda>_. NoClient),
     ev_update = (\<lambda>_. NoClient), ev_register = NoClient, ev_claim = NoClient, ev_commit = NoClient, ev_append = NoClient, ev_log = NoClient,
     ev_opa_ok = True\<rparr>"

definition demo_server :: server where
  "demo_server = \<lparr>sv_runtime = demo_runtime, sv_store = (new_store False Document)\<lparr>st_snap := demo_snap\<rparr>, sv_opa_replications = 0, sv_opa_errors = 0\<rparr>"

definition demo_body :: "string \<Rightarrow> string \<Rightarrow> ctx" where
  "demo_body i act = [(''id'', JStr i), (''source'', JStr ''xr''), (''timestamp_decision'', JStr ''t''), (''freshness_window_ms'', JInt 1000),
     (''payload'', JObj [(''action_type'', JStr act), (''target_entity'', JStr ''robot'')]), (''preconditions'', JList [JStr ''cell.temp < 50''])]"

definition decided_record :: "server \<times> submit_reply reply \<Rightarrow> intent_record option" where
  "decided_record p = (case snd p of Ok (Decided d) \<Rightarrow> Some (dd_record d) | _ \<Rightarrow> None)"

lemma memory_demo_env [simp]: "memory_env (demo_env now)"
  by (simp add: memory_env_def demo_env_def unreachable_def)

lemma memory_demo_server [simp]: "memory_server demo_server"
  using demo_inv by (simp add: memory_server_def demo_server_def new_store_def)

definition demo_submitted :: server where
  "demo_submitted = fst (submit_intent_http demo_config (demo_env (1 / 100)) (demo_body ''a'' ''MOVE'') demo_server)"

definition pass_event :: "store_event \<Rightarrow> server \<Rightarrow> server" where
  "pass_event ev sv = sv\<lparr>sv_store := (sv_store sv)\<lparr>st_snap := store_step 3600 ev (st_snap (sv_store sv))\<rparr>\<rparr>"

definition demo_later :: server where
  "demo_later = pass_event demo_event demo_submitted"


end
