(* ===== verification/Stack.thy ===== *)
theory Stack
  imports Gateway_Properties Server_Properties
begin

text \<open>
  The services put together: the gateway calls XAIR through \<^verbatim>\<open>scripts/xair_http_client.py\<close> and the controllers
  through their clients. The record \<^verbatim>\<open>world\<close> holds what the environment contributes to the \<^term>\<open>k\<close>-th call: what other
  processes did to the store before it, whether the request and its reply arrive, and what the controller saw
  until its next scan. \<^verbatim>\<open>wo_route\<close> is the way of an id through the URL of a request (\<^const>\<open>None\<close>: no route matches).
  The JSON texts of bodies and replies are not modelled: a reply is the document itself.
\<close>

datatype delivery = Delivered | Unreached | ReplyLost

record world =
  wo_config :: config
  wo_env :: "nat \<Rightarrow> env"
  wo_between :: "nat \<Rightarrow> server \<Rightarrow> server"
  wo_delivery :: "nat \<Rightarrow> delivery"
  wo_route :: "string \<Rightarrow> string option"
  wo_cell :: "nat \<Rightarrow> cell_event list"
  wo_scan :: "nat \<Rightarrow> rat"
  wo_plc :: "nat \<Rightarrow> plc \<Rightarrow> plc list"
  wo_opa :: "nat \<Rightarrow> opa_pred list \<Rightarrow> int option \<Rightarrow> server \<Rightarrow> string + opa_doc"

record system =
  sy_server :: server
  sy_cell :: cell
  sy_plc :: plc
  sy_seq :: "int option"
  sy_calls :: nat

section \<open>The HTTP client\<close>

text \<open>\<^verbatim>\<open>urlopen\<close> raises on an error status, when the server is not reached, and when the answer does not come in time.\<close>

definition answered :: "system \<Rightarrow> server \<times> 'a reply \<Rightarrow> system \<times> (string + 'a)" where
  "answered s p = (case p of (sv, Ok x) \<Rightarrow> (s\<lparr>sy_server := sv\<rparr>, Inr x) | (sv, Http sc msg) \<Rightarrow> (s\<lparr>sy_server := sv\<rparr>, Inl ''HTTPError''))"

definition before_call :: "world \<Rightarrow> system \<Rightarrow> system" where
  "before_call w s = s\<lparr>sy_calls := Suc (sy_calls s), sy_server := wo_between w (sy_calls s) (sy_server s)\<rparr>"

definition request :: "world \<Rightarrow> (env \<Rightarrow> server \<Rightarrow> server \<times> 'a reply) \<Rightarrow> system \<Rightarrow> system \<times> (string + 'a)" where
  "request w handler s =
     (case wo_delivery w (sy_calls s) of
        Unreached \<Rightarrow> (before_call w s, Inl ''URLError'')
      | Delivered \<Rightarrow> answered (before_call w s) (handler (wo_env w (sy_calls s)) (wo_between w (sy_calls s) (sy_server s)))
      | ReplyLost \<Rightarrow> (fst (answered (before_call w s) (handler (wo_env w (sy_calls s)) (wo_between w (sy_calls s) (sy_server s)))),
                      Inl ''TimeoutError''))"

definition intent_request :: "world \<Rightarrow> string \<Rightarrow> (string \<Rightarrow> env \<Rightarrow> server \<Rightarrow> server \<times> 'a reply) \<Rightarrow> system \<Rightarrow> system \<times> (string + 'a)" where
  "intent_request w i handler s =
     (case wo_route w i of Some j \<Rightarrow> request w (handler j) s | None \<Rightarrow> (before_call w s, Inl ''HTTPError''))"

definition map_reply :: "('a \<Rightarrow> 'b) \<Rightarrow> 's \<times> (string + 'a) \<Rightarrow> 's \<times> (string + 'b)" where
  "map_reply f p = (case p of (s, Inl e) \<Rightarrow> (s, Inl e) | (s, Inr x) \<Rightarrow> (s, Inr (f x)))"

text \<open>What the gateway reads of a submission's reply; a rejection has none of the decision's fields.\<close>

definition submit_result :: "submit_reply \<Rightarrow> xair_result" where
  "submit_result rep =
     (case rep of
        Rejected rj \<Rightarrow>
          \<lparr>xr_id = rj_id rj, xr_state = ''REVOKED'', xr_outcome = Some REVOKE, xr_reason = rj_reason rj, xr_payload = None,
           xr_read_set = [], xr_predicates = [], xr_policy_predicates = [], xr_read_set_version = None, xr_predicate_version = None,
           xr_context_version = Some (rj_version rj), xr_duplicate = False, xr_action_class = [], xr_read_values = []\<rparr>
      | Decided d \<Rightarrow>
          \<lparr>xr_id = JStr (dd_id d), xr_state = state_value (rec_state (dd_record d)), xr_outcome = rec_outcome (dd_record d),
           xr_reason = rec_reason (dd_record d), xr_payload = dd_payload d, xr_read_set = rec_read_set (dd_record d),
           xr_predicates = rec_predicates (dd_record d), xr_policy_predicates = rec_policy_predicates (dd_record d),
           xr_read_set_version = Some (rec_read_set_version (dd_record d)),
           xr_predicate_version = Some (rec_predicate_version (dd_record d)),
           xr_context_version = Some (rec_context_version (dd_record d)), xr_duplicate = dd_duplicate d,
           xr_action_class = rec_action_class (dd_record d), xr_read_values = dd_read_values d\<rparr>)"

definition client_submit :: "world \<Rightarrow> ctx \<Rightarrow> system \<Rightarrow> system \<times> (string + xair_result)" where
  "client_submit w data s = map_reply submit_result (request w (\<lambda>e. submit_intent_http (wo_config w) e data) s)"

definition snapshot_result :: "snapshot_doc \<Rightarrow> gate_snapshot" where
  "snapshot_result d =
     \<lparr>gs_context = sn_context (sd_snap d), gs_version = Some (sn_version (sd_snap d)), gs_pv = sn_pv (sd_snap d),
      gs_trusted = sd_trusted d, gs_preds = sn_preds (sd_snap d), gs_intent_state = sd_intent_state d\<rparr>"

definition as_reply :: "server \<times> 'a \<Rightarrow> server \<times> 'a reply" where
  "as_reply p = (case p of (sv, x) \<Rightarrow> (sv, Ok x))"

definition client_context :: "world \<Rightarrow> string list option \<Rightarrow> string option \<Rightarrow> system \<Rightarrow> system \<times> (string + gate_snapshot)" where
  "client_context w predicates i s =
     map_reply snapshot_result (request w (\<lambda>e sv. as_reply (get_context_snapshot e predicates i sv)) s)"

definition update_result :: "int \<times> bool \<Rightarrow> ctx" where
  "update_result p =
     [(''ok'', JBool (snd p)), (''context_version'', JInt (fst p)), (''context_trusted'', JBool (snd p))]"

definition client_update :: "world \<Rightarrow> ctx \<Rightarrow> system \<Rightarrow> system \<times> (string + ctx)" where
  "client_update w patch s =
     map_reply update_result (request w (\<lambda>e sv. as_reply (post_context_snapshot (wo_config w) e patch sv)) s)"

definition client_release :: "world \<Rightarrow> string \<Rightarrow> release_body \<Rightarrow> system \<Rightarrow> system \<times> (string + string)" where
  "client_release w i body s =
     map_reply (\<lambda>d. state_value (so_state d)) (intent_request w i (\<lambda>j e. report_release_http j body) s)"

definition client_effect :: "world \<Rightarrow> string \<Rightarrow> effect_status \<Rightarrow> string \<Rightarrow> system \<Rightarrow> system \<times> (string + state_doc)" where
  "client_effect w i status detail s = intent_request w i (\<lambda>j e. report_effect_http j status detail) s"

definition commit_result_of :: "commit_doc \<Rightarrow> commit_reply" where
  "commit_result_of d =
     \<lparr>ac_committed = cd_committed d, ac_reason = rec_reason (cd_record d), ac_version = map_option cr_version (cd_result d)\<rparr>"

definition client_commit :: "world \<Rightarrow> string \<Rightarrow> bool \<Rightarrow> rat \<Rightarrow> system \<Rightarrow> system \<times> (string + commit_reply)" where
  "client_commit w i truth_scope margin s =
     map_reply commit_result_of (intent_request w i (\<lambda>j e. commit_http (wo_config w) e j truth_scope margin) s)"

definition client_withheld :: "world \<Rightarrow> string \<Rightarrow> string \<Rightarrow> system \<Rightarrow> system \<times> (string + unit)" where
  "client_withheld w i reason s = map_reply (\<lambda>_. ()) (intent_request w i (\<lambda>j e. report_withheld e j reason) s)"

definition client_actuations :: "world \<Rightarrow> int \<Rightarrow> system \<Rightarrow> system \<times> (string + ctx list)" where
  "client_actuations w start s = request w (\<lambda>e. list_actuations e start) s"

definition client_metrics :: "world \<Rightarrow> system \<Rightarrow> system \<times> (string + metrics_report \<times> (nat \<times> nat) option)" where
  "client_metrics w s = request w (\<lambda>e sv. (sv, Ok (metrics_http (wo_config w) sv))) s"

text \<open>\<^verbatim>\<open>HTTPError\<close> is a \<^verbatim>\<open>URLError\<close>, so every failure of the request counts as unhealthy.\<close>

definition health_ok :: "world \<Rightarrow> system \<Rightarrow> bool" where
  "health_ok w s = (case snd (client_metrics w s) of Inl _ \<Rightarrow> False | Inr _ \<Rightarrow> True)"

section \<open>The controllers\<close>

text \<open>
  A call of a controller method: the command is queued, the events until the next scan pass (operator writes, other
  commands, the bridge), and the scan answers. A method call that raises may have been executed.
\<close>

fun before_scan :: "cell_event \<Rightarrow> bool" where
  "before_scan (SetLine s) = True"
| "before_scan (Command c) = True"
| "before_scan Publish = True"
| "before_scan _ = False"

definition cell_call_cmd :: "cell_call \<Rightarrow> command" where
  "cell_call_cmd call =
     (case call of
        CallConditional i v d \<Rightarrow> conditional_resume_cmd i v d
      | CallPredicate i d \<Rightarrow> predicate_resume_cmd i d
      | CallResume i \<Rightarrow> resume_cmd i
      | CallPlc _ _ \<Rightarrow> resume_cmd [])"

definition run_command :: "cell_event list \<Rightarrow> rat \<Rightarrow> command \<Rightarrow> cell \<Rightarrow> cell \<times> answer" where
  "run_command evs now cmd c =
     (case scan now (fold cell_step (filter before_scan evs) (enqueue cmd c)) of (c', answers) \<Rightarrow> (c', answers ! length (ce_pending c)))"

definition opc_call :: "world \<Rightarrow> command \<Rightarrow> system \<Rightarrow> system \<times> (string + string)" where
  "opc_call w cmd s =
     (case wo_delivery w (sy_calls s) of
        Unreached \<Rightarrow> (s\<lparr>sy_calls := Suc (sy_calls s)\<rparr>, Inl ''ConnectionError'')
      | Delivered \<Rightarrow>
          (case run_command (wo_cell w (sy_calls s)) (wo_scan w (sy_calls s)) cmd (sy_cell s) of
             (c, a) \<Rightarrow> (s\<lparr>sy_calls := Suc (sy_calls s), sy_cell := c\<rparr>, Inr (answer_text a)))
      | ReplyLost \<Rightarrow>
          (case run_command (wo_cell w (sy_calls s)) (wo_scan w (sy_calls s)) cmd (sy_cell s) of
             (c, a) \<Rightarrow> (s\<lparr>sy_calls := Suc (sy_calls s), sy_cell := c\<rparr>, Inl ''TimeoutError'')))"

text \<open>The PLC is in the last of the states the client saw.\<close>

definition plc_call :: "world \<Rightarrow> int option \<Rightarrow> cmd_kind \<Rightarrow> system \<Rightarrow> system \<times> (string + string)" where
  "plc_call w expected kind s =
     (case plc_command (sy_seq s) expected kind (wo_plc w (sy_calls s)) (sy_plc s) of
        (q, p, answer) \<Rightarrow>
          (s\<lparr>sy_calls := Suc (sy_calls s), sy_seq := Some q, sy_plc := last (p # wo_plc w (sy_calls s) p)\<rparr>,
           case answer of None \<Rightarrow> Inl ''TimeoutError'' | Some a \<Rightarrow> Inr a))"

definition client_cell :: "world \<Rightarrow> cell_call \<Rightarrow> system \<Rightarrow> system \<times> (string + string)" where
  "client_cell w call s =
     (case call of CallPlc expected kind \<Rightarrow> plc_call w expected kind s | _ \<Rightarrow> opc_call w (cell_call_cmd call) s)"

text \<open>The policy engine is an arbitrary function of the server its copy comes from.\<close>

definition client_opa :: "world \<Rightarrow> opa_pred list \<Rightarrow> int option \<Rightarrow> system \<Rightarrow> system \<times> (string + opa_doc)" where
  "client_opa w preds expected s =
     (before_call w s, wo_opa w (sy_calls s) preds expected (wo_between w (sy_calls s) (sy_server s)))"

definition client :: "world \<Rightarrow> system api" where
  "client w =
     \<lparr>xa_submit = client_submit w, xa_snapshot = client_context w, xa_commit = client_commit w, xa_release = client_release w,
      xa_withheld = client_withheld w, xa_update = client_update w, xa_cell = client_cell w, xa_opa = client_opa w\<rparr>"

section \<open>The gateway's own interface\<close>

text \<open>
  \<^verbatim>\<open>do_GET\<close>, \<^verbatim>\<open>do_POST\<close> and the WebSocket handler, after the path and the query have been split. \<^term>\<open>body\<close> is the parsed
  request body, \<^const>\<open>None\<close> for one that is no JSON text.
\<close>

datatype post_reply = Answer gw_result | Updated ctx | Failed nat string

definition do_get :: "world \<Rightarrow> string \<Rightarrow> system gateway \<Rightarrow> (bool \<times> bool \<times> nat \<times> nat) option" where
  "do_get w path g =
     (if path = ''health'' then Some (health_ok w (gw_x g), gw_ros g, gw_releases g, gw_ros_count g) else None)"

definition do_post :: "gw_env \<Rightarrow> 'x api \<Rightarrow> string \<Rightarrow> string \<Rightarrow> query \<Rightarrow> json option \<Rightarrow> 'x gateway \<Rightarrow> 'x gateway \<times> post_reply" where
  "do_post e api default_mode path query body g =
     (if path \<notin> {''command'', ''intent'', ''context''} then (g, Failed 404 [])
      else case body of
        None \<Rightarrow> (g, Failed 400 ''invalid_json'')
      | Some (JObj data) \<Rightarrow>
          (if path = ''context'' then
             (case process_context_payload api data g of
                (g1, Inl err) \<Rightarrow> (g1, Updated [(''ok'', JBool False), (''error'', JStr err)])
              | (g1, Inr out) \<Rightarrow> (g1, Updated out))
           else
             (case process_intent_payload e api (dict_get query ''mode'' default_mode) query data g of
                (g1, Inl exc) \<Rightarrow> (g1, Failed 500 exc)
              | (g1, Inr r) \<Rightarrow> (g1, Answer r)))
      | Some _ \<Rightarrow> (g, Failed 400 ''body_not_an_object''))"

text \<open>A message that raises ends the connection: no later message of it is handled.\<close>

fun handle_client :: "gw_env \<Rightarrow> 'x api \<Rightarrow> string \<Rightarrow> json option list \<Rightarrow> 'x gateway \<Rightarrow> 'x gateway \<times> gw_result list" where
  "handle_client e api mode [] g = (g, [])"
| "handle_client e api mode (m # ms) g =
     (case m of
        Some (JObj data) \<Rightarrow>
          (case process_intent_payload e api mode [] data g of
             (g1, Inl exc) \<Rightarrow> (g1, [])
           | (g1, Inr r) \<Rightarrow> (case handle_client e api mode ms g1 of (g2, rs) \<Rightarrow> (g2, r # rs)))
      | _ \<Rightarrow> (g, []))"

end
