(* ===== verification/Stack_Properties.thy ===== *)
theory Stack_Properties
  imports Stack
begin

text \<open>
  Guarantees of the composed system: what a release by the gateway implies about the documents of XAIR's store and
  about the actuation log, with other processes writing to the store between any two requests and with requests
  and replies that get lost; and a case in which the recorded state does not agree with what the controller did.
\<close>

section \<open>What other processes may do\<close>

text \<open>
  The rely condition: before the call \<^term>\<open>k\<close> the store goes through the updates and registrations \<^term>\<open>evs k\<close>, any
  sequence of them. The records of this process change by its own requests only.
\<close>

definition on_snap :: "(snap \<Rightarrow> snap) \<Rightarrow> server \<Rightarrow> server" where
  "on_snap f sv = sv\<lparr>sv_store := (sv_store sv)\<lparr>st_snap := f (st_snap (sv_store sv))\<rparr>\<rparr>"

definition rely :: "rat \<Rightarrow> (nat \<Rightarrow> store_event list) \<Rightarrow> (nat \<Rightarrow> server \<Rightarrow> server) \<Rightarrow> bool" where
  "rely ret evs between \<longleftrightarrow> (\<forall>k. list_all event_ok (evs k) \<and> between k = on_snap (fold (store_step ret) (evs k)))"

lemma on_snap_sel [simp]:
  "sv_runtime (on_snap f sv) = sv_runtime sv" "st_snap (sv_store (on_snap f sv)) = f (st_snap (sv_store sv))"
  "st_committed (sv_store (on_snap f sv)) = st_committed (sv_store sv)" "st_actuations (sv_store (on_snap f sv)) = st_actuations (sv_store sv)"
  "st_required (sv_store (on_snap f sv)) = st_required (sv_store sv)" "st_layout (sv_store (on_snap f sv)) = st_layout (sv_store sv)"
  by (simp_all add: on_snap_def)

lemma snap_inv_fold: "snap_inv s \<Longrightarrow> list_all event_ok evs \<Longrightarrow> snap_inv (fold (store_step ret) evs s)"
  by (induction evs arbitrary: s) (simp_all add: snap_inv_step)

lemma relyD:
  assumes "rely ret evs between"
  shows "list_all event_ok (evs k)" "between k sv = on_snap (fold (store_step ret) (evs k)) sv"
    "memory_server sv \<Longrightarrow> memory_server (between k sv)"
  using assms by (simp_all add: rely_def snap_inv_fold memory_server_def)

section \<open>The log only grows\<close>

definition log_of :: "system \<Rightarrow> ctx list" where
  "log_of s = st_actuations (sv_store (sy_server s))"

lemma client_cell_log [simp]: "log_of (fst (client_cell w call s)) = log_of s"
  by (simp add: client_cell_def opc_call_def plc_call_def log_of_def split: cell_call.split delivery.split prod.split)

lemma run_rt_store: "run_rt m sv = (sv', x) \<Longrightarrow> sv_store sv' = sv_store sv"
  by (auto simp: run_rt_def split: prod.splits)

lemma reply_of_store: "reply_of f (run_rt m sv) = (sv', x) \<Longrightarrow> sv_store sv' = sv_store sv"
  by (auto simp: reply_of_def dest: run_rt_store split: prod.splits sum.splits)

lemma report_release_http_store: "sv_store (fst (report_release_http i b sv)) = sv_store sv"
  by (auto simp: report_release_http_def release_report_def report_effect_http_def dest: reply_of_store
      split: prod.splits reply.splits option.splits) (metis reply_of_store prod.collapse)+

lemma map_reply_fst [simp]: "fst (map_reply f p) = fst p"
  by (simp add: map_reply_def split: prod.split sum.split)

lemma request_server:
  "sy_server (fst (request w h s)) \<in> {wo_between w (sy_calls s) (sy_server s),
     fst (h (wo_env w (sy_calls s)) (wo_between w (sy_calls s) (sy_server s)))}"
  by (auto simp: request_def answered_def before_call_def split: delivery.split prod.split reply.split)

lemma client_release_log:
  assumes "rely ret evs (wo_between w)"
  shows "log_of (fst (client_release w i body s)) = log_of s"
proof -
  note b = relyD(2) [OF assms, of "sy_calls s" "sy_server s"]
  show ?thesis
  proof (cases "wo_route w i")
    case (Some j)
    then show ?thesis using request_server [of w "\<lambda>e. report_release_http j body" s] b
      by (auto simp: client_release_def intent_request_def log_of_def report_release_http_store)
  qed (simp add: client_release_def intent_request_def log_of_def before_call_def b)
qed

lemma release_cmd_x: "release_cmd data g = (g', out) \<Longrightarrow> gw_x g' = gw_x g"
  by (auto simp: release_cmd_def publish_command_def Let_def split: prod.splits sum.splits if_splits)

lemma client_cell_keeps: "client_cell w call s = (s', out) \<Longrightarrow> log_of s' = log_of s"
  by (metis client_cell_log fst_conv)

lemma middleware_log: "middleware e (client w) query v data g = (g', out) \<Longrightarrow> log_of (gw_x g') = log_of (gw_x g)"
  by (auto simp: middleware_def client_def Let_def dest: client_cell_keeps release_cmd_x split: sum.splits prod.splits if_splits)

lemma report_to_xair_log:
  assumes "rely ret evs (wo_between w)"
  shows "log_of (gw_x (fst (report_to_xair (client w) i body note run g))) = log_of (gw_x g)"
  using client_release_log [OF assms, of i body "gw_x g"] by (auto simp: report_to_xair_def client_def split: prod.split sum.split)

section \<open>A released intent is committed\<close>

lemma commit_http_fresh:
  assumes e: "memory_env e" and sv: "memory_server sv" and r: "get_record (rt_lifecycle (sv_runtime sv)) i = Some r" "int_id (rec_intent r) = i"
    and c: "commit_http cf e i scope margin sv = (sv', Ok doc)" "cd_committed doc" and fresh: "i \<notin> st_committed (sv_store sv)"
  shows "cd_status doc = Committed \<and> rec_state r = AUTHORIZED"
proof -
  let ?a = "commit_request (rt_temporal (sv_runtime sv)) scope margin r"
  obtain st res where cm: "commit_memory (ev_now_s e) ?a (set_available False (sv_store sv)) = (st, res)" by fastforce
  have ca: "Store.commit_authorization (cf_cj cf) (ev_now_s e) ?a (ev_commit e) (sv_store sv) = (st, res)"
    using cm e sv by (simp add: Store.commit_authorization_def redis_first_unreachable memory_env_def memory_server_def set_available_def)
  have "ca_id ?a = i" using r(2) by (simp add: commit_request_def Let_def)
  then have "cr_status res \<noteq> Duplicate" using cm fresh by (auto simp: commit_memory_def set_available_def Let_def split: if_splits)
  then show ?thesis using c r(1) ca
    by (auto simp: commit_http_def Let_def http_error_def split: if_splits prod.splits sum.splits rt_error.splits)
qed

text \<open>A delivered commit, through the client.\<close>

lemma client_commit_reply:
  assumes "client_commit w i scope margin s = (s', Inr act)" "wo_route w i = Some i"
  obtains sv' doc where "commit_http (wo_config w) (wo_env w (sy_calls s)) i scope margin (wo_between w (sy_calls s) (sy_server s)) = (sv', Ok doc)"
    "sy_server s' = sv'" "ac_committed act = cd_committed doc"
  using assms
  by (auto simp: client_commit_def intent_request_def request_def answered_def before_call_def map_reply_def commit_result_of_def
      split: delivery.splits prod.splits reply.splits)

lemma client_submit_calls: "sy_calls (fst (client_submit w data s)) = Suc (sy_calls s)"
  by (auto simp: client_submit_def request_def answered_def before_call_def split: delivery.split prod.split reply.split)

lemma client_submit_reply:
  assumes "client_submit w data s = (s', Inr res)" "xr_outcome res = Some EXECUTE"
  obtains sv' d where "submit_intent_http (wo_config w) (wo_env w (sy_calls s)) data (wo_between w (sy_calls s) (sy_server s)) = (sv', Ok (Decided d))"
    "sy_server s' = sv'" "res = submit_result (Decided d)"
proof -
  obtain sv' rep where r: "submit_intent_http (wo_config w) (wo_env w (sy_calls s)) data (wo_between w (sy_calls s) (sy_server s)) = (sv', Ok rep)"
      "sy_server s' = sv'" "res = submit_result rep"
    using assms(1)
    by (auto simp: client_submit_def request_def answered_def before_call_def map_reply_def split: delivery.splits prod.splits reply.splits)
  then show thesis using that assms(2) by (cases rep) (auto simp: submit_result_def)
qed

text \<open>What the gateway leaves of the log after the commit.\<close>

lemma atomic_release_log:
  assumes "rely ret evs (wo_between w)" "atomic_release e (client w) query scope res i data g = (g', run)" "gk_released run"
  obtains margin x act where "query_float query ''commit_margin_ms'' = Some (Fin margin)"
    "client_commit w i (scope = TruthScope) margin (gw_x g) = (x, Inr act)" "ac_committed act" "log_of (gw_x g') = log_of x"
proof -
  obtain g1 run1 where c: "atomic_commit e (client w) query scope res i data g = (g1, run1)" by fastforce
  have rel: "gk_released run1" using assms(2,3) c report_to_xair_released by (fastforce simp: atomic_release_def split: if_splits)
  have log: "log_of (gw_x g') = log_of (gw_x g1)"
    using assms(2) c rel report_to_xair_log [OF assms(1), of i _ _ run1 g1] by (simp add: atomic_release_def) (metis fst_conv)
  from c show thesis
  proof (cases rule: atomic_commit_cases)
    case (called margin x act g2 reason)
    have "gw_x g2 = x" using called(4) by (auto simp: guarded_def release_guard_def Let_def split: if_splits option.splits prod.splits)
    moreover have "log_of (gw_x g1) = log_of (gw_x g2)" using called(5) by (metis middleware_log prod.collapse)
    ultimately show thesis using that called(1-3) log by (simp add: client_def)
  qed (use rel in simp)
qed

text \<open>The argument, shared with the labels of the trials.\<close>

lemma released_committed:
  assumes env: "rely ret evs (wo_between w)" "\<forall>k. memory_env (wo_env w k)" "\<not> cf_legacy_read (wo_config w)" "memory_server (sy_server (gw_x g))"
    and data: "cf_schema_error (wo_config w) data = None"
      "from_dict (cf_fromiso (wo_config w)) (ev_uuid (wo_env w (sy_calls (gw_x g)))) data = Inr intent" "wo_route w (int_id intent) = Some (int_id intent)"
    and new: "map_of (rt_seen (sv_runtime (sy_server (gw_x g)))) (int_id intent) = None" "int_id intent \<notin> st_committed (sv_store (sy_server (gw_x g)))"
      "action_class (sv_runtime (sy_server (gw_x g))) intent \<notin> set RISK_REDUCING"
    and run: "xair_policy e (client w) True query data g = (g', Inr r)" "gr_released r"
  defines "s \<equiv> st_snap (sv_store (sy_server (fst (client_submit w data (gw_x g)))))" and "h \<equiv> evs (Suc (sy_calls (gw_x g)))"
  shows "(\<exists>rec \<in> set (log_of (gw_x g')). map_of rec ''intent_id'' = Some (JStr (int_id intent)) \<and>
      map_of rec ''commit_version'' = Some (JInt (sn_version (fold (store_step ret) h s)))) \<and>
    (\<forall>k. \<forall>x \<in> set (if scope_of e query = TruthScope then registered (exprs_of intent) else exprs_of intent).
       truth x (sn_context (fold (store_step ret) (take k h) s)))"
proof -
  let ?scope = "scope_of e query" and ?x = "gw_x g" and ?i = "int_id intent" and ?cf = "wo_config w"
  let ?sv = "wo_between w (sy_calls (gw_x g)) (sy_server (gw_x g))"
  have mem: "memory_env (wo_env w k)" for k using env(2) by blast
  obtain x res gr where sub: "client_submit w data ?x = (x, Inr res)" "xr_outcome res = Some EXECUTE"
    and pr: "policy_run e (client w) True query data res (g\<lparr>gw_x := x\<rparr>) = (g', gr)" "gk_released gr"
    using xair_policy_reply [OF run] by (metis client_def api.select_convs(1))
  obtain sv1 d where s1: "submit_intent_http ?cf (wo_env w (sy_calls ?x)) data ?sv = (sv1, Ok (Decided d))"
      "sy_server x = sv1" "res = submit_result (Decided d)"
    using client_submit_reply [OF sub] .
  have b0: "?sv = on_snap (fold (store_step ret) (evs (sy_calls ?x))) (sy_server ?x)" "memory_server ?sv" using relyD [OF env(1)] env(4) by simp_all
  have new0: "map_of (rt_seen (sv_runtime ?sv)) ?i = None" "action_class (sv_runtime ?sv) intent \<notin> set RISK_REDUCING" using new b0(1) by simp_all
  have "rec_outcome (dd_record d) = Some EXECUTE" using sub(2) s1(3) by (simp add: submit_result_def)
  with submission_execute [OF mem env(3) b0(2) data(1,2) new0 s1(1)] have auth: "rec_state (dd_record d) = AUTHORIZED" .
  note sa = submission_authorized [OF mem env(3) b0(2) data(1,2) new0 s1(1) auth]
  have id: "py_str (ge_str e) (xr_id res) = ?i" using s1(3) sa by (simp add: submit_result_def py_str_def)
  have "xr_action_class res \<noteq> ''stop''" using s1(3) sa by (auto simp: submit_result_def authorized_on_def RISK_REDUCING_def Let_def)
  with pr(1) sub(2) id have at: "atomic_release e (client w) query ?scope res ?i (released_data res data) (g\<lparr>gw_x := x\<rparr>) = (g', gr)"
    by (simp add: policy_run_def Let_def)
  obtain margin x2 act where com0: "client_commit w ?i (?scope = TruthScope) margin (gw_x (g\<lparr>gw_x := x\<rparr>)) = (x2, Inr act)"
    and com: "ac_committed act" "log_of (gw_x g') = log_of x2"
    by (rule atomic_release_log [OF env(1) at pr(2)])
  then have com1: "client_commit w ?i (?scope = TruthScope) margin x = (x2, Inr act)" by simp
  have "sy_calls x = Suc (sy_calls ?x)" using client_submit_calls [of w data ?x] sub(1) by simp
  then have b1: "list_all event_ok h" "wo_between w (sy_calls x) sv1 = on_snap (fold (store_step ret) h) sv1"
      "memory_server (wo_between w (sy_calls x) sv1)"
    using relyD [OF env(1)] sa by (simp_all add: h_def)
  let ?sv2 = "wo_between w (sy_calls x) sv1"
  from client_commit_reply [OF com1 data(3)] obtain sv3 doc where
    c: "commit_http ?cf (wo_env w (sy_calls x)) ?i (?scope = TruthScope) margin ?sv2 = (sv3, Ok doc)" "sy_server x2 = sv3" "cd_committed doc"
    using com(1) s1(2) by metis
  have rec2: "get_record (rt_lifecycle (sv_runtime ?sv2)) ?i = Some (dd_record d)" using sa b1(2) by simp
  have fresh: "?i \<notin> st_committed (sv_store ?sv2)" using new(2) sa b0(1) b1(2) by simp
  have st: "cd_status doc = Committed" using commit_http_fresh [OF mem b1(3) rec2 _ c(1,3) fresh] sa by blast
  have hist: "st_snap (sv_store ?sv2) = fold (store_step ret) h (st_snap (sv_store sv1))" using b1(2) by simp
  note fin = submission_to_commit [OF mem mem b0(2) env(3) data(1,2) new0 s1(1) auth b1(1) hist b1(3) rec2 c(1) st]
  have s: "s = st_snap (sv_store sv1)" using sub(1) s1(2) by (simp add: s_def)
  obtain rec where "log_of (gw_x g') = st_actuations (sv_store ?sv2) @ [rec]" "map_of rec ''intent_id'' = Some (JStr ?i)"
    "map_of rec ''commit_version'' = Some (JInt (sn_version (fold (store_step ret) h s)))"
    using fin [of 0] c(2) com(2) unfolding log_of_def hist s by metis
  moreover from this have "rec \<in> set (log_of (gw_x g'))" by simp
  moreover have "truth y (sn_context (fold (store_step ret) (take k h) s))"
    if "y \<in> set (if ?scope = TruthScope then registered (exprs_of intent) else exprs_of intent)" for k y
    using fin [of k] that unfolding s by (auto simp: registered_def split: if_splits)
  ultimately show ?thesis by blast
qed


section \<open>Instances\<close>

definition demo_world :: "(nat \<Rightarrow> delivery) \<Rightarrow> world" where
  "demo_world del =
     \<lparr>wo_config = demo_config, wo_env = (\<lambda>k. demo_env (1 / 100)), wo_between = (\<lambda>k. on_snap (fold (store_step 3600) [demo_event])),
      wo_delivery = del, wo_route = Some, wo_cell = (\<lambda>k. []), wo_scan = (\<lambda>k. 10), wo_plc = (\<lambda>k p. []),
      wo_opa = (\<lambda>k ps v sv. Inl ''URLError'')\<rparr>"

definition demo_system :: system where
  "demo_system = \<lparr>sy_server = demo_server, sy_cell = new_cell (Some 7) False None 0, sy_plc = demo_plc, sy_seq = None, sy_calls = 0\<rparr>"

definition demo_gateway :: "system gateway" where
  "demo_gateway = \<lparr>gw_cache = [], gw_releases = 0, gw_ros_count = 0, gw_ros = False, gw_sent = [], gw_x = demo_system\<rparr>"

definition demo_query :: query where
  "demo_query = [(''actuator'', ''plc_plain'')]"

lemma rely_demo: "rely 3600 (\<lambda>_. [demo_event]) (wo_between (demo_world del))"
  by (simp add: rely_def demo_world_def demo_event_def)

lemma demo_released: "reply_released (xair_policy sample_env (client (demo_world (\<lambda>_. Delivered))) True demo_query (demo_body ''a'' ''MOVE'') demo_gateway)"
  by code_simp

text \<open>The demonstration meets every hypothesis of the commit's guarantee.\<close>

lemma demo_facts:
  obtains intent g' r where "\<forall>k. memory_env (wo_env (demo_world del) k)" "\<not> cf_legacy_read (wo_config (demo_world del))"
    "memory_server (sy_server (gw_x demo_gateway))" "cf_schema_error (wo_config (demo_world del)) (demo_body ''a'' ''MOVE'') = None"
    "from_dict (cf_fromiso (wo_config (demo_world del))) (ev_uuid (wo_env (demo_world del) (sy_calls (gw_x demo_gateway)))) (demo_body ''a'' ''MOVE'') = Inr intent"
    "wo_route (demo_world del) (int_id intent) = Some (int_id intent)"
    "map_of (rt_seen (sv_runtime (sy_server (gw_x demo_gateway)))) (int_id intent) = None"
    "int_id intent \<notin> st_committed (sv_store (sy_server (gw_x demo_gateway)))"
    "action_class (sv_runtime (sy_server (gw_x demo_gateway))) intent \<notin> set RISK_REDUCING"
    "xair_policy sample_env (client (demo_world (\<lambda>_. Delivered))) True demo_query (demo_body ''a'' ''MOVE'') demo_gateway = (g', Inr r)" "gr_released r"
    "int_id intent = ''a''" "exprs_of intent = [''cell.temp < 50'']" "registered [''cell.temp < 50''] = [''cell.temp < 50'']"
proof -
  let ?b = "demo_body ''a'' ''MOVE''"
  define intent where "intent = (case from_dict (cf_fromiso demo_config) ''u'' ?b of Inr i \<Rightarrow> i | Inl _ \<Rightarrow> sample_intent)"
  have "\<not> isl (from_dict (cf_fromiso demo_config) ''u'' ?b)" by code_simp
  then have body: "from_dict (cf_fromiso demo_config) ''u'' ?b = Inr intent" by (auto simp: intent_def split: sum.splits)
  have i: "int_id intent = ''a''" "action_class demo_runtime intent \<notin> set RISK_REDUCING" "exprs_of intent = [''cell.temp < 50'']" "registered [''cell.temp < 50''] = [''cell.temp < 50'']" unfolding intent_def by code_simp+
  obtain g' r where run: "xair_policy sample_env (client (demo_world (\<lambda>_. Delivered))) True demo_query ?b demo_gateway = (g', Inr r)" "gr_released r"
    using reply_releasedE [OF demo_released] by blast
  have sel: "wo_config (demo_world del) = demo_config" "wo_env (demo_world del) = (\<lambda>k. demo_env (1 / 100))" "wo_route (demo_world del) = Some" "gw_x demo_gateway = demo_system"
    "sy_server demo_system = demo_server" "sv_runtime demo_server = demo_runtime" "ev_uuid (demo_env (1 / 100)) = ''u''"
    by (simp_all add: demo_world_def demo_gateway_def demo_system_def demo_server_def demo_env_def)
  have "map_of (rt_seen demo_runtime) ''a'' = None" by code_simp
  moreover have "''a'' \<notin> st_committed (sv_store demo_server)" by (simp add: demo_server_def new_store_def)
  moreover have "\<not> cf_legacy_read demo_config" "cf_schema_error demo_config ?b = None" by (simp_all add: demo_config_def)
  ultimately show ?thesis by (intro that [OF _ _ _ _ _ _ _ _ _ run, of intent]) (simp_all add: sel i body)
qed


section \<open>An effect reported as withheld\<close>


end
