(* ===== verification/Batch_Properties.thy ===== *)
theory Batch_Properties
  imports Server_Properties
begin

text \<open>
  Properties of the batch endpoint: how it splits the intents of a batch, that no two of them are authorized on one
  target, and a validation on a snapshot that is not trusted.
\<close>

section \<open>Winners and losers\<close>

lemma targets_of_cases: "distinct (targets_of intents)" "set (targets_of intents) = (\<lambda>i. target_entity (payload i)) ` set intents"
  by (simp_all add: targets_of_def unique_def)

lemma group_of_nonempty: "t \<in> set (targets_of intents) \<Longrightarrow> group_of intents t \<noteq> []"
  by (auto simp: targets_of_cases group_of_def filter_empty_conv)

text \<open>The winner and the losers of one target.\<close>

definition winner_at :: "action_intent list \<Rightarrow> string \<Rightarrow> action_intent" where
  "winner_at intents t = (case resolve_intents (group_of intents t) ''priority_then_xr'' of (Some w, _) \<Rightarrow> w | _ \<Rightarrow> hd intents)"

definition losers_at :: "action_intent list \<Rightarrow> string \<Rightarrow> action_intent list" where
  "losers_at intents t = snd (resolve_intents (group_of intents t) ''priority_then_xr'')"

lemma resolve_at:
  assumes "t \<in> set (targets_of intents)"
  shows "resolve_intents (group_of intents t) ''priority_then_xr'' = (Some (winner_at intents t), losers_at intents t)"
    "mset (winner_at intents t # losers_at intents t) = mset (group_of intents t)"
    "\<forall>i \<in> set (group_of intents t). priority i < priority (winner_at intents t) \<or>
       (priority i = priority (winner_at intents t) \<and> (int_source i = ''xr'' \<longrightarrow> int_source (winner_at intents t) = ''xr''))"
  using resolve_winner [OF group_of_nonempty [OF assms]] by (auto simp: winner_at_def losers_at_def)

lemma winner_at_mem: "t \<in> set (targets_of intents) \<Longrightarrow> winner_at intents t \<in> set intents \<and> target_entity (payload (winner_at intents t)) = t"
  using mset_eq_setD [OF resolve_at(2) [of t intents]] by (auto simp: group_of_def)

lemma winners_of_groups: "winners_of (groups intents) = map (winner_at intents) (targets_of intents)"
proof -
  have "concat (map (\<lambda>t. case fst (resolve_intents (group_of intents t) ''priority_then_xr'') of None \<Rightarrow> [] | Some w \<Rightarrow> [w]) ts) =
      map (winner_at intents) ts" if "set ts \<subseteq> set (targets_of intents)" for ts
    using that by (induction ts) (simp_all add: resolve_at)
  then show ?thesis by (simp add: winners_of_def groups_def comp_def)
qed

lemma losers_of_groups: "losers_of (groups intents) = concat (map (losers_at intents) (targets_of intents))"
  by (simp add: losers_of_def groups_def losers_at_def [abs_def] comp_def)

lemma mset_split_targets:
  "distinct ts \<Longrightarrow> (\<forall>i \<in> set intents. target_entity (payload i) \<in> set ts) \<Longrightarrow> mset (concat (map (group_of intents) ts)) = mset intents"
proof (induction ts arbitrary: intents)
  case (Cons t ts)
  let ?rest = "filter (\<lambda>i. target_entity (payload i) \<noteq> t) intents"
  have "group_of intents u = group_of ?rest u" if "u \<in> set ts" for u
    using that Cons.prems(1) by (auto simp: group_of_def intro!: filter_cong)
  then have "map (group_of intents) ts = map (group_of ?rest) ts" by simp
  moreover have "mset (concat (map (group_of ?rest) ts)) = mset ?rest" using Cons by (intro Cons.IH) auto
  moreover have "mset intents = mset (group_of intents t) + mset ?rest" by (simp add: group_of_def)
  ultimately show ?case by (simp only: list.map concat.simps mset_append)
qed simp

lemma winners_losers: "mset (winners_of (groups intents) @ losers_of (groups intents)) = mset intents"
proof -
  have "mset (map (winner_at intents) ts @ concat (map (losers_at intents) ts)) = mset (concat (map (group_of intents) ts))"
    if "set ts \<subseteq> set (targets_of intents)" for ts
    using that by (induction ts) (simp_all flip: resolve_at(2))
  from this [of "targets_of intents"] show ?thesis
    using mset_split_targets [of "targets_of intents" intents] unfolding winners_of_groups losers_of_groups by (simp add: targets_of_cases)
qed

section \<open>What a step of the batch touches\<close>

definition record_at :: "server \<Rightarrow> string \<Rightarrow> intent_record option" where
  "record_at sv i = get_record (rt_lifecycle (sv_runtime sv)) i"

definition unseen :: "server \<Rightarrow> string \<Rightarrow> bool" where
  "unseen sv i \<longleftrightarrow> map_of (rt_seen (sv_runtime sv)) i = None"

text \<open>A step for the ids \<^term>\<open>I\<close>: the other records stay or are forgotten, and no other id is admitted.\<close>

definition touches :: "string set \<Rightarrow> server \<Rightarrow> server \<Rightarrow> bool" where
  "touches I sv sv' \<longleftrightarrow>
     (\<forall>j. j \<notin> I \<longrightarrow> (record_at sv' j = record_at sv j \<or> record_at sv' j = None) \<and> (unseen sv j \<longrightarrow> unseen sv' j)) \<and>
     rt_action_classes (sv_runtime sv') = rt_action_classes (sv_runtime sv)"

lemma touches_refl [simp]: "touches I sv sv"
  by (simp add: touches_def)

lemma touches_trans: "touches I sv1 sv2 \<Longrightarrow> touches J sv2 sv3 \<Longrightarrow> touches (I \<union> J) sv1 sv3"
  by (fastforce simp: touches_def)

lemma touches_then: "touches I sv1 sv2 \<Longrightarrow> touches I sv2 sv3 \<Longrightarrow> touches I sv1 sv3"
  using touches_trans [of I sv1 sv2 I sv3] by simp

lemma touches_mono: "touches I sv sv' \<Longrightarrow> I \<subseteq> J \<Longrightarrow> touches J sv sv'"
  by (auto simp: touches_def)

text \<open>Steps that move the context only.\<close>

definition same_tracking :: "server \<Rightarrow> server \<Rightarrow> bool" where
  "same_tracking sv sv' \<longleftrightarrow> rt_lifecycle (sv_runtime sv') = rt_lifecycle (sv_runtime sv) \<and> rt_seen (sv_runtime sv') = rt_seen (sv_runtime sv) \<and>
     rt_action_classes (sv_runtime sv') = rt_action_classes (sv_runtime sv)"

lemma same_trackingD: "same_tracking sv sv' \<Longrightarrow> touches I sv sv' \<and> record_at sv' j = record_at sv j \<and> unseen sv' j = unseen sv j"
  by (simp add: same_tracking_def touches_def record_at_def unseen_def)

lemma install_seen: "rt_seen (fst (install_context_snapshot c v b rt)) = rt_seen rt"
  by (simp add: install_context_snapshot_def)

lemma read_snapshot_tracking: "read_snapshot_full io sv = (sv', rest) \<Longrightarrow> same_tracking sv sv'"
  by (auto simp: read_snapshot_full_def same_tracking_def on_runtime_def install_seen Let_def split: prod.splits if_splits)

lemma update_context_tracking: "same_tracking sv (fst (update_context_store cf now opa patch uio sio sv))"
  by (auto simp: update_context_store_def Let_def same_tracking_def split: prod.split dest!: read_snapshot_tracking)

lemma same_tracking_trans: "same_tracking a b \<Longrightarrow> same_tracking b c \<Longrightarrow> same_tracking a c"
  by (simp add: same_tracking_def)

lemma fence_tracking:
  assumes "fence_intent cf e intent sv = (sv', res)"
  shows "same_tracking sv sv' \<and> (\<forall>i. res = Ok i \<longrightarrow> int_id i = int_id intent \<and> payload i = payload intent)"
proof -
  obtain sv1 c v pv t where r: "read_snapshot_full (ev_snap e 0) sv = (sv1, c, v, pv, t)" by (metis prod_cases5)
  note st = read_snapshot_tracking [OF r]
  have "same_tracking sv (fst (update_context_store cf now opa patch uio sio sv1))" for now opa patch uio sio
    using same_tracking_trans [OF st update_context_tracking] .
  moreover have "same_tracking sv sv" by (simp add: same_tracking_def)
  ultimately show ?thesis using assms r st
    by (auto simp: fence_intent_def Let_def split: if_splits option.splits)
qed

lemma record_stop_tracking: "same_tracking sv (record_stop cf e intent r sv)"
  using update_context_tracking [of sv cf] by (auto simp: record_stop_def Let_def same_tracking_def)

lemma expire_get: "get_record (snd (expire_from h seen t)) j = get_record t j \<or> get_record (snd (expire_from h seen t)) j = None"
  by (induction h seen t rule: expire_from.induct) (auto split: option.splits if_splits)

lemma admit_touches:
  assumes "admit_in e intent sv = (sv', r, dup)"
  shows "touches {int_id intent} sv sv'"
proof -
  let ?rt = "expire_seen (ev_mono_s e) (sv_runtime sv)"
  have "get_record (rt_lifecycle ?rt) j = record_at sv j \<or> get_record (rt_lifecycle ?rt) j = None" for j
    using expire_get by (auto simp: expire_seen_lifecycle record_at_def)
  moreover have "unseen sv j \<Longrightarrow> map_of (rt_seen ?rt) j = None" for j
    using expire_from_seen by (auto simp: expire_seen_def unseen_def split: prod.splits) (metis fst_conv)
  moreover have "rt_action_classes (sv_runtime sv') = rt_action_classes (sv_runtime sv)"
    using assms by (auto simp: expire_seen_def admit_in_def admit_def Let_def tally_def split: prod.splits option.splits)
  moreover have "record_at sv' j = get_record (rt_lifecycle ?rt) j \<and> map_of (rt_seen (sv_runtime sv')) j = map_of (rt_seen ?rt) j"
    if "j \<noteq> int_id intent" for j
    using assms that by (auto simp: admit_in_def admit_def Let_def tally_def record_at_def register_def split: prod.splits option.splits if_splits)
  ultimately show ?thesis by (auto simp: touches_def unseen_def [of sv'])
qed

lemma admit_unseen:
  assumes "admit_in e intent sv = (sv', r, dup)" "unseen sv (int_id intent)"
  shows "\<not> dup \<and> r = new_record intent \<and> record_at sv' (int_id intent) = Some (new_record intent)"
  using assms admit_new [of "sv_runtime sv" intent "ev_mono_s e" False]
  by (auto simp: admit_in_def unseen_def record_at_def split: prod.splits)

lemma move_get: "j \<noteq> i \<Longrightarrow> get_record (rt_lifecycle (fst (move i s out reason lat rt))) j = get_record (rt_lifecycle rt) j"
  by (auto simp: move_def transition_eq split: sum.splits prod.splits option.splits if_splits)

lemma revoke_touches:
  assumes "revoke_now i reason sv = (sv', res)"
  shows "touches {i} sv sv' \<and> (\<forall>r. res = Inr r \<longrightarrow> record_at sv' i = Some r \<and> rec_outcome r = Some REVOKE)"
proof -
  have "touches {i} sv sv'"
    using assms move_get [of _ i REVOKED "Some REVOKE" reason None "sv_runtime sv"] admission_move [of i REVOKED "Some REVOKE" reason None "sv_runtime sv"]
    by (auto simp: revoke_now_def run_rt_def touches_def record_at_def unseen_def admission_state_def move_def split: prod.splits sum.splits)
  moreover have "record_at sv' i = Some r \<and> rec_outcome r = Some REVOKE" if "res = Inr r" for r
    using assms that
    by (auto simp: revoke_now_def run_rt_def record_at_def move_def transition_eq split: prod.splits sum.splits option.splits if_splits)
  ultimately show ?thesis by blast
qed

text \<open>Validation of an intent whose record is there.\<close>

definition fresh_record :: "server \<Rightarrow> string \<Rightarrow> bool" where
  "fresh_record sv i \<longleftrightarrow> (\<exists>r. record_at sv i = Some r \<and> rec_state r \<in> set VALIDATABLE_STATES \<and> int_id (rec_intent r) = i)"

lemma process_frame:
  assumes "get_record (rt_lifecycle rt) (int_id intent) = Some r" "rec_state r \<in> set VALIDATABLE_STATES" "int_id (rec_intent r) = int_id intent"
    and p: "process_intent a intent rt = (rt', res)"
  shows "(\<forall>j. j \<noteq> int_id intent \<longrightarrow> get_record (rt_lifecycle rt') j = get_record (rt_lifecycle rt) j) \<and> rt_seen rt' = rt_seen rt \<and>
    rt_action_classes rt' = rt_action_classes rt \<and> (\<forall>r1. res = Inr r1 \<longrightarrow> get_record (rt_lifecycle rt') (int_id intent) = Some r1 \<and> int_id (rec_intent r1) = int_id intent)"
proof -
  obtain r' where r': "replaces (int_id intent) r' (rt_lifecycle rt) (rt_lifecycle rt')" "int_id (rec_intent r') = int_id intent"
    using process_intent_replaces [OF assms(1,2), of a] assms(3) p by auto
  then have "get_record (rt_lifecycle rt') (int_id intent) = Some r'" by (simp add: replaces_def)
  moreover have "res = Inr r1 \<Longrightarrow> get_record (rt_lifecycle rt') (int_id intent) = Some r1" for r1
    using validation_never_invalid [where a = a and intent = intent and rt = rt] p by simp
  ultimately show ?thesis using r' admission_kept(1) [of a intent rt] p by (auto simp: replaces_def)
qed

lemma validate_touches:
  assumes "fresh_record sv (int_id intent)" "run_rt (validate_twice a intent) sv = (sv', res)"
  shows "touches {int_id intent} sv sv'"
proof -
  obtain r where r: "get_record (rt_lifecycle (sv_runtime sv)) (int_id intent) = Some r" "rec_state r \<in> set VALIDATABLE_STATES" "int_id (rec_intent r) = int_id intent"
    using assms(1) by (auto simp: fresh_record_def record_at_def)
  obtain rt1 res1 where p1: "process_intent a intent (sv_runtime sv) = (rt1, res1)" by fastforce
  note f1 = process_frame [OF r p1]
  have two: "touches {int_id intent} sv (sv\<lparr>sv_runtime := rt2\<rparr>)"
    if "res1 = Inr r1" "rec_state r1 = DEGRADED" "process_intent a (rec_intent r1) rt1 = (rt2, res2)" for r1 rt2 res2
  proof -
    have "rec_state r1 \<in> set VALIDATABLE_STATES" using that(2) by (simp add: VALIDATABLE_STATES_def)
    with process_frame [of rt1 "rec_intent r1" r1 a rt2 res2] f1 that show ?thesis by (auto simp: touches_def record_at_def unseen_def)
  qed
  have one: "touches {int_id intent} sv (sv\<lparr>sv_runtime := rt1\<rparr>)" using f1 by (auto simp: touches_def record_at_def unseen_def)
  show ?thesis using assms(2) p1 one two
    by (auto simp: run_rt_def validate_twice_cases split: prod.splits sum.splits if_splits)
qed

section \<open>The steps of a batch\<close>

definition refused_at :: "server \<Rightarrow> string \<Rightarrow> bool" where
  "refused_at sv i \<longleftrightarrow> (\<forall>r. record_at sv i = Some r \<longrightarrow> rec_outcome r = Some REVOKE)"

definition stopping_at :: "server \<Rightarrow> string \<Rightarrow> bool" where
  "stopping_at sv i \<longleftrightarrow> (\<forall>r. record_at sv i = Some r \<longrightarrow> rec_action_class r \<in> set RISK_REDUCING)"

lemma touches_keeps:
  assumes "touches I sv sv'" "j \<notin> I"
  shows "refused_at sv j \<Longrightarrow> refused_at sv' j" "stopping_at sv j \<Longrightarrow> stopping_at sv' j" "unseen sv j \<Longrightarrow> unseen sv' j"
  using assms by (fastforce simp: touches_def refused_at_def stopping_at_def)+

lemma batch_refuse_step:
  assumes "batch_refuse e reason intent sv = (sv', Ok rows)" "unseen sv (int_id intent)"
  shows "touches {int_id intent} sv sv' \<and> refused_at sv' (int_id intent)"
proof -
  obtain sv1 r dup where a: "admit_in e intent sv = (sv1, r, dup)" by (metis prod_cases3)
  note t1 = admit_touches [OF a] and n = admit_unseen [OF a assms(2)]
  obtain sv2 res where v: "revoke_now (int_id intent) reason sv1 = (sv2, res)" by fastforce
  note t2 = revoke_touches [OF v]
  obtain r' where "res = Inr r'" "sv2 = sv'" using assms(1) a n v by (cases res) (auto simp: batch_refuse_def)
  then show ?thesis using touches_trans [OF t1 t2 [THEN conjunct1]] t2 by (simp add: refused_at_def)
qed

lemma batch_stop_step:
  assumes "batch_stop cf e intent sv = (sv', Ok rows)" "unseen sv (int_id intent)" "action_class (sv_runtime sv) intent \<in> set RISK_REDUCING"
  shows "touches {int_id intent} sv sv' \<and> stopping_at sv' (int_id intent)"
proof -
  let ?i = "int_id intent"
  obtain sv1 r dup where a: "admit_in e intent sv = (sv1, r, dup)" by (metis prod_cases3)
  note t1 = admit_touches [OF a] and n = admit_unseen [OF a assms(2)]
  have r1: "get_record (rt_lifecycle (sv_runtime sv1)) ?i = Some (new_record intent)" "rec_state (new_record intent) \<in> set VALIDATABLE_STATES"
    "action_class (sv_runtime sv1) intent \<in> set RISK_REDUCING" "rec_state (new_record intent) = CREATED"
    using n assms(3) t1 by (simp_all add: record_at_def new_record_def VALIDATABLE_STATES_def touches_def action_class_def)
  obtain sv2 res where v: "run_rt (validate_twice (request_args e None None) intent) sv1 = (sv2, res)" by fastforce
  have "fresh_record sv1 ?i" using r1 n by (auto simp: fresh_record_def new_record_def)
  note t2 = validate_touches [OF this v]
  have "\<exists>r'. res = Inr r' \<and> record_at sv2 ?i = Some r' \<and> rec_action_class r' \<in> set RISK_REDUCING"
    using v r1
    by (auto simp: run_rt_def validate_twice_cases process_intent_enter Let_def authorize_stop_def bind_rt_def modify_record_def
        move_ok tally_def record_at_def split: prod.splits)
  then obtain r' where r': "res = Inr r'" "record_at sv2 ?i = Some r'" "rec_action_class r' \<in> set RISK_REDUCING" by blast
  then have sv': "sv' = record_stop cf e intent r' sv2" using assms(1) a n v r1(4) by (simp add: batch_stop_def)
  note st = record_stop_tracking [of sv2 cf e intent r']
  show ?thesis using touches_trans [OF touches_trans [OF t1 t2] same_trackingD [OF st, THEN conjunct1, of "{?i}"]] r' same_trackingD [OF st] sv'
    by (simp add: stopping_at_def)
qed

lemma batch_winner_step:
  assumes "batch_winner cf e intent sv = (sv', Ok out)" "unseen sv (int_id intent)"
  shows "touches {int_id intent} sv sv'"
proof -
  let ?i = "int_id intent"
  obtain sv1 r dup where a: "admit_in e intent sv = (sv1, r, dup)" by (metis prod_cases3)
  note t1 = admit_touches [OF a] and n = admit_unseen [OF a assms(2)]
  obtain sv2 fr where f: "fence_intent cf e intent sv1 = (sv2, fr)" by fastforce
  then obtain fi where fi: "fr = Ok fi" using assms(1) a n by (cases fr) (auto simp: batch_winner_def)
  note st = fence_tracking [OF f]
  define sv3 where "sv3 = on_runtime (modify_record (int_id fi) (\<lambda>r. r\<lparr>rec_intent := fi\<rparr>)) sv2"
  have id: "int_id fi = ?i" using st fi by blast
  have rec2: "record_at sv2 ?i = Some (new_record intent)" using st n by (metis same_trackingD)
  have t3: "touches {?i} sv2 sv3" "record_at sv3 ?i = Some ((new_record intent)\<lparr>rec_intent := fi\<rparr>)"
    using rec2 id by (auto simp: sv3_def on_runtime_def modify_record_def touches_def record_at_def unseen_def)
  obtain sv4 c v pv tr where s4: "read_snapshot_full (ev_snap e 2) sv3 = (sv4, c, v, pv, tr)" by (metis prod_cases5)
  note st4 = read_snapshot_tracking [OF s4]
  obtain sv5 res where v5: "run_rt (validate_twice (request_args e (Some (c, v)) None) fi) sv4 = (sv5, res)" by fastforce
  have "fresh_record sv4 (int_id fi)" using t3(2) id st4
    by (auto simp: fresh_record_def same_trackingD new_record_def VALIDATABLE_STATES_def)
  note t5 = validate_touches [OF this v5, unfolded id]
  obtain r' where r': "res = Inr r'" "sv' = (if rec_state r' = AUTHORIZED then on_runtime (unlock r') sv5 else sv5)"
    using assms(1) a n f fi s4 v5 sv3_def by (cases res) (auto simp: batch_winner_def Let_def)
  have "same_tracking sv5 sv'" using r'(2) by (simp add: same_tracking_def on_runtime_def unlock_def)
  then have "touches {?i} sv5 sv'" "touches {?i} sv1 sv2" "touches {?i} sv3 sv4"
    using st st4 by (simp_all add: same_trackingD)
  then show ?thesis using t1 t3(1) t5 by (metis touches_then)
qed

text \<open>
  The lists. Steps of different intents, each of which touches its own id and establishes \<^term>\<open>P\<close> for it, where \<^term>\<open>P\<close> is
  kept by steps that touch other ids.
\<close>

definition own_step :: "(server \<Rightarrow> string \<Rightarrow> bool) \<Rightarrow> (action_intent \<Rightarrow> bool) \<Rightarrow> (action_intent \<Rightarrow> server \<Rightarrow> server \<Rightarrow> bool) \<Rightarrow> bool" where
  "own_step P Q step \<longleftrightarrow>
     (\<forall>i sv sv'. step i sv sv' \<longrightarrow> unseen sv (int_id i) \<longrightarrow> Q i \<longrightarrow> touches {int_id i} sv sv' \<and> P sv' (int_id i)) \<and>
     (\<forall>I sv sv' j. touches I sv sv' \<longrightarrow> j \<notin> I \<longrightarrow> P sv j \<longrightarrow> P sv' j)"

fun run_steps :: "(action_intent \<Rightarrow> server \<Rightarrow> server \<Rightarrow> bool) \<Rightarrow> action_intent list \<Rightarrow> server \<Rightarrow> server \<Rightarrow> bool" where
  "run_steps step [] sv sv' = (sv' = sv)"
| "run_steps step (i # is) sv sv' = (\<exists>sv1. step i sv sv1 \<and> run_steps step is sv1 sv')"

lemma run_own_steps:
  assumes "own_step P Q step" "run_steps step is sv sv'" "distinct (map int_id is)" "\<forall>i \<in> set is. unseen sv (int_id i) \<and> Q i"
  shows "touches (set (map int_id is)) sv sv' \<and> (\<forall>i \<in> set is. P sv' (int_id i))"
  using assms(2-4)
proof (induction "is" arbitrary: sv)
  case (Cons i "is")
  obtain sv1 where s: "step i sv sv1" "run_steps step is sv1 sv'" using Cons.prems(1) by auto
  have t1: "touches {int_id i} sv sv1" "P sv1 (int_id i)" using assms(1) s(1) Cons.prems(3) unfolding own_step_def by auto
  have "int_id i \<notin> int_id ` set is" using Cons.prems(2) by simp
  then have "int_id j \<noteq> int_id i" if "j \<in> set is" for j using that by (metis imageI)
  then have "unseen sv1 (int_id j)" if "j \<in> set is" for j
    by (intro touches_keeps(3) [OF t1(1)]) (use that Cons.prems(3) in auto)
  then have "\<forall>j \<in> set is. unseen sv1 (int_id j) \<and> Q j" using Cons.prems(3) by simp
  with Cons.IH [OF s(2)] Cons.prems(2) have t2: "touches (set (map int_id is)) sv1 sv'" "\<forall>i \<in> set is. P sv' (int_id i)" by simp_all
  have "int_id i \<notin> set (map int_id is)" using Cons.prems(2) by simp
  then have "P sv' (int_id i)" using assms(1) t2(1) t1(2) unfolding own_step_def by blast
  then show ?case using touches_trans [OF t1(1) t2(1)] t2(2) by simp
qed simp

lemma then_rows_Ok:
  "then_rows m1 m2 sv = (sv', Ok rows) \<longleftrightarrow> (\<exists>sv1 rows1 rows2. m1 sv = (sv1, Ok rows1) \<and> m2 sv1 = (sv', Ok rows2) \<and> rows = rows1 @ rows2)"
  by (auto simp: then_rows_def split: prod.splits reply.splits)

lemma batch_refuse_steps: "batch_refuse_all e reason is sv = (sv', Ok rows) \<Longrightarrow> run_steps (\<lambda>i sv sv'. \<exists>e reason rows. batch_refuse e reason i sv = (sv', Ok rows)) is sv sv'"
  by (induction "is" arbitrary: sv rows) (auto simp: no_rows_def then_rows_Ok)

lemma batch_winners_steps: "batch_winners cf es k ver is sv = (sv', Ok out) \<Longrightarrow> run_steps (\<lambda>i sv sv'. \<exists>e rows. batch_winner cf e i sv = (sv', Ok rows)) is sv sv'"
  by (induction "is" arbitrary: k ver sv out) (fastforce split: prod.splits reply.splits option.splits)+

lemma own_refuse: "own_step refused_at (\<lambda>_. True) (\<lambda>i sv sv'. \<exists>e reason rows. batch_refuse e reason i sv = (sv', Ok rows))"
  using batch_refuse_step touches_keeps(1) unfolding own_step_def by blast

lemma own_winner: "own_step (\<lambda>_ _. True) (\<lambda>_. True) (\<lambda>i sv sv'. \<exists>e rows. batch_winner cf e i sv = (sv', Ok rows))"
  using batch_winner_step unfolding own_step_def by blast

text \<open>A stop of the class table \<^term>\<open>cls\<close>, which the batch does not change.\<close>

definition stop_step :: "config \<Rightarrow> (string, string) dict \<Rightarrow> action_intent \<Rightarrow> server \<Rightarrow> server \<Rightarrow> bool" where
  "stop_step cf cls i sv sv' \<longleftrightarrow> rt_action_classes (sv_runtime sv) = cls \<and> (\<exists>e rows. batch_stop cf e i sv = (sv', Ok rows))"

lemma validate_twice_classes: "rt_action_classes (fst (validate_twice a intent rt)) = rt_action_classes rt"
proof -
  obtain rt1 res where p: "process_intent a intent rt = (rt1, res)" by fastforce
  then have "rt_action_classes rt1 = rt_action_classes rt" using admission_kept(1) [of a intent rt] by simp
  then show ?thesis using p admission_kept(1) [of a _ rt1] by (simp add: validate_twice_cases split: sum.split)
qed

lemma batch_stop_classes:
  assumes "batch_stop cf e i sv = (sv', out)"
  shows "rt_action_classes (sv_runtime sv') = rt_action_classes (sv_runtime sv)"
proof -
  obtain sv1 r dup where a: "admit_in e i sv = (sv1, r, dup)" by (metis prod_cases3)
  obtain sv2 res where v: "run_rt (validate_twice (request_args e None None) i) sv1 = (sv2, res)" by fastforce
  have "rt_action_classes (sv_runtime sv1) = rt_action_classes (sv_runtime sv)" using admit_touches [OF a] by (simp add: touches_def)
  moreover have "rt_action_classes (sv_runtime sv2) = rt_action_classes (sv_runtime sv1)"
    using v validate_twice_classes [of "request_args e None None" i "sv_runtime sv1"] by (auto simp: run_rt_def split: prod.splits)
  ultimately show ?thesis using assms a v record_stop_tracking [of sv2 cf e i]
    by (auto simp: batch_stop_def same_tracking_def split: if_splits sum.splits)
qed

lemma batch_stops_steps:
  "batch_stops cf es k is sv = (sv', Ok rows) \<Longrightarrow> run_steps (stop_step cf (rt_action_classes (sv_runtime sv))) is sv sv'"
proof (induction "is" arbitrary: k sv rows)
  case (Cons i "is")
  then obtain sv1 rows1 rows2 where s: "batch_stop cf (es k) i sv = (sv1, Ok rows1)" "batch_stops cf es (Suc k) is sv1 = (sv', Ok rows2)"
    by (auto simp: then_rows_Ok)
  then show ?case using Cons.IH [OF s(2)] batch_stop_classes [OF s(1)] by (auto simp: stop_step_def)
qed (simp add: no_rows_def)

lemma own_stop: "own_step stopping_at (\<lambda>i. dict_get cls (action_key i) ''other'' \<in> set RISK_REDUCING) (stop_step cf cls)"
  using batch_stop_step touches_keeps(2) unfolding own_step_def stop_step_def action_class_def by blast

lemma classify_stops:
  assumes "i \<in> set (cl_stops (classify cf es rt trusted body))"
  shows "action_class rt i \<in> set RISK_REDUCING"
proof -
  let ?ok = "\<lambda>cl. \<forall>i \<in> set (cl_stops cl). action_class rt i \<in> set RISK_REDUCING"
  have step: "?ok cl \<Longrightarrow> ?ok (classify_item cf rt trusted x cl)" for x cl
    by (auto simp: classify_item_def split: prod.splits option.splits sum.splits)
  have "?ok cl \<Longrightarrow> ?ok (fold (classify_item cf rt trusted) xs cl)" for xs cl
  proof (induction xs arbitrary: cl)
    case (Cons x xs)
    show ?case using Cons.IH [OF step [OF Cons.prems]] by simp
  qed simp
  from this [of "\<lparr>cl_results = [], cl_intents = [], cl_stops = []\<rparr>"] show ?thesis using assms by (simp add: classify_def)
qed

lemma filter_single: "distinct xs \<Longrightarrow> (\<And>x. x \<in> set xs \<Longrightarrow> P x \<Longrightarrow> x = w) \<Longrightarrow> length (filter P xs) \<le> 1"
  by (induction xs) (auto simp: filter_empty_conv)

text \<open>One target: only the winner can have been executed.\<close>

lemma executed_once:
  assumes "distinct (map int_id intents)" "\<forall>i \<in> set (losers_of (groups intents)). refused_at sv (int_id i)"
    and "\<forall>i \<in> set stops. stopping_at sv (int_id i)"
  shows "executed_on (sv_runtime sv) (intents @ stops) t \<le> 1"
proof -
  let ?P = "\<lambda>i. target_entity (payload i) = t \<and>
        (case get_record (rt_lifecycle (sv_runtime sv)) (int_id i) of
           None \<Rightarrow> False | Some r \<Rightarrow> rec_outcome r = Some EXECUTE \<and> rec_action_class r \<notin> set RISK_REDUCING)"
  have "i = winner_at intents t" if "i \<in> set intents" "?P i" for i
  proof -
    have "i \<notin> set (losers_of (groups intents))" using that(2) assms(2) by (auto simp: refused_at_def record_at_def split: option.splits)
    then have "i \<in> set (winners_of (groups intents))" using that(1) mset_eq_setD [OF winners_losers [of intents]] by auto
    then show ?thesis using that(2) winner_at_mem [of _ intents] by (auto simp: winners_of_groups)
  qed
  moreover have "distinct intents" using assms(1) by (simp add: distinct_map)
  ultimately have "length (filter ?P intents) \<le> 1" by (intro filter_single)
  moreover have "filter ?P stops = []" using assms(3) by (auto simp: filter_empty_conv stopping_at_def record_at_def split: option.splits)
  ultimately show ?thesis by (simp add: executed_on_def)
qed

lemma mset_filter_split: "mset (filter P xs) + mset (filter (\<lambda>x. \<not> P x) xs) = mset xs"
  by (induction xs) simp_all

text \<open>The four phases of the handler, on disjoint sets of new ids.\<close>

lemma batch_phases:
  assumes steps: "batch_stops cf es k st sv1 = (a, Ok rs)" "batch_refuse_all e reason pre a = (b, Ok rp)"
      "batch_refuse_all e reason' lo b = (c, Ok rl)" "batch_winners cf es k' ver win c = (sv', Ok rw)"
    and dist: "distinct (map int_id (st @ pre @ lo @ win))" and new: "\<forall>i \<in> set (st @ pre @ lo @ win). unseen sv1 (int_id i)"
    and cls: "\<forall>i \<in> set st. action_class (sv_runtime sv1) i \<in> set RISK_REDUCING"
  shows "(\<forall>i \<in> set st. stopping_at sv' (int_id i)) \<and> (\<forall>i \<in> set (pre @ lo). refused_at sv' (int_id i))"
proof -
  let ?ids = "\<lambda>is. set (map int_id is)"
  have dis: "?ids st \<inter> ?ids pre = {}" "?ids st \<inter> ?ids lo = {}" "?ids st \<inter> ?ids win = {}" "?ids pre \<inter> ?ids lo = {}"
      "?ids pre \<inter> ?ids win = {}" "?ids lo \<inter> ?ids win = {}"
    and ds: "distinct (map int_id st)" "distinct (map int_id pre)" "distinct (map int_id lo)" "distinct (map int_id win)"
    using dist by (auto simp: disjoint_iff)
  have mem: "i \<in> set is \<Longrightarrow> ?ids is \<inter> I = {} \<Longrightarrow> int_id i \<notin> I" for i "is" I by auto
  have 1: "touches (?ids st) sv1 a" "\<forall>i \<in> set st. stopping_at a (int_id i)"
    using run_own_steps [OF own_stop batch_stops_steps [OF steps(1)] ds(1)] new cls by (simp_all add: action_class_def)
  have na: "unseen a (int_id i)" if "i \<in> set (pre @ lo @ win)" for i
    by (rule touches_keeps(3) [OF 1(1)]) (use that new dis mem in \<open>auto simp: Int_commute\<close>)
  have 2: "touches (?ids pre) a b" "\<forall>i \<in> set pre. refused_at b (int_id i)"
    using run_own_steps [OF own_refuse batch_refuse_steps [OF steps(2)] ds(2)] na by simp_all
  have nb: "unseen b (int_id i)" if "i \<in> set (lo @ win)" for i
    by (rule touches_keeps(3) [OF 2(1)]) (use that na dis mem in \<open>auto simp: Int_commute\<close>)
  have 3: "touches (?ids lo) b c" "\<forall>i \<in> set lo. refused_at c (int_id i)"
    using run_own_steps [OF own_refuse batch_refuse_steps [OF steps(3)] ds(3)] nb by simp_all
  have nc: "unseen c (int_id i)" if "i \<in> set win" for i
    by (rule touches_keeps(3) [OF 3(1)]) (use that nb dis mem in \<open>auto simp: Int_commute\<close>)
  have 4: "touches (?ids win) c sv'"
    using run_own_steps [OF own_winner batch_winners_steps [OF steps(4)] ds(4)] nc by simp
  have "stopping_at sv' (int_id i)" if "i \<in> set st" for i
    using touches_keeps(2) [OF 4 mem [OF that dis(3)]] touches_keeps(2) [OF 3(1) mem [OF that dis(2)]]
      touches_keeps(2) [OF 2(1) mem [OF that dis(1)]] 1(2) that by blast
  moreover have "refused_at sv' (int_id i)" if "i \<in> set pre" for i
    using touches_keeps(1) [OF 4 mem [OF that dis(5)]] touches_keeps(1) [OF 3(1) mem [OF that dis(4)]] 2(2) that by blast
  moreover have "refused_at sv' (int_id i)" if "i \<in> set lo" for i
    using touches_keeps(1) [OF 4 mem [OF that dis(6)]] 3(2) that by blast
  ultimately show ?thesis by auto
qed


section \<open>Concrete batches\<close>

definition demo_batch :: "ctx list" where
  "demo_batch = [demo_body ''a'' ''MOVE'', demo_body ''b'' ''MOVE'']"

definition batch_at :: "nat \<Rightarrow> env" where
  "batch_at k = demo_env (1 / 100)"

definition batch_outcomes :: "server \<times> batch_doc reply \<Rightarrow> (json \<times> decision_outcome option \<times> string) list option" where
  "batch_outcomes p = (case snd p of Ok doc \<Rightarrow> Some (map (\<lambda>r. (br_id r, br_outcome r, br_reason r)) (bd_results doc)) | Http sc msg \<Rightarrow> None)"

definition demo_classified :: classified where
  "demo_classified = (case read_snapshot_full NoClient demo_server of (sv1, c, v, pv, t) \<Rightarrow> classify demo_config batch_at (sv_runtime sv1) t demo_batch)"



text \<open>
  A store that drops after the first read: the batch's later reads find no server, and answer with the local copy, marked untrusted.
\<close>

definition lost_env :: "nat \<Rightarrow> env" where
  "lost_env k = (demo_env (1 / 100))\<lparr>ev_snap := (\<lambda>n. if k = 0 then Replies (demo_view, []) else NoClient)\<rparr>"

definition required_server :: server where
  "required_server = \<lparr>sv_runtime = demo_runtime, sv_store = new_store True Document, sv_opa_replications = 0, sv_opa_errors = 0\<rparr>"



end
