(* ===== verification/Runtime_Defects.thy ===== *)
theory Runtime_Defects
  imports Runtime_Properties
begin

text \<open>
  Runs of the runtime that contradict its documents. The target lock is released by target and not by
  holder, so a report about one intent frees the lock another one holds; the drain loop requeues a delayed
  intent and pops it again at once; and an exception in the degradation step leaves the intent in a state
  no later pass leaves.
\<close>

section \<open>The target lock\<close>

definition lock_ops :: "rt_op list" where
  "lock_ops =
     [OpAdmit 0 False (demo_intent ''a''), OpProcess (process_queued 10) (demo_intent ''a''),
      OpCommit ''a'' True ''committed'' (Some 1),
      OpAdmit 0 False (demo_intent ''b''), OpProcess (process_queued 10) (demo_intent ''b''),
      OpRelease ''a'' True ''handed_over'' None None,
      OpAdmit 0 False (demo_intent ''c''), OpProcess (process_queued 10) (demo_intent ''c'')]"


section \<open>The drain loop\<close>

lemma conclude_delay:
  assumes "get_record (rt_lifecycle rt) (int_id intent) = Some r" "rec_state r = VALIDATING"
  shows "conclude a intent DELAY reason rt =
    (requeue_if (pa_requeue a) intent (tally (\<lambda>m. m\<lparr>m_delayed := m_delayed m + 1\<rparr>)
       (rt\<lparr>rt_lifecycle := log_entry (int_id intent) DELAYED reason (Some DELAY)
          (put_record (int_id intent) (moved DELAYED (Some DELAY) reason (Some (pa_latency_ms a)) r) (rt_lifecycle rt))\<rparr>)),
     Inr (moved DELAYED (Some DELAY) reason (Some (pa_latency_ms a)) r))"
  using assms by (simp add: conclude_def Let_def bind_rt_def move_ok)

text \<open>The state the loop runs in: one waiting intent that is admissible at \<^term>\<open>now\<close>, its target held.\<close>

definition waiting :: "rat \<Rightarrow> action_intent \<Rightarrow> runtime \<Rightarrow> bool" where
  "waiting now intent rt \<longleftrightarrow>
     (\<exists>k. rq_heap (rt_receiver rt) = [(k, intent)]) \<and>
     (\<exists>r. get_record (rt_lifecycle rt) (int_id intent) = Some r \<and> rec_state r \<in> set VALIDATABLE_STATES) \<and>
     policy_added intent \<noteq> None \<and> action_class rt intent \<notin> set RISK_REDUCING \<and>
     target_entity (payload intent) \<in> rt_active rt \<and> admissible (process_queued now) rt intent"

lemma admissible_cong:
  assumes "rt_temporal rt' = rt_temporal rt" "rt_context rt' = rt_context rt" "rt_eval_timeout_s rt' = rt_eval_timeout_s rt"
  shows "admissible a rt' intent = admissible a rt intent"
proof -
  have "snapshot_of a rt' = snapshot_of a rt" using assms(2) by (simp add: snapshot_of_def split: option.splits)
  then show ?thesis using assms by (simp add: admissible_def)
qed

lemma waiting_next:
  assumes "waiting now intent rt"
  shows "\<exists>rt' r'. process_next now rt = (rt', Inr (Some r')) \<and> waiting now intent rt'"
proof -
  let ?a = "process_queued now" and ?i = "int_id intent"
  obtain k r where k: "rq_heap (rt_receiver rt) = [(k, intent)]"
    and r: "get_record (rt_lifecycle rt) ?i = Some r" "rec_state r \<in> set VALIDATABLE_STATES"
    using assms by (auto simp: waiting_def)
  define rt0 where "rt0 = rt\<lparr>rt_receiver := (rt_receiver rt)\<lparr>rq_heap := []\<rparr>\<rparr>"
  define rt1 where "rt1 = modify_record ?i (evaluated ?a (version_of ?a rt0) intent)
      (tally (\<lambda>m. m\<lparr>m_latencies := m_latencies m @ [pa_latency_ms ?a]\<rparr>) (entered ?i (action_class rt0 intent) r rt0))"
  have pol: "apply_policy rt0 intent = intent" using assms by (auto simp: waiting_def apply_policy_def)
  have cls: "action_class rt0 intent = action_class rt intent" by (simp add: rt0_def action_class_def)
  have adm: "admissible ?a rt0 intent" using assms admissible_cong [of rt0 rt] by (simp add: waiting_def rt0_def)
  have busy: "target_entity (payload intent) \<in> rt_active rt0" using assms by (simp add: waiting_def rt0_def)
  have ev: "evaluate ?a (snapshot_of ?a rt0) intent rt0 = (DELAY, ''target_busy'')"
    using adm busy unfolding admissible_evaluate evaluate_cases by simp
  have "\<not> stale_snapshot ?a rt0" by (simp add: stale_snapshot_def process_queued_def)
  moreover have r0: "get_record (rt_lifecycle rt0) ?i = Some r" using r(1) by (simp add: rt0_def)
  moreover have "action_class rt0 intent \<notin> set RISK_REDUCING" using assms cls by (simp add: waiting_def)
  ultimately have p: "process_intent ?a intent rt0 = conclude ?a intent DELAY ''target_busy'' rt1"
    unfolding process_intent_enter [OF r0 r(2)] by (simp add: Let_def validate_now_def pol ev rt1_def)
  have r1: "get_record (rt_lifecycle rt1) ?i = Some (evaluated ?a (version_of ?a rt0) intent (validating (action_class rt0 intent) r))"
    by (simp add: rt1_def modify_record_def tally_def)
  have "process_next now rt = bind_rt (process_intent ?a intent) (\<lambda>r rt. (rt, Inr (Some r))) rt0"
    using k by (simp add: process_next_def pop_def rt0_def)
  then obtain rt' r' where n: "process_next now rt = (rt', Inr (Some r'))"
    and c: "(rt', Inr r') = conclude ?a intent DELAY ''target_busy'' rt1"
    unfolding bind_rt_def p conclude_delay [OF r1 evaluated_sel(1) [THEN trans, OF validating_sel(1)]] by auto
  have f: "rt_active rt1 = rt_active rt" "rt_action_classes rt1 = rt_action_classes rt" "rt_context rt1 = rt_context rt"
    "rt_temporal rt1 = rt_temporal rt" "rt_eval_timeout_s rt1 = rt_eval_timeout_s rt"
    "rt_receiver rt1 = (rt_receiver rt)\<lparr>rq_heap := []\<rparr>"
    by (simp_all add: rt1_def rt0_def tally_def entered_def)
  have "waiting now intent rt'"
    using c assms f admissible_cong [of rt' rt ?a intent]
    unfolding conclude_delay [OF r1 evaluated_sel(1) [THEN trans, OF validating_sel(1)]]
    by (auto simp: waiting_def requeue_if_def tally_def submit_def VALIDATABLE_STATES_def action_class_def process_queued_def)
  with n show ?thesis by blast
qed

lemma waiting_diverges: "waiting now intent rt \<Longrightarrow> process_all fuel now rt = None"
proof (induction fuel arbitrary: rt)
  case (Suc fuel)
  then obtain rt' r' where "process_next now rt = (rt', Inr (Some r'))" "waiting now intent rt'" using waiting_next by blast
  then show ?case using Suc.IH [of rt'] by simp
qed simp

definition drain_runtime :: runtime where
  "drain_runtime =
     fold rt_exec [OpAdmit 0 False (demo_intent ''a''), OpProcess (process_queued 10) (demo_intent ''a''),
                   OpAdmit 0 True ((demo_intent ''b'')\<lparr>policy_added := Some []\<rparr>)] demo_runtime"


section \<open>The degradation step\<close>

definition fast_intent :: action_intent where
  "fast_intent = (demo_intent ''d'')\<lparr>payload := \<lparr>action_type = ''MOVE'', target_entity = ''robot'',
     parameters = [(''speed_factor'', JStr ''fast'')], degradation_policy = ''reduce_speed''\<rparr>\<rparr>"

text \<open>
  An intent whose speed factor is no number makes the validation pass raise and stays in the validating
  state: every later pass returns it unchanged, whatever the snapshot, and since that state is not settled
  its record is not forgotten either. The schema leaves the parameters open and promises that such an intent
  is revalidated under the same id.
\<close>

theorem degradation_strands_intent:
  "\<exists>rt e r. process_intent (process_queued 10) fast_intent demo_runtime = (rt, Inl e) \<and>
     get_record (rt_lifecycle rt) ''d'' = Some r \<and> rec_state r = VALIDATING \<and> VALIDATING \<notin> set SETTLED_STATES \<and>
     (\<forall>a. process_intent a fast_intent rt = (rt, Inr r))"
proof -
  obtain rt res where p: "process_intent (process_queued 10) fast_intent demo_runtime = (rt, res)" by fastforce
  have "isl (snd (process_intent (process_queued 10) fast_intent demo_runtime))" by code_simp
  then obtain e where e: "res = Inl e" using p by (cases res) auto
  have "map_option rec_state (get_record (rt_lifecycle (fst (process_intent (process_queued 10) fast_intent demo_runtime))) ''d'') = Some VALIDATING"
    by code_simp
  then obtain r where r: "get_record (rt_lifecycle rt) ''d'' = Some r" "rec_state r = VALIDATING" using p by auto
  then have "process_intent a fast_intent rt = (rt, Inr r)" for a
    by (intro process_intent_skip) (simp_all add: fast_intent_def demo_intent_def VALIDATABLE_STATES_def)
  moreover have "VALIDATING \<notin> set SETTLED_STATES" by code_simp
  ultimately show ?thesis using p e r by blast
qed

end
