(* ===== verification/Timeline.thy ===== *)
theory Timeline
  imports Xair_Prelude "HOL-Library.Multiset" "HOL-Library.Product_Lexorder" "HOL-Library.Char_ord" "HOL-Library.List_Lexorder"
begin

text \<open>
  \<^verbatim>\<open>experiments/mes_trace.py\<close>: the production log that drives the context in the replay experiments. Each machine's state
  is kept as a step function of trace time. The theory shows that the step function is the one the log defines, that
  \<^verbatim>\<open>next_change\<close> is exact, and that following the event stream from an initial state gives the state at
  every moment. Time stamps are seconds, parsed from their texts; the download and the check of the archive are not modelled.
\<close>

section \<open>The log\<close>

text \<open>\<^verbatim>\<open>key\<close>: runs of characters that are no word characters become one underscore.\<close>

fun squeeze :: "bool \<Rightarrow> string \<Rightarrow> string" where
  "squeeze gap [] = []"
| "squeeze gap (c # cs) =
     (if is_word c then c # squeeze False cs
      else if gap then squeeze True cs else CHR ''_'' # squeeze True cs)"

definition strip_underscore :: "string \<Rightarrow> string" where
  "strip_underscore s = rev (dropWhile (\<lambda>c. c = CHR ''_'') (rev (dropWhile (\<lambda>c. c = CHR ''_'') s)))"

definition machine_key :: "string \<Rightarrow> string" where
  "machine_key resource = strip_underscore (squeeze False (lower (strip resource)))"

record log_row =
  lr_resource :: string
  lr_start :: rat
  lr_complete :: rat
  lr_kind :: string
  lr_part :: string

type_synonym work_step = "string \<times> rat \<times> rat \<times> string"

definition steps_of :: "log_row list \<Rightarrow> work_step list" where
  "steps_of rows = map (\<lambda>r. (machine_key (lr_resource r), lr_start r, lr_complete r, lr_kind r)) rows"

record timeline =
  tl_t0 :: rat
  tl_steps :: "(string, (rat \<times> rat \<times> string \<times> string) list) dict"
  tl_span :: rat
  tl_machines :: "string list"
  tl_changes :: "(string, rat list \<times> string list) dict"

section \<open>The step function\<close>

definition machine_state :: "int \<Rightarrow> int \<Rightarrow> string" where
  "machine_state active setups = (if active \<le> 0 then ''IDLE'' else if setups > 0 then ''SETUP'' else ''BUSY'')"

type_synonym point = "rat \<times> int \<times> int"

definition points :: "rat \<Rightarrow> string \<Rightarrow> work_step list \<Rightarrow> point list" where
  "points t0 m steps =
     concat (map (\<lambda>(m', a, b, kind). if m' = m then [(a - t0, 1, of_bool (kind = ''S'')), (b - t0, - 1, - of_bool (kind = ''S''))] else []) steps)"

text \<open>The loop over the sorted points: every boundary at one time is applied before a state is recorded.\<close>

fun scan_points :: "point list \<Rightarrow> int \<Rightarrow> int \<Rightarrow> string \<Rightarrow> (rat \<times> string) list" where
  "scan_points [] active setups prev = []"
| "scan_points ((t, da, ds) # pts) active setups prev =
     (if pts \<noteq> [] \<and> fst (hd pts) = t then scan_points pts (active + da) (setups + ds) prev
      else if machine_state (active + da) (setups + ds) \<noteq> prev
      then (t, machine_state (active + da) (setups + ds)) # scan_points pts (active + da) (setups + ds) (machine_state (active + da) (setups + ds))
      else scan_points pts (active + da) (setups + ds) prev)"

definition changes_of :: "point list \<Rightarrow> rat list \<times> string list" where
  "changes_of pts = (let cs = scan_points (sort pts) 0 0 ''IDLE'' in (0 # map fst cs, ''IDLE'' # map snd cs))"

definition row_steps :: "rat \<Rightarrow> string \<Rightarrow> log_row list \<Rightarrow> (rat \<times> rat \<times> string \<times> string) list" where
  "row_steps t0 m rows =
     sort (map (\<lambda>r. (lr_start r - t0, lr_complete r - t0, lr_kind r, strip (lr_part r))) (filter (\<lambda>r. machine_key (lr_resource r) = m) rows))"

text \<open>The machines, in the order of their first steps: the keys of the dictionaries of the source.\<close>

definition machines_of :: "work_step list \<Rightarrow> string list" where
  "machines_of steps = rev (remdups (rev (map fst steps)))"

text \<open>\<^verbatim>\<open>Timeline.__init__\<close> on the rows of the log; \<^const>\<open>None\<close> is the \<^verbatim>\<open>ValueError\<close> for an empty log.\<close>

definition make_timeline :: "log_row list \<Rightarrow> timeline option" where
  "make_timeline rows =
     (let steps = steps_of rows; ms = machines_of steps in
      if rows = [] then None
      else let t0 = Min (set (map (\<lambda>(m, a, b, kind). a) steps)) in
        Some \<lparr>tl_t0 = t0, tl_steps = map (\<lambda>m. (m, row_steps t0 m rows)) ms,
              tl_span = Max (set (map (\<lambda>(m, a, b, kind). b) steps)) - t0,
              tl_machines = sort ms, tl_changes = map (\<lambda>m. (m, changes_of (points t0 m steps))) ms\<rparr>)"

section \<open>Queries\<close>

text \<open>\<^verbatim>\<open>bisect_right\<close> and \<^verbatim>\<open>bisect_left\<close> on a sorted list.\<close>

definition bisect_right :: "rat list \<Rightarrow> rat \<Rightarrow> nat" where
  "bisect_right xs t = length (takeWhile (\<lambda>x. x \<le> t) xs)"

definition bisect_left :: "rat list \<Rightarrow> rat \<Rightarrow> nat" where
  "bisect_left xs t = length (takeWhile (\<lambda>x. x < t) xs)"

text \<open>The index \<^verbatim>\<open>i - 1\<close> wraps to the last entry for \<^verbatim>\<open>i = 0\<close>, a time before the trace. \<^const>\<open>None\<close> is a \<^verbatim>\<open>KeyError\<close>.\<close>

definition tl_state :: "timeline \<Rightarrow> string \<Rightarrow> rat \<Rightarrow> string option" where
  "tl_state tr m t =
     (case map_of (tl_changes tr) m of
        None \<Rightarrow> None
      | Some (ts, ss) \<Rightarrow> Some (if bisect_right ts t = 0 then last ss else ss ! (bisect_right ts t - 1)))"

text \<open>\<^term>\<open>Some None\<close> is the infinite time.\<close>

definition next_change :: "timeline \<Rightarrow> string \<Rightarrow> rat \<Rightarrow> rat option option" where
  "next_change tr m t =
     (case map_of (tl_changes tr) m of
        None \<Rightarrow> None
      | Some (ts, ss) \<Rightarrow>
          Some (if bisect_right ts t < length ts then Some (ts ! bisect_right ts t) else None))"

definition machine_events :: "rat \<Rightarrow> rat \<Rightarrow> string \<times> rat list \<times> string list \<Rightarrow> (rat \<times> string \<times> string) list" where
  "machine_events t_from t_to entry =
     (case entry of (m, ts, ss) \<Rightarrow>
        map (\<lambda>i. (ts ! i, m, ss ! i)) [max (bisect_left ts t_from) 1..<bisect_left ts t_to])"

definition tl_events :: "timeline \<Rightarrow> rat \<Rightarrow> rat \<Rightarrow> (rat \<times> string \<times> string) list" where
  "tl_events tr t_from t_to = sort (concat (map (machine_events t_from t_to) (tl_changes tr)))"

section \<open>The step function is the one the log defines\<close>

text \<open>The specification, from the documentation: active steps are those with \<^term>\<open>a \<le> t \<and> t < b\<close>.\<close>

definition active_steps :: "rat \<Rightarrow> string \<Rightarrow> work_step list \<Rightarrow> rat \<Rightarrow> work_step list" where
  "active_steps t0 m steps t = filter (\<lambda>(m', a, b, kind). m' = m \<and> a - t0 \<le> t \<and> t < b - t0) steps"

definition logged_state :: "rat \<Rightarrow> string \<Rightarrow> work_step list \<Rightarrow> rat \<Rightarrow> string" where
  "logged_state t0 m steps t =
     (if active_steps t0 m steps t = [] then ''IDLE''
      else if \<exists>(m', a, b, kind) \<in> set (active_steps t0 m steps t). kind = ''S'' then ''SETUP'' else ''BUSY'')"

text \<open>The last entry of a list of changes that is not after \<^term>\<open>t\<close>.\<close>

fun look :: "rat \<Rightarrow> string \<Rightarrow> (rat \<times> string) list \<Rightarrow> string" where
  "look t d [] = d"
| "look t d ((u, s) # cs) = (if u \<le> t then look t s cs else d)"

definition sum_to :: "(point \<Rightarrow> int) \<Rightarrow> rat \<Rightarrow> point list \<Rightarrow> int" where
  "sum_to f t pts = sum_list (map f (filter (\<lambda>p. fst p \<le> t) pts))"

lemma sum_to_simps [simp]: "sum_to f t [] = 0" "sum_to f t (p # pts) = (if fst p \<le> t then f p else 0) + sum_to f t pts"
  "sum_to f t (xs @ ys) = sum_to f t xs + sum_to f t ys"
  by (simp_all add: sum_to_def)

lemma sum_to_sort [simp]: "sum_to f t (sort pts) = sum_to f t pts"
proof -
  have "mset (map f (filter (\<lambda>p. fst p \<le> t) (sort pts))) = mset (map f (filter (\<lambda>p. fst p \<le> t) pts))" by (simp add: mset_filter)
  then show ?thesis unfolding sum_to_def by (metis sum_mset_sum_list)
qed

lemma scan_points_times: "(u, s) \<in> set (scan_points pts a d p) \<Longrightarrow> u \<in> fst ` set pts"
  by (induction pts a d p rule: scan_points.induct) (auto split: if_splits)

lemma sorted_fst: "sorted (pts :: ('a :: linorder \<times> 'b :: linorder) list) \<Longrightarrow> sorted (map fst pts)"
  by (induction pts) (auto simp: less_eq_prod_def)

lemma look_before: "\<forall>(u, s) \<in> set cs. t < u \<Longrightarrow> look t d cs = d"
  by (cases cs) auto

lemma look_early: "\<forall>c \<in> set cs. t < fst c \<Longrightarrow> look t d cs = d"
  by (cases cs) auto

lemma scan_points_look:
  "sorted (map fst pts) \<Longrightarrow> pts \<noteq> [] \<Longrightarrow> fst (hd pts) \<le> t \<Longrightarrow>
   look t prev (scan_points pts active setups prev) = machine_state (active + sum_to (\<lambda>p. fst (snd p)) t pts) (setups + sum_to (\<lambda>p. snd (snd p)) t pts)"
proof (induction pts active setups prev rule: scan_points.induct)
  case (2 u da ds pts active setups prev)
  let ?s = "machine_state (active + da) (setups + ds)"
  show ?case
  proof (cases "pts \<noteq> [] \<and> fst (hd pts) = u")
    case True
    then show ?thesis using 2 by (simp add: add.assoc)
  next
    case False
    have "look t ?s (scan_points pts (active + da) (setups + ds) ?s) =
        machine_state (active + da + sum_to (\<lambda>p. fst (snd p)) t pts) (setups + ds + sum_to (\<lambda>p. snd (snd p)) t pts)"
    proof (cases "pts = [] \<or> t < fst (hd pts)")
      case True
      then have late: "\<forall>p \<in> set pts. t < fst p" using 2(4) by (cases pts) auto
      then have "sum_to f t pts = 0" for f by (simp add: sum_to_def filter_False not_le)
      moreover have "look t ?s (scan_points pts (active + da) (setups + ds) ?s) = ?s"
        using late scan_points_times by (intro look_before) fastforce
      ultimately show ?thesis by simp
    next
      case late: False
      show ?thesis
      proof (cases "?s = prev")
        case True
        then show ?thesis using 2(3) [OF False] late 2(4) by simp
      next
        case ne: False
        then show ?thesis using 2(2) [OF False] late 2(4) by simp
      qed
    qed
    then show ?thesis using False 2(6) by (auto simp: add.assoc)
  qed
qed simp

lemma points_simps [simp]:
  "points t0 m [] = []"
  "points t0 m ((m', a, b, kind) # steps) =
     (if m' = m then (a - t0, 1, of_bool (kind = ''S'')) # (b - t0, - 1, - of_bool (kind = ''S'')) # points t0 m steps else points t0 m steps)"
  by (simp_all add: points_def)

lemma active_steps_simps [simp]:
  "active_steps t0 m [] t = []"
  "active_steps t0 m ((m', a, b, kind) # steps) t =
     (if m' = m \<and> a - t0 \<le> t \<and> t < b - t0 then (m', a, b, kind) # active_steps t0 m steps t else active_steps t0 m steps t)"
  by (simp_all add: active_steps_def)

lemma sum_to_points:
  assumes "\<forall>(m, a, b, kind) \<in> set steps. a \<le> b"
  shows "sum_to (\<lambda>p. fst (snd p)) t (points t0 m steps) = int (length (active_steps t0 m steps t))"
    "sum_to (\<lambda>p. snd (snd p)) t (points t0 m steps) = int (length (filter (\<lambda>(m', a, b, kind). kind = ''S'') (active_steps t0 m steps t)))"
  using assms by (induction steps) (auto simp: not_le not_less)

definition change_list :: "rat \<Rightarrow> string \<Rightarrow> work_step list \<Rightarrow> (rat \<times> string) list" where
  "change_list t0 m steps = scan_points (sort (points t0 m steps)) 0 0 ''IDLE''"

lemma change_list_look:
  assumes "\<forall>(m, a, b, kind) \<in> set steps. a \<le> b"
  shows "look t ''IDLE'' (change_list t0 m steps) = logged_state t0 m steps t"
proof -
  let ?pts = "sort (points t0 m steps)"
  have s: "machine_state (0 + sum_to (\<lambda>p. fst (snd p)) t ?pts) (0 + sum_to (\<lambda>p. snd (snd p)) t ?pts) = logged_state t0 m steps t"
    by (auto simp: sum_to_points [OF assms] machine_state_def logged_state_def filter_empty_conv simp flip: length_greater_0_conv)
  have sorted: "sorted (map fst ?pts)" by (simp add: sorted_fst)
  show ?thesis
  proof (cases "?pts = [] \<or> t < fst (hd ?pts)")
    case True
    then have late: "\<forall>p \<in> set ?pts. t < fst p" using sorted by (cases ?pts) auto
    then have "sum_to f t ?pts = 0" for f by (simp add: sum_to_def filter_False not_le)
    then have "logged_state t0 m steps t = ''IDLE''" using s by (simp add: machine_state_def)
    moreover have "look t ''IDLE'' (change_list t0 m steps) = ''IDLE''"
      unfolding change_list_def using late scan_points_times by (intro look_before) fastforce
    ultimately show ?thesis by simp
  next
    case False
    then show ?thesis using scan_points_look [OF sorted, of t "''IDLE''" 0 0] s by (simp add: change_list_def)
  qed
qed

lemma nth_look: "(d # map snd cs) ! length (takeWhile (\<lambda>x. x \<le> t) (map fst cs)) = look t d cs"
  by (induction cs arbitrary: d) auto

lemma scan_points_sorted: "sorted (map fst pts) \<Longrightarrow> sorted_wrt (<) (map fst (scan_points pts a d p))"
proof (induction pts a d p rule: scan_points.induct)
  case (2 u da ds pts active setups prev)
  show ?case
  proof (cases "pts \<noteq> [] \<and> fst (hd pts) = u")
    case False
    have "u < fst p" if "p \<in> set pts" for p
    proof (cases pts)
      case (Cons q qs)
      then show ?thesis using that False 2(4) by auto
    qed (use that in simp)
    then have "u < v" if "v \<in> set (map fst (scan_points pts a d p))" for v a d p using that scan_points_times by fastforce
    then show ?thesis using 2 False by auto
  qed (use 2 in simp)
qed simp

text \<open>A recorded state differs from the one before it.\<close>

fun alternating :: "string \<Rightarrow> (rat \<times> string) list \<Rightarrow> bool" where
  "alternating d [] = True"
| "alternating d ((u, s) # cs) = (s \<noteq> d \<and> alternating s cs)"

lemma scan_points_alternating: "alternating p (scan_points pts a d p)"
  by (induction pts a d p rule: scan_points.induct) auto

section \<open>Timelines\<close>

lemma machines_of_set: "set (machines_of steps) = fst ` set steps" "distinct (machines_of steps)"
  by (simp_all add: machines_of_def)

lemma map_of_keyed: "map_of (map (\<lambda>m. (m, f m)) ms) m = (if m \<in> set ms then Some (f m) else None)"
  by (induction ms) auto

lemma timeline_changes:
  assumes "make_timeline rows = Some tr" "m \<in> set (tl_machines tr)"
  shows "map_of (tl_changes tr) m =
    Some (0 # map fst (change_list (tl_t0 tr) m (steps_of rows)), ''IDLE'' # map snd (change_list (tl_t0 tr) m (steps_of rows)))"
  using assms by (auto simp: make_timeline_def Let_def map_of_keyed changes_of_def change_list_def split: if_splits)

lemma tl_state_look:
  assumes "make_timeline rows = Some tr" "m \<in> set (tl_machines tr)" "0 \<le> t"
  shows "tl_state tr m t = Some (look t ''IDLE'' (change_list (tl_t0 tr) m (steps_of rows)))"
  using assms(3) by (simp add: tl_state_def timeline_changes [OF assms(1,2)] bisect_right_def nth_look)

text \<open>
  C30: the timeline is the step function of its log. At every time of the trace a machine is \<^verbatim>\<open>IDLE\<close> when no step is active on it,
  \<^verbatim>\<open>SETUP\<close> while a setup step is active and \<^verbatim>\<open>BUSY\<close> otherwise, where a step is active from its start to its completion,
  the completion excluded.
\<close>

theorem timeline_state_exact:
  assumes "make_timeline rows = Some tr" "m \<in> set (tl_machines tr)" "0 \<le> t" "\<forall>r \<in> set rows. lr_start r \<le> lr_complete r"
  shows "tl_state tr m t = Some (logged_state (tl_t0 tr) m (steps_of rows) t)"
proof -
  have "\<forall>(m, a, b, kind) \<in> set (steps_of rows). a \<le> b" using assms(4) by (auto simp: steps_of_def)
  then show ?thesis using tl_state_look [OF assms(1-3)] by (simp add: change_list_look)
qed


section \<open>The next change\<close>

definition next_of :: "rat \<Rightarrow> (rat \<times> string) list \<Rightarrow> rat option" where
  "next_of t cs = (case dropWhile (\<lambda>(u, s). u \<le> t) cs of [] \<Rightarrow> None | (u, s) # _ \<Rightarrow> Some u)"

lemma next_of_simps [simp]: "next_of t [] = None" "next_of t ((u, s) # cs) = (if u \<le> t then next_of t cs else Some u)"
  by (simp_all add: next_of_def)

lemma nth_next:
  "(if length (takeWhile (\<lambda>x. x \<le> t) (map fst cs)) < length cs then Some (map fst cs ! length (takeWhile (\<lambda>x. x \<le> t) (map fst cs))) else None) =
   next_of t cs"
  by (induction cs) auto

lemma look_until_next:
  assumes "sorted_wrt (<) (map fst cs)" "alternating d cs"
  shows "t \<le> u \<Longrightarrow> (\<forall>v. next_of t cs = Some v \<longrightarrow> u < v) \<Longrightarrow> look u d cs = look t d cs"
    "next_of t cs = Some v \<Longrightarrow> t < v \<and> look v d cs \<noteq> look t d cs"
  using assms by (induction cs arbitrary: d) (auto simp: look_early split: if_splits)

lemma change_list_shape: "sorted_wrt (<) (map fst (change_list t0 m steps))" "alternating ''IDLE'' (change_list t0 m steps)"
  by (simp_all add: change_list_def scan_points_sorted sorted_fst scan_points_alternating)

lemma next_change_look:
  assumes "make_timeline rows = Some tr" "m \<in> set (tl_machines tr)" "0 \<le> t"
  shows "next_change tr m t = Some (next_of t (change_list (tl_t0 tr) m (steps_of rows)))"
  using assms(3) nth_next [of t "change_list (tl_t0 tr) m (steps_of rows)"]
  by (auto simp: next_change_def timeline_changes [OF assms(1,2)] bisect_right_def split: if_splits)

text \<open>
  \<^verbatim>\<open>next_change\<close> is exact. The state of a machine stays the same until the time it gives, and is another one at that time; if
  it gives the infinite time, the state never changes again.
\<close>

lemma next_change_exact:
  assumes "make_timeline rows = Some tr" "m \<in> set (tl_machines tr)" "0 \<le> t"
  shows "\<exists>nx. next_change tr m t = Some nx \<and>
    (\<forall>u \<ge> t. (\<forall>v. nx = Some v \<longrightarrow> u < v) \<longrightarrow> tl_state tr m u = tl_state tr m t) \<and>
    (\<forall>v. nx = Some v \<longrightarrow> t < v \<and> tl_state tr m v \<noteq> tl_state tr m t)"
proof -
  let ?cs = "change_list (tl_t0 tr) m (steps_of rows)"
  note look = look_until_next [OF change_list_shape [of "tl_t0 tr" m "steps_of rows"]]
  have nx: "next_change tr m t = Some (next_of t ?cs)"
    by (rule next_change_look [OF assms])
  have st: "tl_state tr m u = Some (look u ''IDLE'' ?cs)" if "t \<le> u" for u using tl_state_look [OF assms(1,2)] that assms(3) by simp
  have same: "tl_state tr m u = tl_state tr m t" if "t \<le> u" "\<forall>v. next_of t ?cs = Some v \<longrightarrow> u < v" for u
    using look(1) [OF that] st [OF that(1)] st [of t] by simp
  have "t < v \<and> tl_state tr m v \<noteq> tl_state tr m t" if "next_of t ?cs = Some v" for v
    using look(2) [OF that] st [of v] st [of t] by simp
  with nx same show ?thesis by blast
qed

section \<open>Following the events\<close>

text \<open>\<^verbatim>\<open>Replayer\<close> of \<^verbatim>\<open>experiments/run_e20_mes.py\<close>: the context starts with the states at \<^term>\<open>t_from\<close>, and every event overwrites one of them.\<close>

definition replay_init :: "timeline \<Rightarrow> rat \<Rightarrow> string \<rightharpoonup> string" where
  "replay_init tr t_from m = (if m \<in> set (tl_machines tr) then tl_state tr m t_from else None)"

fun replay_run :: "(rat \<times> string \<times> string) list \<Rightarrow> (string \<rightharpoonup> string) \<Rightarrow> string \<rightharpoonup> string" where
  "replay_run [] ctx = ctx"
| "replay_run ((t, m, s) # evs) ctx = replay_run evs (ctx(m \<mapsto> s))"

lemma replay_run_last:
  "replay_run evs ctx m = (case rev (filter (\<lambda>(u, m', s). m' = m) evs) of [] \<Rightarrow> ctx m | (u, m', s) # _ \<Rightarrow> Some s)"
proof (induction evs arbitrary: ctx)
  case (Cons e evs)
  obtain u n s where "e = (u, n, s)" by (metis prod_cases3)
  then show ?case using Cons by (auto split: list.split prod.split)
qed simp

lemma look_filter: "sorted_wrt (<) (map fst cs) \<Longrightarrow> look t d cs = last (d # map snd (filter (\<lambda>(u, s). u \<le> t) cs))"
  by (induction cs arbitrary: d) (auto simp: filter_empty_conv filter_False)

lemma map_nth_window:
  fixes cs :: "(rat \<times> string) list"
  shows "sorted_wrt (<) (map fst cs) \<Longrightarrow> a \<le> b \<Longrightarrow>
   map (\<lambda>k. cs ! k) [length (takeWhile (\<lambda>u. u < a) (map fst cs))..<length (takeWhile (\<lambda>u. u < b) (map fst cs))] = filter (\<lambda>(u, s). a \<le> u \<and> u < b) cs"
proof (induction cs)
  case (Cons c cs)
  obtain u s where c: "c = (u, s)" by fastforce
  have later: "\<forall>(v, s) \<in> set cs. u < v" using Cons.prems(1) c by auto
  have shift: "map (\<lambda>k. (c # cs) ! k) [Suc i..<Suc j] = map (\<lambda>k. cs ! k) [i..<j]" for i j by (simp add: comp_def del: upt_Suc flip: map_Suc_upt)
  consider "u < a" | "a \<le> u" "u < b" | "b \<le> u" by linarith
  then show ?case
  proof cases
    case 1
    then show ?thesis using Cons shift c by simp
  next
    case 2
    have "takeWhile (\<lambda>u. u < a) (map fst cs) = []" using later 2 by (cases cs) auto
    then show ?thesis using Cons 2 c shift [of 0] by (simp add: upt_conv_Cons del: upt_Suc)
  next
    case 3
    then have "filter (\<lambda>(u, s). a \<le> u \<and> u < b) cs = []" using later by (fastforce simp: filter_empty_conv)
    then show ?thesis using 3 c Cons.prems(2) by simp
  qed
qed simp


lemma points_nonneg:
  assumes "\<forall>(m, a, b, kind) \<in> set steps. t0 \<le> a \<and> a \<le> b"
  shows "\<forall>p \<in> set (points t0 m steps). 0 \<le> fst p"
  using assms by (induction steps) (fastforce split: if_splits)+

lemma change_list_nonneg:
  assumes "\<forall>(m, a, b, kind) \<in> set steps. t0 \<le> a \<and> a \<le> b"
  shows "\<forall>(u, s) \<in> set (change_list t0 m steps). 0 \<le> u"
  using points_nonneg [OF assms, of m] scan_points_times by (fastforce simp: change_list_def)

lemma timeline_start: "make_timeline rows = Some tr \<Longrightarrow> (m, a, b, kind) \<in> set (steps_of rows) \<Longrightarrow> tl_t0 tr \<le> a"
  by (force simp: make_timeline_def Let_def split: if_splits intro!: Min_le)

text \<open>The events of one machine are its recorded changes in the window.\<close>

lemma machine_events_filter:
  assumes "sorted_wrt (<) (map fst cs)" "\<forall>(u, s) \<in> set cs. 0 \<le> u" "0 \<le> a" "a < b"
  shows "machine_events a b (m, 0 # map fst cs, ''IDLE'' # map snd cs) = map (\<lambda>(u, s). (u, m, s)) (filter (\<lambda>(u, s). a \<le> u \<and> u < b) cs)"
proof -
  let ?n = "\<lambda>x. length (takeWhile (\<lambda>u. u < x) (map fst cs))"
  have n0: "?n 0 = 0" using assms(2) by (cases cs) auto
  have lo: "max (bisect_left (0 # map fst cs) a) 1 = Suc (?n a)" using assms(3) n0 by (cases "a = 0") (simp_all add: bisect_left_def)
  have hi: "bisect_left (0 # map fst cs) b = Suc (?n b)" using assms(3,4) by (simp add: bisect_left_def)
  have bound: "?n b \<le> length cs" using length_takeWhile_le [of "\<lambda>u. u < b" "map fst cs"] by simp
  have "machine_events a b (m, 0 # map fst cs, ''IDLE'' # map snd cs) = map (\<lambda>k. (fst (cs ! k), m, snd (cs ! k))) [?n a..<?n b]"
    unfolding machine_events_def prod.case lo hi using bound by (simp add: comp_def del: upt_Suc flip: map_Suc_upt)
  also have "\<dots> = map (\<lambda>(u, s). (u, m, s)) (map (\<lambda>k. cs ! k) [?n a..<?n b])" by (simp add: case_prod_beta)
  finally show ?thesis using map_nth_window [OF assms(1), of a b] assms(4) by simp
qed


lemma filter_concat_keyed:
  assumes "distinct ms" "\<And>n. n \<in> set ms \<Longrightarrow> \<forall>e \<in> set (f n). fst (snd e) = n"
  shows "filter (\<lambda>(u, n, s). n = m) (concat (map f ms)) = (if m \<in> set ms then f m else [])"
  using assms
proof (induction ms)
  case (Cons n ms)
  have "filter (\<lambda>(u, n, s). n = m) (f n) = (if n = m then f n else [])"
    using Cons.prems(2) [of n] by (auto simp: filter_id_conv filter_empty_conv)
  then show ?case using Cons by auto
qed simp

lemma takeWhile_filter_time: "sorted (map fst evs) \<Longrightarrow> takeWhile (\<lambda>e. fst e \<le> t) evs = filter (\<lambda>e. fst e \<le> (t :: rat)) evs"
proof (induction evs)
  case (Cons e evs)
  have "filter (\<lambda>e. fst e \<le> t) evs = []" if "\<not> fst e \<le> t" using that Cons.prems by (fastforce simp: filter_empty_conv)
  then show ?case using Cons by simp
qed simp

lemma sorted_events: "sorted_wrt (<) (map fst cs) \<Longrightarrow> sorted (map (\<lambda>(u, s). (u, m, s)) (cs :: (rat \<times> string) list))"
  by (induction cs) (auto simp: less_eq_prod_def)

text \<open>The events of one machine in the stream.\<close>

lemma events_of_machine:
  assumes tr: "make_timeline rows = Some tr" "m \<in> set (tl_machines tr)" and ok: "\<forall>r \<in> set rows. lr_start r \<le> lr_complete r"
    and "0 \<le> a" "a < b"
  shows "filter (\<lambda>(u, n, s). n = m) (tl_events tr a b) =
    map (\<lambda>(u, s). (u, m, s)) (filter (\<lambda>(u, s). a \<le> u \<and> u < b) (change_list (tl_t0 tr) m (steps_of rows)))"
proof -
  let ?cs = "\<lambda>n. change_list (tl_t0 tr) n (steps_of rows)" and ?ms = "machines_of (steps_of rows)"
  let ?evs = "\<lambda>n. map (\<lambda>(u, s). (u, n, s)) (filter (\<lambda>(u, s). a \<le> u \<and> u < b) (?cs n))"
  have steps: "\<forall>(m, a, b, kind) \<in> set (steps_of rows). tl_t0 tr \<le> a \<and> a \<le> b"
    using timeline_start [OF tr(1)] ok by (fastforce simp: steps_of_def)
  have "tl_changes tr = map (\<lambda>n. (n, 0 # map fst (?cs n), ''IDLE'' # map snd (?cs n))) ?ms"
    using tr(1) by (auto simp: make_timeline_def Let_def changes_of_def change_list_def split: if_splits)
  then have "tl_events tr a b = sort (concat (map ?evs ?ms))"
    using machine_events_filter [OF change_list_shape(1) change_list_nonneg [OF steps] assms(4,5)] by (simp add: tl_events_def comp_def)
  then have "filter (\<lambda>(u, n, s). n = m) (tl_events tr a b) = sort (filter (\<lambda>(u, n, s). n = m) (concat (map ?evs ?ms)))"
    by (simp add: filter_sort)
  also have "filter (\<lambda>(u, n, s). n = m) (concat (map ?evs ?ms)) = ?evs m"
    using tr by (subst filter_concat_keyed) (auto simp: machines_of_set make_timeline_def Let_def split: if_splits)
  also have "sort (?evs m) = ?evs m"
    using change_list_shape(1) [of "tl_t0 tr" m "steps_of rows"] by (intro sorted_sort_id sorted_events) (simp add: sorted_wrt_map sorted_wrt_filter)
  finally show ?thesis .
qed

lemma filter_from:
  fixes cs :: "(rat \<times> string) list"
  shows "sorted_wrt (<) (map fst cs) \<Longrightarrow> a \<le> t \<Longrightarrow> filter (\<lambda>(u, s). u \<le> t) cs = filter (\<lambda>(u, s). u < a) cs @ filter (\<lambda>(u, s). a \<le> u \<and> u \<le> t) cs"
proof (induction cs)
  case (Cons c cs)
  obtain u s where c: "c = (u, s)" by fastforce
  have "filter (\<lambda>(u, s). u < a) cs = []" if "a \<le> u" using Cons.prems(1) c that by (fastforce simp: filter_empty_conv)
  then show ?case using Cons c by auto
qed simp

text \<open>
  C31: the replay follows the log. From the states at \<^term>\<open>a\<close>, the events of the stream up to a time \<^term>\<open>t\<close> of the window leave every
  machine in the state the timeline gives for \<^term>\<open>t\<close>.
\<close>

theorem replay_follows_log:
  assumes tr: "make_timeline rows = Some tr" "m \<in> set (tl_machines tr)" "\<forall>r \<in> set rows. lr_start r \<le> lr_complete r"
    and t: "0 \<le> a" "a \<le> t" "t < b"
  shows "replay_run (takeWhile (\<lambda>e. fst e \<le> t) (tl_events tr a b)) (replay_init tr a) m = tl_state tr m t"
proof -
  let ?cs = "change_list (tl_t0 tr) m (steps_of rows)"
  let ?new = "filter (\<lambda>(u, s). a \<le> u \<and> u \<le> t) ?cs"
  note sorted = change_list_shape(1) [of "tl_t0 tr" m "steps_of rows"]
  have "filter (\<lambda>(u, n, s). n = m) (takeWhile (\<lambda>e. fst e \<le> t) (tl_events tr a b)) =
      filter (\<lambda>e. fst e \<le> t) (filter (\<lambda>(u, n, s). n = m) (tl_events tr a b))"
    by (simp add: takeWhile_filter_time sorted_fst tl_events_def conj_commute case_prod_beta)
  also have "\<dots> = map (\<lambda>(u, s). (u, m, s)) ?new"
    using t by (auto simp: events_of_machine [OF tr t(1)] filter_map comp_def case_prod_beta intro!: arg_cong [of _ _ "map _"] filter_cong)
  finally have evs: "filter (\<lambda>(u, n, s). n = m) (takeWhile (\<lambda>e. fst e \<le> t) (tl_events tr a b)) = map (\<lambda>(u, s). (u, m, s)) ?new" .
  have st: "tl_state tr m u = Some (last (''IDLE'' # map snd (filter (\<lambda>(v, s). v \<le> u) ?cs)))" if "0 \<le> u" for u
    using tl_state_look [OF tr(1,2) that] look_filter [OF sorted] by simp
  show ?thesis
  proof (cases ?new rule: rev_cases)
    case Nil
    then have "\<forall>(u, s) \<in> set ?cs. u \<le> t \<longleftrightarrow> u \<le> a" using t(2) by (fastforce simp: filter_empty_conv)
    then have "filter (\<lambda>(u, s). u \<le> t) ?cs = filter (\<lambda>(u, s). u \<le> a) ?cs" by (auto intro!: filter_cong)
    then show ?thesis using evs Nil st [of t] st [of a] t tr(2) by (simp add: replay_run_last replay_init_def)
  next
    case (snoc ys c)
    then show ?thesis using evs st [of t] t filter_from [OF sorted t(2)] by (simp add: replay_run_last case_prod_beta)
  qed
qed

section \<open>A small log\<close>

definition demo_row :: "string \<Rightarrow> rat \<Rightarrow> rat \<Rightarrow> string \<Rightarrow> log_row" where
  "demo_row m a b kind = \<lparr>lr_resource = m, lr_start = a, lr_complete = b, lr_kind = kind, lr_part = ''''\<rparr>"

definition demo_log :: "log_row list" where
  "demo_log = [demo_row ''Machine 1 - Lathe'' 1000 1060 ''D'', demo_row ''Machine 2'' 1030 1120 ''D'', demo_row ''Machine 1 - Lathe'' 1060 1090 ''S'']"

definition demo_timeline :: timeline where
  "demo_timeline = (case make_timeline demo_log of Some tr \<Rightarrow> tr | None \<Rightarrow> \<lparr>tl_t0 = 0, tl_steps = [], tl_span = 0, tl_machines = [], tl_changes = []\<rparr>)"

lemma make_timeline_None: "make_timeline rows = None \<longleftrightarrow> rows = []"
  by (simp add: make_timeline_def Let_def)

lemma demo_timeline: "make_timeline demo_log = Some demo_timeline"
proof -
  have "make_timeline demo_log \<noteq> None" unfolding make_timeline_None by (simp add: demo_log_def)
  then show ?thesis unfolding demo_timeline_def by (auto split: option.split)
qed

lemma demo_machines: "tl_machines demo_timeline = [''machine_1_lathe'', ''machine_2'']"
  by code_simp

lemma demo_ordered: "\<forall>r \<in> set demo_log. lr_start r \<le> lr_complete r"
  by code_simp

theorem timeline_state_exact_witness: "tl_state demo_timeline ''machine_1_lathe'' 70 = Some ''SETUP''"
proof -
  have "logged_state (tl_t0 demo_timeline) ''machine_1_lathe'' (steps_of demo_log) 70 = ''SETUP''" by code_simp
  then show ?thesis using timeline_state_exact [OF demo_timeline _ _ demo_ordered, of "''machine_1_lathe''" 70] by (simp add: demo_machines)
qed

theorem replay_follows_log_witness:
  "replay_run (takeWhile (\<lambda>e. fst e \<le> 65) (tl_events demo_timeline 10 200)) (replay_init demo_timeline 10) ''machine_1_lathe'' = Some ''SETUP''"
proof -
  have "tl_state demo_timeline ''machine_1_lathe'' 65 = Some ''SETUP''" by code_simp
  then show ?thesis using replay_follows_log [OF demo_timeline _ demo_ordered, of "''machine_1_lathe''" 10 65 200] by (simp add: demo_machines)
qed


end
