(* ===== verification/Trace_Replay.thy ===== *)
theory Trace_Replay
  imports Timeline
begin

text \<open>
  \<^verbatim>\<open>experiments/run_e20_mes.py\<close>: the exact drift fractions of a timeline (\<^verbatim>\<open>offline_exact\<close>), and what is known about the
  context while the replay writes to it (\<^verbatim>\<open>written_state\<close>). The exact fractions are shown to be the lengths of the sets of
  instants that the sampling in \<^verbatim>\<open>offline\<close> counts, and the two states of \<^verbatim>\<open>written_state\<close> to bracket the state of the context.
\<close>

section \<open>Exact fractions\<close>

text \<open>
  The loop over the changes of one machine; \<^term>\<open>first\<close> is \<^verbatim>\<open>k == 0\<close>. The result is \<^verbatim>\<open>(obs, idle)\<close>.
\<close>

fun offline_machine :: "bool \<Rightarrow> rat \<Rightarrow> rat \<Rightarrow> bool \<Rightarrow> (rat \<times> string) list \<Rightarrow> rat \<times> rat" where
  "offline_machine interior L horizon first [] = (0, 0)"
| "offline_machine interior L horizon first ((a, s) # cs) =
     (let (obs, idle) = offline_machine interior L horizon False cs;
          b = (case cs of [] \<Rightarrow> None | (b, s') # _ \<Rightarrow> Some b);
          lo = max a 0;
          hi = (case b of None \<Rightarrow> horizon | Some b' \<Rightarrow> min b' horizon)
      in if s \<noteq> ''IDLE'' \<or> (interior \<and> (first \<or> b = None)) \<or> hi \<le> lo then (obs, idle)
         else ((case b of
                  None \<Rightarrow> obs
                | Some b' \<Rightarrow> (if max lo (b' - L) < hi then obs + (hi - max lo (b' - L)) else obs)), idle + (hi - lo)))"

definition offline_exact :: "timeline \<Rightarrow> rat \<Rightarrow> bool \<Rightarrow> rat \<times> rat" where
  "offline_exact tr L interior =
     fold (\<lambda>m (obs, idle). case map_of (tl_changes tr) m of
         None \<Rightarrow> (obs, idle)
       | Some (ts, ss) \<Rightarrow> (case offline_machine interior L (tl_span tr - L) True (zip ts ss) of (o', i') \<Rightarrow> (obs + o', idle + i')))
       (tl_machines tr) (0, 0)"

section \<open>Windows\<close>

text \<open>The idle intervals of a machine, with the change that ends them.\<close>

fun idle_spans :: "(rat \<times> string) list \<Rightarrow> (rat \<times> rat option) list" where
  "idle_spans [] = []"
| "idle_spans ((a, s) # cs) =
     (if s = ''IDLE'' then (a, case cs of [] \<Rightarrow> None | (b, s') # _ \<Rightarrow> Some b) # idle_spans cs else idle_spans cs)"

definition in_span :: "rat \<Rightarrow> rat \<times> rat option \<Rightarrow> bool" where
  "in_span t sp \<longleftrightarrow> fst sp \<le> t \<and> (\<forall>b. snd sp = Some b \<longrightarrow> t < b)"

text \<open>The clipped windows: all idle instants before the horizon, and those of them from which the next change is at most \<^term>\<open>L\<close> away.\<close>

definition span_end :: "rat \<Rightarrow> rat \<times> rat option \<Rightarrow> rat" where
  "span_end horizon sp = (case snd sp of None \<Rightarrow> horizon | Some b \<Rightarrow> min b horizon)"

definition idle_window :: "rat \<Rightarrow> rat \<times> rat option \<Rightarrow> rat \<times> rat" where
  "idle_window horizon sp = (fst sp, max (fst sp) (span_end horizon sp))"

definition drift_window :: "rat \<Rightarrow> rat \<Rightarrow> rat \<times> rat option \<Rightarrow> rat \<times> rat" where
  "drift_window L horizon sp =
     (case snd sp of
        None \<Rightarrow> (fst sp, fst sp)
      | Some b \<Rightarrow> (max (fst sp) (b - L), max (max (fst sp) (b - L)) (span_end horizon sp)))"

definition window_length :: "rat \<times> rat \<Rightarrow> rat" where
  "window_length w = snd w - fst w"

definition in_window :: "rat \<Rightarrow> rat \<times> rat \<Rightarrow> bool" where
  "in_window t w \<longleftrightarrow> fst w \<le> t \<and> t < snd w"

lemma offline_machine_windows:
  assumes "\<forall>(a, s) \<in> set cs. 0 \<le> a"
  shows "offline_machine False L horizon k cs =
    (sum_list (map (\<lambda>sp. window_length (drift_window L horizon sp)) (idle_spans cs)),
     sum_list (map (\<lambda>sp. window_length (idle_window horizon sp)) (idle_spans cs)))"
  using assms
  by (induction cs arbitrary: k)
    (auto simp: Let_def window_length_def drift_window_def idle_window_def span_end_def max_def min_def not_le not_less split: list.splits)

lemma in_windows:
  assumes "in_span t sp"
  shows "in_window t (idle_window horizon sp) \<longleftrightarrow> t < horizon"
    "in_window t (drift_window L horizon sp) \<longleftrightarrow> t < horizon \<and> (\<exists>b. snd sp = Some b \<and> b \<le> t + L)"
  using assms by (auto simp: in_span_def in_window_def idle_window_def drift_window_def span_end_def split: option.splits)

lemma window_in_span:
  "in_window t (idle_window horizon sp) \<Longrightarrow> in_span t sp" "in_window t (drift_window L horizon sp) \<Longrightarrow> in_span t sp"
  by (auto simp: in_span_def in_window_def idle_window_def drift_window_def span_end_def split: option.splits)

lemma idle_spans_start: "sp \<in> set (idle_spans cs) \<Longrightarrow> fst sp \<in> fst ` set cs"
  by (induction cs rule: idle_spans.induct) (auto split: if_splits)

lemma spans_at:
  assumes "sorted_wrt (<) (map fst cs)" "\<forall>c \<in> set cs. a \<le> fst c" "a \<le> t"
  shows "\<exists>lo. filter (in_span t) (idle_spans ((a, s) # cs)) = (if look t s cs = ''IDLE'' then [(lo, next_of t cs)] else [])"
  using assms
proof (induction cs arbitrary: a s)
  case (Cons c cs)
  obtain u s' where c: "c = (u, s')" by fastforce
  have later: "\<forall>c \<in> set cs. u < fst c" "sorted_wrt (<) (map fst cs)" using Cons.prems(1) c by auto
  show ?case
  proof (cases "u \<le> t")
    case True
    have "filter (in_span t) (idle_spans ((a, s) # c # cs)) = filter (in_span t) (idle_spans ((u, s') # cs))"
      using True c by (simp add: in_span_def)
    moreover have "look t s (c # cs) = look t s' cs" "next_of t (c # cs) = next_of t cs" using True c by simp_all
    ultimately show ?thesis using Cons.IH [OF later(2), of u s'] later(1) True by (simp del: idle_spans.simps) (meson less_imp_le)
  next
    case False
    have "\<not> in_span t sp" if "sp \<in> set (idle_spans (c # cs))" for sp
      using idle_spans_start [OF that] later(1) c False by (auto simp: in_span_def)
    then have "filter (in_span t) (idle_spans (c # cs)) = []" by (simp add: filter_empty_conv)
    moreover have "in_span t (a, Some u)" using False Cons.prems(3) by (simp add: in_span_def)
    moreover have "idle_spans ((a, s) # c # cs) = (if s = ''IDLE'' then (a, Some u) # idle_spans (c # cs) else idle_spans (c # cs))"
      using c by simp
    ultimately show ?thesis using False c by (simp del: idle_spans.simps)
  qed
qed (auto simp: in_span_def)

lemma length_filter_windows:
  assumes "\<And>sp. in_window t (f sp) \<Longrightarrow> in_span t sp"
  shows "length (filter (in_window t) (map f spans)) = length (filter (\<lambda>sp. in_window t (f sp)) (filter (in_span t) spans))"
proof -
  have "filter (\<lambda>sp. in_window t (f sp)) spans = filter (\<lambda>sp. in_span t sp \<and> in_window t (f sp)) spans"
    using assms by (auto intro!: filter_cong)
  then show ?thesis by (simp add: filter_map comp_def conj_commute)
qed

definition idle_windows :: "timeline \<Rightarrow> rat \<Rightarrow> string \<Rightarrow> (rat \<times> rat) list" where
  "idle_windows tr L m =
     (case map_of (tl_changes tr) m of None \<Rightarrow> [] | Some (ts, ss) \<Rightarrow> map (idle_window (tl_span tr - L)) (idle_spans (zip ts ss)))"

definition drift_windows :: "timeline \<Rightarrow> rat \<Rightarrow> string \<Rightarrow> (rat \<times> rat) list" where
  "drift_windows tr L m =
     (case map_of (tl_changes tr) m of None \<Rightarrow> [] | Some (ts, ss) \<Rightarrow> map (drift_window L (tl_span tr - L)) (idle_spans (zip ts ss)))"

lemma changes_zip:
  assumes "make_timeline rows = Some tr" "m \<in> set (tl_machines tr)"
  obtains ts ss where "map_of (tl_changes tr) m = Some (ts, ss)" "zip ts ss = (0, ''IDLE'') # change_list (tl_t0 tr) m (steps_of rows)"
  using timeline_changes [OF assms] by (simp add: zip_map_fst_snd)

lemma rows_nonneg:
  assumes "make_timeline rows = Some tr" "\<forall>r \<in> set rows. lr_start r \<le> lr_complete r"
  shows "\<forall>(u, s) \<in> set (change_list (tl_t0 tr) m (steps_of rows)). 0 \<le> u"
proof -
  have "\<forall>(m, a, b, kind) \<in> set (steps_of rows). tl_t0 tr \<le> a \<and> a \<le> b"
    using timeline_start [OF assms(1)] assms(2) by (fastforce simp: steps_of_def)
  then show ?thesis by (rule change_list_nonneg)
qed

lemma windows_at:
  assumes tr: "make_timeline rows = Some tr" "m \<in> set (tl_machines tr)" "\<forall>r \<in> set rows. lr_start r \<le> lr_complete r" and t: "0 \<le> t"
  shows "length (filter (in_window t) (idle_windows tr L m)) = of_bool (t < tl_span tr - L \<and> tl_state tr m t = Some ''IDLE'')"
    "length (filter (in_window t) (drift_windows tr L m)) =
      of_bool (t < tl_span tr - L \<and> tl_state tr m t = Some ''IDLE'' \<and> (\<exists>v. next_change tr m t = Some (Some v) \<and> v \<le> t + L))"
proof -
  let ?cs = "change_list (tl_t0 tr) m (steps_of rows)"
  obtain ts ss where z: "map_of (tl_changes tr) m = Some (ts, ss)" "zip ts ss = (0, ''IDLE'') # ?cs" using changes_zip [OF tr(1,2)] .
  have "\<forall>c \<in> set ?cs. 0 \<le> fst c" using rows_nonneg [OF tr(1,3)] by (simp add: case_prod_beta)
  from spans_at [OF change_list_shape(1) this t, of "''IDLE''"] obtain lo where sp: "filter (in_span t) (idle_spans ((0, ''IDLE'') # ?cs)) = (if look t ''IDLE'' ?cs = ''IDLE'' then [(lo, next_of t ?cs)] else [])"
    by (elim exE)
  have st: "tl_state tr m t = Some (look t ''IDLE'' ?cs)" and nx: "next_change tr m t = Some (next_of t ?cs)"
    using tl_state_look [OF tr(1,2) t] next_change_look [OF tr(1,2) t] by simp_all
  have in_sp: "in_span t (lo, next_of t ?cs)" if "look t ''IDLE'' ?cs = ''IDLE''"
  proof -
    have "(lo, next_of t ?cs) \<in> set (filter (in_span t) (idle_spans ((0, ''IDLE'') # ?cs)))" using that by (simp only: sp) simp
    then show ?thesis by (simp del: idle_spans.simps)
  qed
  have w: "idle_windows tr L m = map (idle_window (tl_span tr - L)) (idle_spans ((0, ''IDLE'') # ?cs))"
    "drift_windows tr L m = map (drift_window L (tl_span tr - L)) (idle_spans ((0, ''IDLE'') # ?cs))"
    by (simp_all add: idle_windows_def drift_windows_def z del: idle_spans.simps)
  have li: "length (filter (in_window t) (map (idle_window h) sps)) = length (filter (\<lambda>sp. in_window t (idle_window h sp)) (filter (in_span t) sps))"
    for h sps by (rule length_filter_windows) (rule window_in_span(1))
  have ld: "length (filter (in_window t) (map (drift_window L h) sps)) = length (filter (\<lambda>sp. in_window t (drift_window L h sp)) (filter (in_span t) sps))"
    for h sps by (rule length_filter_windows) (rule window_in_span(2))
  show "length (filter (in_window t) (idle_windows tr L m)) = of_bool (t < tl_span tr - L \<and> tl_state tr m t = Some ''IDLE'')"
    unfolding w li sp using in_sp in_windows(1) by (simp add: st)
  show "length (filter (in_window t) (drift_windows tr L m)) =
      of_bool (t < tl_span tr - L \<and> tl_state tr m t = Some ''IDLE'' \<and> (\<exists>v. next_change tr m t = Some (Some v) \<and> v \<le> t + L))"
    unfolding w ld sp using in_sp in_windows(2) by (auto simp: st nx)
qed

lemma sum_pairs:
  "fold (\<lambda>m (o', i'). (o' + f m, i' + g m)) ms (x, y) = (x + (\<Sum>m\<leftarrow>ms. f m), y + (\<Sum>m\<leftarrow>ms. (g m :: rat)))"
  for f g :: "'a \<Rightarrow> rat"
  by (induction ms arbitrary: x y) (simp_all add: add.assoc)

lemma offline_exact_sums:
  assumes tr: "make_timeline rows = Some tr" "\<forall>r \<in> set rows. lr_start r \<le> lr_complete r"
  shows "offline_exact tr L False =
    ((\<Sum>m\<leftarrow>tl_machines tr. sum_list (map window_length (drift_windows tr L m))),
     (\<Sum>m\<leftarrow>tl_machines tr. sum_list (map window_length (idle_windows tr L m))))"
proof -
  let ?d = "\<lambda>m. sum_list (map window_length (drift_windows tr L m))" and ?i = "\<lambda>m. sum_list (map window_length (idle_windows tr L m))"
  let ?step = "\<lambda>m (o', i'). case map_of (tl_changes tr) m of
         None \<Rightarrow> (o', i')
       | Some (ts, ss) \<Rightarrow> (case offline_machine False L (tl_span tr - L) True (zip ts ss) of (o1, i1) \<Rightarrow> (o' + o1, i' + i1))"
  have step: "?step m = (\<lambda>(o', i'). (o' + ?d m, i' + ?i m))" if m: "m \<in> set (tl_machines tr)" for m
  proof -
    obtain ts ss where z: "map_of (tl_changes tr) m = Some (ts, ss)" "zip ts ss = (0, ''IDLE'') # change_list (tl_t0 tr) m (steps_of rows)"
      by (rule changes_zip [OF tr(1) m])
    have "\<forall>(u, s) \<in> set (zip ts ss). 0 \<le> u" using rows_nonneg [OF tr] z(2) by simp
    from offline_machine_windows [OF this] show ?thesis
      by (simp add: z(1) idle_windows_def drift_windows_def comp_def fun_eq_iff del: idle_spans.simps)
  qed
  have "offline_exact tr L False = fold (\<lambda>m (o', i'). (o' + ?d m, i' + ?i m)) (tl_machines tr) (0, 0)"
    unfolding offline_exact_def using step by (intro fold_cong) auto
  then show ?thesis by (simp add: sum_pairs)
qed

lemma windows_shape:
  assumes tr: "make_timeline rows = Some tr" "m \<in> set (tl_machines tr)" "\<forall>r \<in> set rows. lr_start r \<le> lr_complete r"
    and w: "w \<in> set (idle_windows tr L m @ drift_windows tr L m)"
  shows "0 \<le> fst w \<and> fst w \<le> snd w"
proof -
  obtain ts ss where z: "map_of (tl_changes tr) m = Some (ts, ss)" "zip ts ss = (0, ''IDLE'') # change_list (tl_t0 tr) m (steps_of rows)"
    using changes_zip [OF tr(1,2)] .
  have "0 \<le> fst sp" if "sp \<in> set (idle_spans (zip ts ss))" for sp
    using idle_spans_start [OF that] rows_nonneg [OF tr(1,3), of m] z(2) by (auto simp: case_prod_beta)
  then show ?thesis using w
    by (auto simp: idle_windows_def drift_windows_def z(1) idle_window_def drift_window_def split: option.splits) (meson max.coboundedI1)+
qed

text \<open>
  C32: the exact fractions measure what the sampling counts. \<^verbatim>\<open>offline_exact\<close> returns the total lengths of two families of
  half-open windows. Every instant before the horizon at which a machine is idle lies in exactly one idle window of it, and in
  exactly one drift window if the machine leaves its state within the latency, the condition of the Monte Carlo check;
  all other instants lie in none.
\<close>

theorem offline_exact_measures:
  assumes "make_timeline rows = Some tr" "\<forall>r \<in> set rows. lr_start r \<le> lr_complete r"
  shows "offline_exact tr L False =
      ((\<Sum>m\<leftarrow>tl_machines tr. sum_list (map window_length (drift_windows tr L m))),
       (\<Sum>m\<leftarrow>tl_machines tr. sum_list (map window_length (idle_windows tr L m)))) \<and>
    (\<forall>m \<in> set (tl_machines tr). \<forall>t \<ge> 0.
       length (filter (in_window t) (idle_windows tr L m)) = of_bool (t < tl_span tr - L \<and> tl_state tr m t = Some ''IDLE'') \<and>
       length (filter (in_window t) (drift_windows tr L m)) =
         of_bool (t < tl_span tr - L \<and> tl_state tr m t = Some ''IDLE'' \<and> (\<exists>v. next_change tr m t = Some (Some v) \<and> v \<le> t + L))) \<and>
    (\<forall>m \<in> set (tl_machines tr). \<forall>w \<in> set (idle_windows tr L m @ drift_windows tr L m). 0 \<le> fst w \<and> fst w \<le> snd w)"
  using offline_exact_sums [OF assms] windows_at [OF assms(1) _ assms(2)] windows_shape [OF assms(1) _ assms(2)] by blast

section \<open>What is known of the context\<close>

text \<open>
  A write is recorded with the instants before and after its request. \<^verbatim>\<open>written_state\<close> gives the state of a machine by
  the writes completed before an instant and by those started before it.
\<close>

type_synonym ctx_write = "rat \<times> rat \<times> string"

definition finished_by :: "rat \<Rightarrow> ctx_write list \<Rightarrow> string list" where
  "finished_by wall ws = map (\<lambda>(a, b, s). s) (filter (\<lambda>(a, b, s). b \<le> wall) ws)"

definition started_by :: "rat \<Rightarrow> ctx_write list \<Rightarrow> string list" where
  "started_by wall ws = map (\<lambda>(a, b, s). s) (filter (\<lambda>(a, b, s). a \<le> wall) ws)"

definition last_or :: "string \<Rightarrow> string list \<Rightarrow> string" where
  "last_or base xs = (if xs \<noteq> [] then last xs else base)"

definition written_state :: "(string, ctx_write list) dict \<Rightarrow> (string, string) dict \<Rightarrow> string \<Rightarrow> rat \<Rightarrow> string \<times> string" where
  "written_state written init m wall =
     (let ws = dict_get written m []; base = dict_get init m ''IDLE''
      in (last_or base (finished_by wall ws), last_or base (started_by wall ws)))"

record trial_row =
  tr_state :: string
  tr_obsolete :: bool
  tr_ambiguous :: bool
  tr_stale_release :: bool
  tr_false_revocation :: bool

text \<open>The labels of a trial that ended at \<^term>\<open>wall\<close>, with its release.\<close>

definition label_trial :: "(string, ctx_write list) dict \<Rightarrow> (string, string) dict \<Rightarrow> string \<Rightarrow> rat \<Rightarrow> bool \<Rightarrow> trial_row" where
  "label_trial written init m wall rel =
     (case written_state written init m wall of (finished, started) \<Rightarrow>
        let obsolete = (finished \<noteq> ''IDLE''); ambiguous = ((finished = ''IDLE'') \<noteq> (started = ''IDLE''))
        in \<lparr>tr_state = finished, tr_obsolete = obsolete, tr_ambiguous = ambiguous, tr_stale_release = rel \<and> obsolete,
            tr_false_revocation = \<not> rel \<and> \<not> obsolete \<and> \<not> ambiguous\<rparr>)"

text \<open>
  The state of the context, when the store applies each write at an instant \<^term>\<open>p\<close> between the start and the end of its request.
\<close>

fun applied_state :: "rat \<Rightarrow> string \<Rightarrow> (ctx_write \<times> rat) list \<Rightarrow> string" where
  "applied_state wall base [] = base"
| "applied_state wall base (((a, b, s), p) # ws) = applied_state wall (if p \<le> wall then s else base) ws"

text \<open>One thread writes: the requests follow one another.\<close>

fun sequential :: "(ctx_write \<times> rat) list \<Rightarrow> bool" where
  "sequential [] = True"
| "sequential (((a, b, s), p) # ws) \<longleftrightarrow> a \<le> p \<and> p \<le> b \<and> (\<forall>((a', b', s'), p') \<in> set ws. b \<le> a') \<and> sequential ws"

lemma last_or_simps [simp]: "last_or base [] = base" "last_or base (x # xs) = last_or x xs"
  by (simp_all add: last_or_def)

lemma write_simps [simp]:
  "finished_by wall [] = []" "finished_by wall ((a, b, s) # ws) = (if b \<le> wall then s # finished_by wall ws else finished_by wall ws)"
  "started_by wall [] = []" "started_by wall ((a, b, s) # ws) = (if a \<le> wall then s # started_by wall ws else started_by wall ws)"
  by (simp_all add: finished_by_def started_by_def)

lemma sequential_later:
  assumes "sequential ws" "\<forall>((a, b, s), p) \<in> set ws. wall < a"
  shows "applied_state wall base ws = base" "finished_by wall (map fst ws) = []" "started_by wall (map fst ws) = []"
  using assms by (induction ws arbitrary: base rule: sequential.induct) auto

lemma applied_bracket:
  "sequential ws \<Longrightarrow>
   applied_state wall base ws \<in> {last_or base (finished_by wall (map fst ws)), last_or base (started_by wall (map fst ws))}"
proof (induction ws arbitrary: base rule: sequential.induct)
  case (2 a b s p ws)
  show ?case
  proof (cases "b \<le> wall")
    case True
    then show ?thesis using 2 by auto
  next
    case False
    then have "\<forall>((a', b', s'), p') \<in> set ws. wall < a'" using 2(2) by fastforce
    then have "applied_state wall d ws = d" "finished_by wall (map fst ws) = []" "started_by wall (map fst ws) = []" for d
      using sequential_later [of ws wall] 2(2) by simp_all
    then show ?thesis using False 2(2) by auto
  qed
qed simp



section \<open>The paired design\<close>

type_synonym gate = "string \<times> string option"

definition GATES :: "gate list" where
  "GATES = [(''direct'', None), (''xair'', Some ''global''), (''xair'', Some ''readset''), (''xair'', Some ''truth''), (''xair_atomic'', Some ''truth'')]"

text \<open>An empty scope counts as none.\<close>

definition gate_label :: "gate \<Rightarrow> string" where
  "gate_label g = (case g of (mode, sc) \<Rightarrow> (case sc of None \<Rightarrow> mode | Some t \<Rightarrow> if t = [] then mode else mode @ ''/'' @ t))"

text \<open>One trial of the paired design.\<close>

record paired_row =
  pr_latency :: rat
  pr_decision :: string
  pr_gate :: gate
  pr_trial :: trial_row

record gate_counts =
  gc_stale :: nat
  gc_false :: nat

record paired_cell =
  pc_decisions :: nat
  pc_discordant :: nat
  pc_obsolete :: nat
  pc_valid :: nat
  pc_gates :: "(string, gate_counts) dict"

definition decisions_at :: "rat \<Rightarrow> paired_row list \<Rightarrow> paired_row list list" where
  "decisions_at L rows =
     (let cell = filter (\<lambda>r. pr_latency r = L) rows
      in map (\<lambda>d. filter (\<lambda>r. pr_decision r = d) cell) (rev (remdups (rev (map pr_decision cell)))))"

definition complete_decision :: "gate list \<Rightarrow> paired_row list \<Rightarrow> bool" where
  "complete_decision gates rs \<longleftrightarrow>
     length rs = card (set (map gate_label gates)) \<and> set (map (\<lambda>r. gate_label (pr_gate r)) rs) = set (map gate_label gates)"

definition concordant :: "paired_row list \<Rightarrow> bool" where
  "concordant rs \<longleftrightarrow> card (set (map (\<lambda>r. (tr_obsolete (pr_trial r), tr_ambiguous (pr_trial r))) rs)) = 1"

text \<open>\<^verbatim>\<open>next\<close>: the first row of a gate.\<close>

definition gate_trial :: "string \<Rightarrow> paired_row list \<Rightarrow> trial_row option" where
  "gate_trial g rs = map_option pr_trial (find (\<lambda>r. gate_label (pr_gate r) = g) rs)"

definition count_trials :: "(trial_row \<Rightarrow> bool) \<Rightarrow> string \<Rightarrow> paired_row list list \<Rightarrow> nat" where
  "count_trials P g ds = length (filter (\<lambda>rs. case gate_trial g rs of None \<Rightarrow> False | Some t \<Rightarrow> P t) ds)"

definition paired_cell_of :: "gate list \<Rightarrow> rat \<Rightarrow> paired_row list \<Rightarrow> paired_cell" where
  "paired_cell_of gates L rows =
     (let complete = filter (complete_decision gates) (decisions_at L rows); conc = filter concordant complete
      in \<lparr>pc_decisions = length complete, pc_discordant = length (filter (\<lambda>rs. \<not> concordant rs) complete),
          pc_obsolete = length (filter (\<lambda>rs. tr_obsolete (pr_trial (hd rs))) conc),
          pc_valid = length (filter (\<lambda>rs. \<not> tr_obsolete (pr_trial (hd rs)) \<and> \<not> tr_ambiguous (pr_trial (hd rs))) conc),
          pc_gates = map (\<lambda>g. (g, \<lparr>gc_stale = count_trials tr_stale_release g conc, gc_false = count_trials tr_false_revocation g conc\<rparr>))
            (sorted_list_of_set (set (map gate_label gates)))\<rparr>)"

definition summarize_paired :: "gate list \<Rightarrow> paired_row list \<Rightarrow> (rat \<times> paired_cell) list" where
  "summarize_paired gates rows = map (\<lambda>L. (L, paired_cell_of gates L rows)) (sorted_list_of_set (set (map pr_latency rows)))"

text \<open>A complete decision has exactly one trial of every gate.\<close>

lemma complete_once:
  assumes "complete_decision gates rs" "g \<in> set (map gate_label gates)"
  shows "\<exists>!r. r \<in> set rs \<and> gate_label (pr_gate r) = g"
proof -
  let ?ls = "map (\<lambda>r. gate_label (pr_gate r)) rs"
  have "distinct ?ls" using assms(1) unfolding complete_decision_def by (metis card_distinct length_map)
  then have "inj_on (\<lambda>r. gate_label (pr_gate r)) (set rs)" by (simp add: distinct_map)
  moreover have "g \<in> set ?ls" using assms unfolding complete_decision_def by metis
  ultimately show ?thesis by (auto simp: inj_on_def)
qed

lemma concordant_labels:
  assumes "concordant rs" "r \<in> set rs"
  shows "tr_obsolete (pr_trial r) = tr_obsolete (pr_trial (hd rs))" "tr_ambiguous (pr_trial r) = tr_ambiguous (pr_trial (hd rs))"
proof -
  let ?f = "\<lambda>r. (tr_obsolete (pr_trial r), tr_ambiguous (pr_trial r))"
  obtain x where x: "?f ` set rs = {x}" using assms(1) by (auto simp: concordant_def card_1_singleton_iff)
  have "hd rs \<in> set rs" using assms(2) by (cases rs) auto
  then have "?f r = x" "?f (hd rs) = x" using x assms(2) by blast+
  then show "tr_obsolete (pr_trial r) = tr_obsolete (pr_trial (hd rs))" "tr_ambiguous (pr_trial r) = tr_ambiguous (pr_trial (hd rs))"
    by (metis prod.inject)+
qed

lemma count_le:
  assumes "\<And>rs. rs \<in> set ds \<Longrightarrow> P rs \<Longrightarrow> Q rs"
  shows "length (filter P ds) \<le> length (filter Q ds)"
  using assms by (induction ds) (auto simp: le_SucI)

lemma count_disjoint:
  assumes "\<And>x. \<not> (P x \<and> Q x)"
  shows "length (filter P xs) + length (filter Q xs) \<le> length xs"
  using assms by (induction xs) (auto simp: le_SucI)

lemma gate_trialD:
  assumes "gate_trial g rs = Some t"
  shows "\<exists>r \<in> set rs. t = pr_trial r"
  using assms nth_mem by (fastforce simp: gate_trial_def find_Some_iff)

lemma decisions_at_rows: "rs \<in> set (decisions_at L rows) \<Longrightarrow> set rs \<subseteq> set rows"
  by (auto simp: decisions_at_def Let_def)

text \<open>
  The counts of the paired design are fractions of the same decisions: for every gate, the stale releases are at most
  the obsolete decisions and the false revocations at most the valid ones, whatever the trials were.
\<close>

lemma paired_counts:
  assumes rows: "\<forall>r \<in> set rows. (tr_stale_release (pr_trial r) \<longrightarrow> tr_obsolete (pr_trial r)) \<and>
      (tr_false_revocation (pr_trial r) \<longrightarrow> \<not> tr_obsolete (pr_trial r) \<and> \<not> tr_ambiguous (pr_trial r))"
    and "(L, cell) \<in> set (summarize_paired gates rows)" "(g, n) \<in> set (pc_gates cell)"
  shows "gc_stale n \<le> pc_obsolete cell \<and> gc_false n \<le> pc_valid cell \<and> pc_obsolete cell + pc_valid cell + pc_discordant cell \<le> pc_decisions cell"
proof -
  let ?complete = "filter (complete_decision gates) (decisions_at L rows)"
  let ?conc = "filter concordant ?complete"
  have cell: "cell = paired_cell_of gates L rows" using assms(2) by (auto simp: summarize_paired_def)
  then have n: "n = \<lparr>gc_stale = count_trials tr_stale_release g ?conc, gc_false = count_trials tr_false_revocation g ?conc\<rparr>"
    using assms(3) by (auto simp: paired_cell_of_def Let_def)
  have trial: "concordant rs \<and> (\<exists>r \<in> set rs. t = pr_trial r \<and> r \<in> set rows)" if "rs \<in> set ?conc" "gate_trial g rs = Some t" for rs t
    using that gate_trialD decisions_at_rows by fastforce
  have "tr_obsolete (pr_trial (hd rs))" if "rs \<in> set ?conc" "case gate_trial g rs of None \<Rightarrow> False | Some t \<Rightarrow> tr_stale_release t" for rs
    using that trial [OF that(1)] rows concordant_labels(1) [of rs] by (auto split: option.splits)
  then have "gc_stale n \<le> pc_obsolete cell"
    unfolding n cell paired_cell_of_def Let_def count_trials_def gate_counts.select_convs paired_cell.select_convs by (rule count_le)
  moreover have "\<not> tr_obsolete (pr_trial (hd rs)) \<and> \<not> tr_ambiguous (pr_trial (hd rs))"
    if "rs \<in> set ?conc" "case gate_trial g rs of None \<Rightarrow> False | Some t \<Rightarrow> tr_false_revocation t" for rs
    using that trial [OF that(1)] rows concordant_labels [of rs] by (auto split: option.splits)
  then have "gc_false n \<le> pc_valid cell"
    unfolding n cell paired_cell_of_def Let_def count_trials_def gate_counts.select_convs paired_cell.select_convs by (rule count_le)
  moreover have "pc_obsolete cell + pc_valid cell \<le> length ?conc"
    unfolding cell paired_cell_of_def Let_def paired_cell.select_convs by (rule count_disjoint) simp
  moreover have "length ?conc + pc_discordant cell = pc_decisions cell"
    using sum_length_filter_compl [of concordant ?complete] by (simp add: cell paired_cell_of_def Let_def)
  ultimately show ?thesis by simp
qed


section \<open>Instances\<close>

theorem offline_exact_measures_witness:
  "offline_exact demo_timeline 20 False = (20, 40) \<and> in_window 15 (10, 30) \<and> filter (in_window 15) (drift_windows demo_timeline 20 ''machine_2'') = [(10, 30)]"
proof -
  have c: "offline_exact demo_timeline 20 False = (20, 40)" "drift_windows demo_timeline 20 ''machine_2'' = [(10, 30), (120, 120)]"
    "tl_state demo_timeline ''machine_2'' 15 = Some ''IDLE''" by code_simp+
  have "length (filter (in_window 15) (drift_windows demo_timeline 20 ''machine_2'')) \<le> 1"
    using offline_exact_measures [OF demo_timeline demo_ordered, of 20] by (simp add: demo_machines)
  then show ?thesis using c by (simp add: in_window_def)
qed

definition demo_writes :: "(ctx_write \<times> rat) list" where
  "demo_writes = [((1, 3, ''BUSY''), 2), ((5, 7, ''IDLE''), 6)]"



end
