(* ===== verification/Trace_Sensitivity.thy ===== *)
theory Trace_Sensitivity
  imports Trace_Replay
begin

text \<open>
  The sensitivity table of \<^verbatim>\<open>experiments/run_e20_mes.py\<close> (\<^verbatim>\<open>_idle_intervals\<close>, \<^verbatim>\<open>sensitivity\<close>): drift fractions over the idle intervals
  between recorded steps, for three models of the decision instant and three proxies of an invalidation. Shown: which
  intervals it uses, that every fraction lies between 0 and 1 with the quantiles of the machines in
  order, and that the stricter proxies never give a larger fraction.
\<close>

section \<open>Interior idle intervals\<close>

type_synonym part_step = "rat \<times> rat \<times> string \<times> string"

type_synonym idle_item = "rat \<times> rat \<times> part_step list \<times> part_step option"

definition idle_item :: "part_step list \<Rightarrow> rat \<Rightarrow> rat \<Rightarrow> idle_item" where
  "idle_item steps a b =
     (let i = bisect_left (map fst steps) b;
          nxt = filter (\<lambda>(st, en, kind, part). st = b) (drop i steps);
          prev = filter (\<lambda>(st, en, kind, part). en \<le> a) (take i steps)
      in (a, b, nxt, if prev \<noteq> [] then Some (last prev) else None))"

text \<open>\<^term>\<open>first\<close> is \<^verbatim>\<open>k == 0\<close>; the last interval has no end and is skipped.\<close>

fun interior_intervals :: "part_step list \<Rightarrow> bool \<Rightarrow> (rat \<times> string) list \<Rightarrow> idle_item list" where
  "interior_intervals steps first ((a, s) # (b, s') # cs) =
     (if s \<noteq> ''IDLE'' \<or> first then interior_intervals steps False ((b, s') # cs)
      else idle_item steps a b # interior_intervals steps False ((b, s') # cs))"
| "interior_intervals steps first cs = []"

definition idle_intervals :: "timeline \<Rightarrow> string \<Rightarrow> idle_item list" where
  "idle_intervals tr m =
     (case map_of (tl_changes tr) m of
        None \<Rightarrow> []
      | Some (ts, ss) \<Rightarrow> interior_intervals (dict_get (tl_steps tr) m []) True (zip ts ss))"

section \<open>The table\<close>

definition proxy_hit :: "string \<Rightarrow> part_step list \<Rightarrow> part_step option \<Rightarrow> bool" where
  "proxy_hit kind nxt prev =
     (if kind = ''any'' then True
      else if kind = ''breakdown'' then list_ex (\<lambda>(st, en, k, part). k = ''B'') nxt
      else (case prev of None \<Rightarrow> False | Some (st', en', k', part') \<Rightarrow> list_ex (\<lambda>(st, en, k, part). part \<noteq> part') nxt))"

text \<open>What one interval adds to \<^verbatim>\<open>o_m\<close> and \<^verbatim>\<open>t_m\<close>.\<close>

definition interval_terms :: "string \<Rightarrow> string \<Rightarrow> rat \<Rightarrow> idle_item \<Rightarrow> rat \<times> rat" where
  "interval_terms model kind L item =
     (case item of (a, b, nxt, prev) \<Rightarrow>
        if b - a \<le> 0 \<or> (model = ''uniform_le8h'' \<and> b - a > 8 * 3600) then (0, 0)
        else if model = ''idle_start'' then (of_bool (proxy_hit kind nxt prev \<and> b - a \<le> L), 1)
        else (if proxy_hit kind nxt prev then min L (b - a) else 0, b - a))"

definition machine_terms :: "string \<Rightarrow> string \<Rightarrow> rat \<Rightarrow> timeline \<Rightarrow> string \<Rightarrow> rat \<times> rat" where
  "machine_terms model kind L tr m =
     (let terms = map (interval_terms model kind L) (idle_intervals tr m) in (sum_list (map fst terms), sum_list (map snd terms)))"

record sensitivity_row =
  se_latency :: rat
  se_model :: string
  se_proxy :: string
  se_fraction :: rat
  se_resources :: nat
  se_quantiles :: "(rat \<times> rat \<times> rat) option"

definition sensitivity_row_of :: "timeline \<Rightarrow> rat \<Rightarrow> string \<Rightarrow> string \<Rightarrow> sensitivity_row" where
  "sensitivity_row_of tr L model kind =
     (let terms = map (machine_terms model kind L tr) (tl_machines tr);
          obs = sum_list (map fst terms); tot = sum_list (map snd terms);
          vals = sort (map (\<lambda>(o', t'). o' / t') (filter (\<lambda>(o', t'). t' \<noteq> 0) terms))
      in \<lparr>se_latency = L, se_model = model, se_proxy = kind, se_fraction = (if tot \<noteq> 0 then obs / tot else 0),
          se_resources = length vals,
          se_quantiles = (if vals = [] then None else Some (vals ! 0, vals ! (length vals div 2), last vals))\<rparr>)"

definition sensitivity :: "timeline \<Rightarrow> rat list \<Rightarrow> sensitivity_row list" where
  "sensitivity tr latencies =
     concat (map (\<lambda>L. concat (map (\<lambda>model. map (sensitivity_row_of tr L model) [''any'', ''breakdown'', ''variant''])
       [''uniform'', ''uniform_le8h'', ''idle_start''])) latencies)"

section \<open>Properties\<close>

text \<open>The intervals are the idle spans of the machine without the first and the unbounded one.\<close>

lemma interior_spans:
  "map (\<lambda>(a, b, nxt, prev). (a, Some b)) (interior_intervals steps False cs) = filter (\<lambda>sp. snd sp \<noteq> None) (idle_spans cs)"
proof (induction cs rule: idle_spans.induct)
  case (2 a s cs)
  then show ?case by (cases cs) (auto simp: idle_item_def Let_def)
qed simp

lemma idle_intervals_spans:
  assumes "make_timeline rows = Some tr" "m \<in> set (tl_machines tr)"
  shows "map (\<lambda>(a, b, nxt, prev). (a, Some b)) (idle_intervals tr m) =
    filter (\<lambda>sp. snd sp \<noteq> None) (idle_spans (change_list (tl_t0 tr) m (steps_of rows)))"
proof -
  obtain ts ss where z: "map_of (tl_changes tr) m = Some (ts, ss)" "zip ts ss = (0, ''IDLE'') # change_list (tl_t0 tr) m (steps_of rows)"
    by (rule changes_zip [OF assms])
  have "interior_intervals st True ((a, s) # cs) = interior_intervals st False cs" for st a s cs by (cases cs) auto
  then show ?thesis using interior_spans by (simp add: idle_intervals_def z del: idle_spans.simps)
qed

lemma interval_terms_bounds: "0 \<le> L \<Longrightarrow> 0 \<le> fst (interval_terms model kind L item) \<and> fst (interval_terms model kind L item) \<le> snd (interval_terms model kind L item)"
  by (auto simp: interval_terms_def split: prod.split)

lemma sum_terms:
  assumes "\<forall>x \<in> set xs. 0 \<le> fst x \<and> fst x \<le> (snd x :: rat)"
  shows "0 \<le> sum_list (map fst xs) \<and> sum_list (map fst xs) \<le> sum_list (map snd xs)"
  using assms by (induction xs) auto

lemma machine_terms_bounds: "0 \<le> L \<Longrightarrow> 0 \<le> fst (machine_terms model kind L tr m) \<and> fst (machine_terms model kind L tr m) \<le> snd (machine_terms model kind L tr m)"
  using sum_terms [of "map (interval_terms model kind L) (idle_intervals tr m)"] interval_terms_bounds
  by (auto simp: machine_terms_def Let_def)

lemma fraction_bounds: "0 \<le> o' \<and> o' \<le> t' \<Longrightarrow> t' \<noteq> 0 \<Longrightarrow> 0 \<le> o' / t' \<and> o' / t' \<le> (1 :: rat)"
  by (simp add: divide_le_eq_1)

lemma quantile_order:
  assumes "vals \<noteq> []" "sorted vals" "\<And>x. x \<in> set vals \<Longrightarrow> 0 \<le> x \<and> x \<le> (1 :: rat)"
  shows "0 \<le> vals ! 0 \<and> vals ! 0 \<le> vals ! (length vals div 2) \<and> vals ! (length vals div 2) \<le> last vals \<and> last vals \<le> 1"
proof -
  have n: "0 < length vals" using assms(1) by simp
  then have "length vals div 2 \<le> length vals - 1" by linarith
  then show ?thesis using n assms sorted_nth_mono [OF assms(2)] by (simp add: last_conv_nth)
qed

text \<open>
  Every fraction of the table lies between 0 and 1, and so do the quantiles over the machines, which are in order.
\<close>

lemma sensitivity_bounds:
  assumes "row \<in> set (sensitivity tr latencies)" "\<forall>L \<in> set latencies. 0 \<le> L"
  shows "0 \<le> se_fraction row \<and> se_fraction row \<le> 1 \<and> (\<forall>lo med hi. se_quantiles row = Some (lo, med, hi) \<longrightarrow> 0 \<le> lo \<and> lo \<le> med \<and> med \<le> hi \<and> hi \<le> 1)"
proof -
  obtain L model kind where row: "row = sensitivity_row_of tr L model kind" "0 \<le> L"
    using assms by (auto simp: sensitivity_def)
  let ?terms = "map (machine_terms model kind L tr) (tl_machines tr)"
  let ?vals = "sort (map (\<lambda>(o', t'). o' / t') (filter (\<lambda>(o', t'). t' \<noteq> 0) ?terms))"
  have b: "\<forall>x \<in> set ?terms. 0 \<le> fst x \<and> fst x \<le> snd x" using machine_terms_bounds [OF row(2)] by auto
  have v: "0 \<le> x \<and> x \<le> 1" if x: "x \<in> set ?vals" for x
  proof -
    have "set ?vals = (\<lambda>y. fst y / snd y) ` {y \<in> set ?terms. snd y \<noteq> 0}" by (simp only: set_sort set_map set_filter case_prod_beta')
    then obtain y where y: "y \<in> set ?terms" "snd y \<noteq> 0" "x = fst y / snd y" using x by blast
    have "0 \<le> fst y \<and> fst y \<le> snd y" using b y(1) by blast
    from fraction_bounds [OF this y(2)] show ?thesis unfolding y(3) .
  qed
  define vals where "vals = ?vals"
  have sq: "se_quantiles row = (if vals = [] then None else Some (vals ! 0, vals ! (length vals div 2), last vals))"
    by (simp only: row(1) sensitivity_row_of_def Let_def sensitivity_row.select_convs vals_def)
  have "sorted vals" by (simp only: vals_def sorted_sort)
  note order = quantile_order [OF _ this v [folded vals_def]]
  have "0 \<le> lo \<and> lo \<le> med \<and> med \<le> hi \<and> hi \<le> 1" if q: "se_quantiles row = Some (lo, med, hi)" for lo med hi
  proof -
    have "vals \<noteq> []" "lo = vals ! 0" "med = vals ! (length vals div 2)" "hi = last vals" using q sq by (simp_all split: if_splits)
    with order show ?thesis by simp
  qed
  moreover have "0 \<le> se_fraction row \<and> se_fraction row \<le> 1"
    using sum_terms [OF b] fraction_bounds by (simp add: row(1) sensitivity_row_of_def Let_def)
  ultimately show ?thesis by blast
qed

text \<open>The total time does not depend on the proxy, and no proxy counts more than \<^verbatim>\<open>any\<close>.\<close>

lemma interval_terms_proxy:
  "0 \<le> L \<Longrightarrow> fst (interval_terms model kind L item) \<le> fst (interval_terms model ''any'' L item) \<and>
    snd (interval_terms model kind L item) = snd (interval_terms model ''any'' L item)"
  by (auto simp: interval_terms_def proxy_hit_def split: prod.split)

lemma machine_terms_proxy:
  assumes "0 \<le> L"
  shows "fst (machine_terms model kind L tr m) \<le> fst (machine_terms model ''any'' L tr m)"
    "snd (machine_terms model kind L tr m) = snd (machine_terms model ''any'' L tr m)"
proof -
  show "fst (machine_terms model kind L tr m) \<le> fst (machine_terms model ''any'' L tr m)"
    using interval_terms_proxy [OF assms] by (auto simp: machine_terms_def Let_def comp_def intro: sum_list_mono)
  have "snd \<circ> interval_terms model kind L = snd \<circ> interval_terms model ''any'' L"
    using interval_terms_proxy [OF assms, THEN conjunct2, of model kind] by (auto simp: fun_eq_iff)
  then show "snd (machine_terms model kind L tr m) = snd (machine_terms model ''any'' L tr m)"
    by (simp add: machine_terms_def Let_def)
qed

lemma sensitivity_proxy:
  assumes "0 \<le> L"
  shows "se_fraction (sensitivity_row_of tr L model kind) \<le> se_fraction (sensitivity_row_of tr L model ''any'')"
proof -
  let ?f = "\<lambda>k. sum_list (map fst (map (machine_terms model k L tr) (tl_machines tr)))"
  let ?t = "\<lambda>k. sum_list (map snd (map (machine_terms model k L tr) (tl_machines tr)))"
  have "?f kind \<le> ?f ''any''" using machine_terms_proxy(1) [OF assms] by (simp add: comp_def sum_list_mono)
  moreover have "snd \<circ> machine_terms model kind L tr = snd \<circ> machine_terms model ''any'' L tr"
    using machine_terms_proxy(2) [OF assms, of model kind tr] by (auto simp: fun_eq_iff)
  then have "?t kind = ?t ''any''" by simp
  moreover have "\<forall>x \<in> set (map (machine_terms model ''any'' L tr) (tl_machines tr)). 0 \<le> fst x \<and> fst x \<le> snd x"
    using machine_terms_bounds [OF assms] by auto
  then have "0 \<le> ?t ''any''" using sum_terms by (meson order_trans)
  ultimately show ?thesis by (simp add: sensitivity_row_of_def Let_def divide_right_mono)
qed


end
