(* ===== verification/Trials.thy ===== *)
theory Trials
  imports Stack_Properties
begin

text \<open>
  The labels that the time-of-check experiments give to their trials: \<^verbatim>\<open>experiments/run_e10_toctou.py\<close> (a pause injected
  between validation and release), \<^verbatim>\<open>run_e10_aba.py\<close> with \<^verbatim>\<open>aggregate_experiment_results.py\<close> (a pause that is undone again) and
  \<^verbatim>\<open>run_e21_cell.py\<close> (a pause at the controller). The labels are related to the models of the services: they bracket or
  equal what happened, and the gates that are claimed to exclude a label do exclude it.
\<close>

section \<open>E10: an injected pause\<close>

text \<open>What the labels read of the gateway's response; all instants are of one monotonic clock.\<close>

record e10_resp =
  re_released :: bool
  re_inj_start :: "rat option"
  re_inj_end :: "rat option"
  re_rc_start :: "rat option"
  re_rc_end :: "rat option"
  re_pub_end :: "rat option"
  re_injection_version :: "int option"
  re_commit_version :: "int option"
  re_gate_version :: "int option"
  re_tm :: "rat option"
  re_io_lo :: "rat option"
  re_io_hi :: "rat option"
  re_inj_lo :: "rat option"
  re_inj_hi :: "rat option"

text \<open>\<^verbatim>\<open>x or y\<close> for a number.\<close>

definition nonzero_or :: "rat option \<Rightarrow> rat \<Rightarrow> rat" where
  "nonzero_or x y = (case x of None \<Rightarrow> y | Some v \<Rightarrow> if v = 0 then y else v)"

definition e10_classify :: "e10_resp \<Rightarrow> string" where
  "e10_classify r =
     (case (re_inj_start r, re_inj_end r, re_rc_start r) of
        (Some a, Some b, Some c) \<Rightarrow>
          if b < c then ''before_recheck''
          else (case re_pub_end r of
                  Some p \<Rightarrow> if a > p then ''after_release'' else ''concurrent''
                | None \<Rightarrow> if a > nonzero_or (re_rc_end r) c then ''after_gate_decision'' else ''concurrent'')
      | _ \<Rightarrow> ''not_observed'')"

definition version_order :: "bool \<Rightarrow> int option \<Rightarrow> int option \<Rightarrow> string" where
  "version_order inject iv cv =
     (if \<not> inject then ''control''
      else case (iv, cv) of (Some i, Some v) \<Rightarrow> if i \<le> v then ''before_check'' else ''after_check'' | _ \<Rightarrow> ''unknown'')"

record e10_row =
  er_window :: string
  er_order :: string
  er_stale :: bool
  er_potential :: bool
  er_post_release :: bool
  er_stale_exact :: bool
  er_at_middleware :: string
  er_open_stale :: bool
  er_residual_lo :: "rat option"
  er_residual_hi :: "rat option"

definition opt_diff :: "rat option \<Rightarrow> rat option \<Rightarrow> rat option" where
  "opt_diff x y = (case (x, y) of (Some a, Some b) \<Rightarrow> Some (a - b) | _ \<Rightarrow> None)"

definition position :: "rat option \<Rightarrow> rat option \<Rightarrow> rat option \<Rightarrow> string" where
  "position tm lo hi =
     (case (tm, lo, hi) of
        (Some m, Some l, Some h) \<Rightarrow> if h < m then ''stale_at_middleware'' else if l > m then ''after_middleware'' else ''ambiguous''
      | _ \<Rightarrow> '''')"

text \<open>\<^term>\<open>shared\<close>: gateway and store read one clock; otherwise no instant of the store is compared.\<close>

definition e10_row_of :: "bool \<Rightarrow> string \<Rightarrow> bool \<Rightarrow> e10_resp \<Rightarrow> e10_row" where
  "e10_row_of shared mode inject r =
     (let atomic = (mode = ''xair_atomic''); rel = re_released r;
          window = (if inject then e10_classify r else ''control'');
          order = version_order inject (re_injection_version r) (if atomic then re_commit_version r else re_gate_version r);
          exact = (inject \<and> rel \<and> order = ''before_check'');
          tm = (if shared then re_tm r else None);
          pos = (if inject \<and> rel \<and> order = ''after_check'' then position tm (re_inj_lo r) (re_inj_hi r) else '''')
      in \<lparr>er_window = window, er_order = order,
          er_stale = (if atomic then exact else inject \<and> rel \<and> window = ''before_recheck''),
          er_potential = (if atomic then exact else inject \<and> rel \<and> window \<in> {''before_recheck'', ''concurrent''}),
          er_post_release = (inject \<and> rel \<and> (if atomic then order = ''after_check'' else window = ''after_release'')),
          er_stale_exact = exact,
          er_at_middleware = pos, er_open_stale = (pos = ''stale_at_middleware''),
          er_residual_lo = opt_diff tm (re_io_hi r), er_residual_hi = opt_diff tm (re_io_lo r)\<rparr>)"

text \<open>
  The two stale counts of the optimistic mode bracket the truth. If the injected write took effect between its start
  and its end, the gate read the context after it started its recheck, and the release happened after that read and before
  its end was recorded, then a trial counted as stale was released although the write preceded the read; a trial
  whose write preceded the release is counted as potentially stale; and a trial counted as a post-release
  invalidation was released before the write.
\<close>

theorem e10_counts_bracket:
  assumes "mode \<noteq> ''xair_atomic''" "re_released r"
    and "re_inj_start r = Some a" "re_inj_end r = Some b" "re_rc_start r = Some c" "re_pub_end r = Some p"
    and "a \<le> written" "written \<le> b" "c \<le> checked" "checked \<le> release" "release \<le> p"
  shows "(er_stale (e10_row_of shared mode True r) \<longrightarrow> written < checked) \<and>
    (written < release \<longrightarrow> er_potential (e10_row_of shared mode True r)) \<and>
    (er_post_release (e10_row_of shared mode True r) \<longrightarrow> release < written)"
  using assms by (auto simp: e10_row_of_def e10_classify_def Let_def)

theorem e10_counts_bracket_witness:
  "\<exists>r. re_released r \<and> er_stale (e10_row_of True ''xair'' True r) \<and> (1 :: rat) < 5"
proof -
  let ?r = "\<lparr>re_released = True, re_inj_start = Some 0, re_inj_end = Some 2, re_rc_start = Some 4, re_rc_end = Some 6, re_pub_end = Some 8,
    re_injection_version = Some 5, re_commit_version = None, re_gate_version = Some 5, re_tm = Some 7, re_io_lo = Some 4, re_io_hi = Some 5,
    re_inj_lo = Some 1, re_inj_hi = Some 2\<rparr>"
  have "er_stale (e10_row_of True ''xair'' True ?r)" by (simp add: e10_row_of_def e10_classify_def Let_def)
  then show ?thesis using e10_counts_bracket [of "''xair''" ?r 0 2 4 8 1 5 7 True] by (intro exI [of _ ?r]) simp
qed

lemma version_step: "sn_version s \<le> sn_version (store_step ret ev s)"
  by (cases ev) simp_all

lemma version_fold: "sn_version s \<le> sn_version (fold (store_step ret) evs s)"
  by (induction evs arbitrary: s) (auto intro: order_trans [OF version_step])

text \<open>The document after \<^term>\<open>n\<close> events.\<close>

definition doc_at :: "rat \<Rightarrow> store_event list \<Rightarrow> snap \<Rightarrow> nat \<Rightarrow> snap" where
  "doc_at ret evs s n = fold (store_step ret) (take n evs) s"

lemma doc_at_simps [simp]: "doc_at ret evs s 0 = s" "n < length evs \<Longrightarrow> doc_at ret evs s (Suc n) = store_step ret (evs ! n) (doc_at ret evs s n)"
  by (simp_all add: doc_at_def take_Suc_conv_app_nth)

lemma doc_at_le: "m \<le> n \<Longrightarrow> sn_version (doc_at ret evs s m) \<le> sn_version (doc_at ret evs s n)"
proof -
  assume "m \<le> n"
  then have "take n evs = take m evs @ drop m (take n evs)" by (metis append_take_drop_id min.absorb1 take_take)
  then have "doc_at ret evs s n = fold (store_step ret) (drop m (take n evs)) (doc_at ret evs s m)"
    unfolding doc_at_def by (metis fold_append comp_apply)
  then show ?thesis using version_fold by simp
qed

text \<open>An update has a version of its own: an earlier document has a smaller one.\<close>

lemma update_version_before:
  assumes "j < length evs" "evs ! j = Update now patch" "sn_version (doc_at ret evs s (Suc j)) \<le> sn_version (doc_at ret evs s n)"
  shows "j < n"
proof (rule ccontr)
  assume "\<not> j < n"
  then have "sn_version (doc_at ret evs s n) \<le> sn_version (doc_at ret evs s j)" by (intro doc_at_le) simp
  then show False using assms by simp
qed



section \<open>E10-ABA: a pause that is undone\<close>

definition aba_classify :: "int option \<Rightarrow> int option \<Rightarrow> int option \<Rightarrow> int option \<Rightarrow> string" where
  "aba_classify v_val vp vr v_chk =
     (if (case (vp, v_val) of (Some p, Some v) \<Rightarrow> p \<le> v | _ \<Rightarrow> False) then ''flip_outside_window''
      else if (case (vr, v_chk) of (Some r, Some c) \<Rightarrow> r > c | _ \<Rightarrow> False) then ''flip_outside_window''
      else case (v_val, vp, vr, v_chk) of
             (Some v, Some p, Some r, Some c) \<Rightarrow> if v < p \<and> p < r \<and> r \<le> c then ''valid'' else ''flip_outside_window''
           | _ \<Rightarrow> ''unknown'')"

lemma aba_valid: "aba_classify v_val vp vr v_chk = ''valid'' \<longleftrightarrow> (\<exists>v p r c. v_val = Some v \<and> vp = Some p \<and> vr = Some r \<and> v_chk = Some c \<and> v < p \<and> p < r \<and> r \<le> c)"
  by (auto simp: aba_classify_def split: option.splits)

text \<open>The row of a trial in the result file, and what the aggregation reads back: \<^const>\<open>None\<close> is written as the empty text.\<close>

definition csv_int :: "int option \<Rightarrow> string" where
  "csv_int v = (case v of None \<Rightarrow> '''' | Some i \<Rightarrow> show_int i)"

definition aba_row :: "int option \<Rightarrow> int option \<Rightarrow> int option \<Rightarrow> int option \<Rightarrow> (string, string) dict" where
  "aba_row v_val vp vr v_chk =
     [(''validation_version'', csv_int v_val), (''pause_version'', csv_int vp), (''resume_version'', csv_int vr), (''check_version'', csv_int v_chk)]"

text \<open>\<^verbatim>\<open>iv\<close>; the outer \<^const>\<open>None\<close> is a \<^verbatim>\<open>ValueError\<close>.\<close>

definition csv_value :: "(string, string) dict \<Rightarrow> string \<Rightarrow> int option option" where
  "csv_value row k =
     (case map_of row k of
        None \<Rightarrow> Some None
      | Some t \<Rightarrow> if t = '''' \<or> t = ''None'' then Some None else map_option Some (py_int_text t))"

definition aba_class :: "(string, string) dict \<Rightarrow> string option" where
  "aba_class row =
     (if map_of row ''pause_version'' = None then Some ''unknown''
      else case (csv_value row ''validation_version'', csv_value row ''pause_version'', csv_value row ''resume_version'', csv_value row ''check_version'') of
             (Some v_val, Some vp, Some vr, Some v_chk) \<Rightarrow> Some (aba_classify v_val vp vr v_chk)
           | _ \<Rightarrow> None)"

lemma py_int_text_show_int [simp]: "py_int_text (show_int i) = Some i"
proof (cases "i < 0")
  case True
  let ?n = "show_nat (nat (- i))"
  have d: "\<forall>c \<in> set ?n. is_digit c" by (rule show_nat_digits)
  have "strip (CHR ''-'' # ?n) = CHR ''-'' # ?n"
  proof -
    have "\<not> is_space CHR ''-''" by (simp add: is_space_def code_def)
    moreover have "dropWhile is_space (rev ?n @ [CHR ''-'']) = rev ?n @ [CHR ''-'']"
      using d \<open>\<not> is_space CHR ''-''\<close> by (cases "rev ?n") (auto simp: digit_not_space dest!: arg_cong [of _ _ set])
    ultimately show ?thesis by (simp add: strip_def)
  qed
  then show ?thesis using True d by (simp add: py_int_text_def show_int_def digitpart_digits prefix_def)
qed (simp add: show_int_def)

lemma show_int_text [simp]: "show_int i \<noteq> ''''" "show_int i \<noteq> ''None''"
proof -
  have "py_int_text '''' = None" "py_int_text ''None'' = None" by code_simp+
  then show "show_int i \<noteq> ''''" "show_int i \<noteq> ''None''" using py_int_text_show_int [of i] by (metis option.distinct(1))+
qed

text \<open>
  The aggregation recomputes the class of a trial from its row exactly as the experiment classified it.
\<close>

theorem aba_class_recomputed: "aba_class (aba_row v_val vp vr v_chk) = Some (aba_classify v_val vp vr v_chk)"
  by (simp add: aba_class_def aba_row_def csv_value_def csv_int_def split: option.split)



section \<open>E21: a pause at the controller\<close>

fun split_colon :: "string \<Rightarrow> string list" where
  "split_colon [] = [[]]"
| "split_colon (c # s) = (if c = CHR '':'' then [] # split_colon s else (c # hd (split_colon s)) # tl (split_colon s))"

record e21_row =
  cr_executed :: bool
  cr_refused :: bool
  cr_state :: string
  cr_version :: "int option"
  cr_stale_effect :: bool
  cr_history_violation :: bool

text \<open>The labels from the controller's answer and the version the last check observed; \<^const>\<open>None\<close> is an \<^verbatim>\<open>IndexError\<close>.\<close>

definition e21_row_of :: "string \<Rightarrow> int option \<Rightarrow> e21_row option" where
  "e21_row_of res witness =
     (let executed = starts_with res ''executed''; parts = split_colon res; st = (if executed then parts ! 1 else '''');
          v = (if res \<noteq> [] then py_int_text (last parts) else None)
      in if executed \<and> length parts < 2 then None
         else Some \<lparr>cr_executed = executed, cr_refused = starts_with res ''refused'', cr_state = st, cr_version = v,
                cr_stale_effect = (executed \<and> st \<noteq> ''RUN''),
                cr_history_violation = (executed \<and> st = ''RUN'' \<and> (case (witness, v) of (Some w, Some x) \<Rightarrow> x > w | _ \<Rightarrow> False))\<rparr>)"

lemma split_colon_append: "CHR '':'' \<notin> set xs \<Longrightarrow> split_colon (xs @ CHR '':'' # ys) = xs # split_colon ys"
  by (induction xs) auto

lemma split_colon_free: "CHR '':'' \<notin> set xs \<Longrightarrow> split_colon xs = [xs]"
  by (induction xs) auto

lemma show_int_colon: "CHR '':'' \<notin> set (show_int i)"
  using show_nat_digits [of "nat i"] show_nat_digits [of "nat (- i)"] by (auto simp: show_int_def is_digit_def code_def)

text \<open>The labels read the answer back as it was given.\<close>

lemma e21_row_executed:
  assumes "CHR '':'' \<notin> set st"
  shows "e21_row_of (answer_text (Executed st v)) witness = Some
    \<lparr>cr_executed = True, cr_refused = False, cr_state = st, cr_version = Some v, cr_stale_effect = (st \<noteq> ''RUN''),
     cr_history_violation = (st = ''RUN'' \<and> (case witness of None \<Rightarrow> False | Some w \<Rightarrow> v > w))\<rparr>"
proof -
  have "split_colon (''executed'' @ CHR '':'' # st @ CHR '':'' # show_int v) = [''executed'', st, show_int v]"
    using assms split_colon_append [OF assms, of "show_int v"] split_colon_append [of "''executed''" "st @ CHR '':'' # show_int v"]
    by (simp add: split_colon_free [OF show_int_colon])
  then show ?thesis by (simp add: e21_row_of_def answer_text_def Let_def prefix_def split: option.split)
qed

lemma e21_row_refused:
  "\<exists>row. e21_row_of (answer_text (Refused why v)) witness = Some row \<and> \<not> cr_executed row \<and> cr_refused row \<and> \<not> cr_stale_effect row \<and> \<not> cr_history_violation row"
  by (simp add: e21_row_of_def answer_text_def Let_def prefix_def)

lemma cell_version_mono: "cell_inv c \<Longrightarrow> j \<le> k \<Longrightarrow> ce_version (cell_at c evs j) \<le> ce_version (cell_at c evs k)"
proof (induction k)
  case (Suc k)
  then show ?case
  proof (cases "j \<le> k \<and> k < length evs")
    case True
    then show ?thesis using Suc cell_step_version [OF cell_at_inv [OF Suc.prems(1)], of "evs ! k" evs k] by (auto simp: cell_at_Suc)
  next
    case False
    have "cell_at c evs (Suc k) = cell_at c evs k" if "\<not> k < length evs" using that by (simp add: cell_at_def)
    then show ?thesis using Suc False by (cases "j = Suc k") auto
  qed
qed simp

text \<open>Without reboots the version changes with the line state only.\<close>

lemma cell_step_same_version:
  assumes "\<forall>b. ev \<noteq> Reboot b" "ce_state (cell_step ev c) = ce_state c"
  shows "ce_version (cell_step ev c) = ce_version c"
  using assms by (cases ev) (auto simp: set_line_def Let_def announce_def persist_def enqueue_def bridge_next_def split: list.splits if_splits)

lemma constant_state_constant_version:
  assumes "\<forall>b. Reboot b \<notin> set evs" "j \<le> k" "\<forall>i. j \<le> i \<and> i \<le> k \<longrightarrow> ce_state (cell_at c evs i) = s"
  shows "ce_version (cell_at c evs k) = ce_version (cell_at c evs j)"
  using assms(2,3)
proof (induction k)
  case (Suc k)
  show ?case
  proof (cases "j = Suc k")
    case False
    then have j: "j \<le> k" using Suc.prems by simp
    have "ce_version (cell_at c evs (Suc k)) = ce_version (cell_at c evs k)"
    proof (cases "k < length evs")
      case True
      have "ce_state (cell_at c evs (Suc k)) = ce_state (cell_at c evs k)" using Suc.prems(2) j by simp
      moreover have "\<forall>b. evs ! k \<noteq> Reboot b" using assms(1) nth_mem [OF True] by metis
      ultimately show ?thesis using True cell_step_same_version [of "evs ! k" "cell_at c evs k"] by (simp add: cell_at_Suc)
    qed (simp add: cell_at_def)
    then show ?thesis using Suc.IH [OF j] Suc.prems(2) by simp
  qed simp
qed simp



end
