(* ===== verification/Outbox_Faults.thy ===== *)
theory Outbox_Faults
  imports Consumer
begin

text \<open>
  \<^verbatim>\<open>experiments/run_e18_outbox_faults.py\<close>: the fault scenarios of the actuation log, on the store in memory. A scenario commits
  \<^term>\<open>n\<close> authorizations through the store, lets the consumer apply them under one kind of fault and counts what
  happened. The clocks, the coins, the position of the crash and the order of the threads' store operations are given; the
  rows that the scenarios produce are determined by \<^term>\<open>n\<close> all the same.
\<close>

section \<open>Commits\<close>

definition E18_PATHS :: "string list" where
  "E18_PATHS = [''line.state'']"

definition e18_state :: "string \<Rightarrow> ctx" where
  "e18_state s = [(''line'', JObj [(''state'', JStr s)])]"

text \<open>\<^verbatim>\<open>fresh_store\<close> without a Redis URL.\<close>

definition e18_fresh :: "rat \<Rightarrow> rat \<Rightarrow> store" where
  "e18_fresh ret now = fst (update_store ret now (e18_state ''RUN'') NoClient (new_store False Document))"

text \<open>\<^verbatim>\<open>commit\<close>: two operations of the store.\<close>

definition e18_read :: "store \<Rightarrow> store \<times> int" where
  "e18_read st = (case snapshot_full NoClient st of (st1, (c, v, pv), trusted) \<Rightarrow> (st1, read_set_version pv E18_PATHS))"

definition e18_args :: "string \<Rightarrow> int \<Rightarrow> rat \<Rightarrow> commit_args" where
  "e18_args i v decision_ms =
     \<lparr>ca_id = i, ca_paths = E18_PATHS, ca_expected = v,
      ca_record = [(''read_set'', JList (map JStr E18_PATHS)), (''read_set_version'', JInt v), (''target_entity'', JStr ''line_1'')],
      ca_decision = decision_ms, ca_bound = None, ca_max_ahead = None, ca_scope = ''readset''\<rparr>"

text \<open>The clock is read twice: for the decision of the intent and by the store.\<close>

definition e18_authorize :: "string \<Rightarrow> int \<Rightarrow> rat \<times> rat \<Rightarrow> store \<Rightarrow> store \<times> commit_status" where
  "e18_authorize i v t st =
     (case commit_authorization (\<lambda>r. r) (snd t) (e18_args i v (fst t * 1000)) NoClient st of (st1, res) \<Rightarrow> (st1, cr_status res))"

definition e18_commit :: "string \<Rightarrow> rat \<times> rat \<Rightarrow> store \<Rightarrow> store \<times> commit_status" where
  "e18_commit i t st = (case e18_read st of (st1, v) \<Rightarrow> e18_authorize i v t st1)"

fun e18_commits :: "(nat \<Rightarrow> rat \<times> rat) \<Rightarrow> nat \<Rightarrow> string list \<Rightarrow> store \<Rightarrow> store \<times> commit_status list" where
  "e18_commits clk k [] st = (st, [])"
| "e18_commits clk k (i # ids) st =
     (case e18_commit i (clk k) st of (st1, s) \<Rightarrow>
        (case e18_commits clk (Suc k) ids st1 of (st2, ss) \<Rightarrow> (st2, s # ss)))"

section \<open>Polls\<close>

text \<open>A consumer process on a store and an actuator; \<^const>\<open>None\<close> is an exception other than the injected crash.\<close>

definition e18_poll :: "bool \<Rightarrow> poll_env \<Rightarrow> store \<times> idempotent_actuator \<Rightarrow> idempotent_actuator consumer option" where
  "e18_poll recheck e sa =
     (case poll (\<lambda>_. ia_apply) recheck ''default'' e (new_consumer (fst sa) (snd sa)) of
        (c, PollError m) \<Rightarrow> None
      | (c, _) \<Rightarrow> Some c)"

definition no_hook :: "poll_env \<Rightarrow> poll_env" where
  "no_hook e = e\<lparr>pe_crash := \<lambda>_. False\<rparr>"

text \<open>The hook of the crash scenario; the offset of that poll is 0.\<close>

definition hook_at :: "nat \<Rightarrow> poll_env \<Rightarrow> poll_env" where
  "hook_at p e = e\<lparr>pe_crash := \<lambda>k. k = p\<rparr>"

definition after_poll :: "idempotent_actuator consumer \<Rightarrow> store \<times> idempotent_actuator" where
  "after_poll c = (co_store c, co_actuator c)"

text \<open>Commits with a fresh consumer process whenever the coin says so.\<close>

fun e18_restarts ::
  "(nat \<Rightarrow> rat \<times> rat) \<Rightarrow> (nat \<Rightarrow> bool) \<Rightarrow> (nat \<Rightarrow> poll_env) \<Rightarrow> nat \<Rightarrow> string list \<Rightarrow> store \<times> idempotent_actuator \<Rightarrow> (store \<times> idempotent_actuator) option" where
  "e18_restarts clk coins polls k [] sa = Some sa"
| "e18_restarts clk coins polls k (i # ids) sa =
     (let sa1 = (fst (e18_commit i (clk k) (fst sa)), snd sa)
      in if coins k
         then (case e18_poll False (no_hook (polls k)) sa1 of
                 None \<Rightarrow> None
               | Some c \<Rightarrow> e18_restarts clk coins polls (Suc k) ids (after_poll c))
         else e18_restarts clk coins polls (Suc k) ids sa1)"

section \<open>Threads\<close>

text \<open>The operations of the threads on the store, each atomic; a thread keeps the version it has read.\<close>

datatype e18_op = ReadVersion string | CommitRead string

fun op_id :: "e18_op \<Rightarrow> string" where
  "op_id (ReadVersion i) = i"
| "op_id (CommitRead i) = i"

fun e18_ops :: "(nat \<Rightarrow> rat \<times> rat) \<Rightarrow> nat \<Rightarrow> e18_op list \<Rightarrow> (string \<rightharpoonup> int) \<Rightarrow> store \<Rightarrow> store" where
  "e18_ops clk k [] reads st = st"
| "e18_ops clk k (ReadVersion i # ops) reads st =
     (case e18_read st of (st1, v) \<Rightarrow> e18_ops clk (Suc k) ops (reads(i \<mapsto> v)) st1)"
| "e18_ops clk k (CommitRead i # ops) reads st =
     (case reads i of
        None \<Rightarrow> e18_ops clk (Suc k) ops reads st
      | Some v \<Rightarrow> e18_ops clk (Suc k) ops reads (fst (e18_authorize i v (clk k) st)))"

text \<open>\<^verbatim>\<open>ids[k::8]\<close>, the program of a thread, and the interleavings of several programs.\<close>

definition stride :: "nat \<Rightarrow> nat \<Rightarrow> 'a list \<Rightarrow> 'a list" where
  "stride k s xs = map (\<lambda>j. xs ! j) (filter (\<lambda>j. k \<le> j \<and> (j - k) mod s = 0) [0..<length xs])"

definition thread_program :: "string list \<Rightarrow> e18_op list" where
  "thread_program ids = concat (map (\<lambda>i. [ReadVersion i, CommitRead i]) ids)"

fun interleavings :: "'a list list \<Rightarrow> 'a list set" where
  "interleavings [] = {[]}"
| "interleavings (p # ps) = (\<Union>q \<in> interleavings ps. shuffles p q)"

definition e18_schedules :: "string list \<Rightarrow> e18_op list set" where
  "e18_schedules ids = interleavings (map (\<lambda>k. thread_program (stride k 8 ids)) [0..<8])"

section \<open>Scenarios\<close>

record e18_env =
  ee_ret :: rat
  ee_start :: rat
  ee_pause :: rat
  ee_clock :: "nat \<Rightarrow> rat \<times> rat"
  ee_polls :: "nat \<Rightarrow> poll_env"
  ee_crash_at :: nat
  ee_coins :: "nat \<Rightarrow> bool"
  ee_schedule :: "e18_op list"

record e18_row =
  e8_n :: nat
  e8_log_records :: nat
  e8_distinct_logged :: nat
  e8_effects :: nat
  e8_distinct_effects :: nat
  e8_duplicate_effects :: nat
  e8_lost :: "nat option"
  e8_suppressed :: nat
  e8_extra :: "(string \<times> nat) list"

definition e18_ids :: "string \<Rightarrow> nat \<Rightarrow> string list" where
  "e18_ids name n = map (\<lambda>i. name @ ''-'' @ show_nat i) [0..<n]"

definition versions_monotone :: "ctx list \<Rightarrow> bool" where
  "versions_monotone lg =
     list_all (\<lambda>(a, b). case (map_of a ''commit_version'', map_of b ''commit_version'') of (Some (JInt x), Some (JInt y)) \<Rightarrow> x \<le> y | _ \<Rightarrow> False)
       (zip lg (tl lg))"

definition bit_of :: "bool \<Rightarrow> nat" where
  "bit_of b = (if b then 1 else 0)"

text \<open>What a branch of \<^verbatim>\<open>scenario\<close> leaves: the store and the actuator, and the extra columns.\<close>

definition e18_run :: "string \<Rightarrow> e18_env \<Rightarrow> string list \<Rightarrow> ((store \<times> idempotent_actuator) \<times> (string \<times> nat) list) option" where
  "e18_run name e ids =
     (let st = e18_fresh (ee_ret e) (ee_start e); act = new_actuator; poll0 = no_hook (ee_polls e 0) in
      if name = ''gateway_crash_after_commit'' then
        map_option (\<lambda>c. (after_poll c, [])) (e18_poll False poll0 (fst (e18_commits (ee_clock e) 0 ids st), act))
      else if name = ''duplicate_commit'' then
        (case e18_commits (ee_clock e) 0 (concat (map (\<lambda>i. [i, i]) ids)) st of (st1, dup) \<Rightarrow>
           map_option (\<lambda>c. (after_poll c, [(''refused_duplicates'', count_list dup Duplicate)])) (e18_poll False poll0 (st1, act)))
      else if name = ''consumer_crash_after_apply'' then
        (case e18_poll False (hook_at (ee_crash_at e) (ee_polls e 0)) (fst (e18_commits (ee_clock e) 0 ids st), act) of
           None \<Rightarrow> None
         | Some c \<Rightarrow> map_option (\<lambda>c. (after_poll c, [(''crash_position'', ee_crash_at e)])) (e18_poll False (no_hook (ee_polls e 1)) (after_poll c)))
      else if name = ''consumer_restarts'' then
        (case e18_restarts (ee_clock e) (ee_coins e) (ee_polls e) 0 ids (st, act) of
           None \<Rightarrow> None
         | Some sa \<Rightarrow> map_option (\<lambda>c. (after_poll c, [])) (e18_poll False (no_hook (ee_polls e (length ids))) sa))
      else if name = ''concurrent_commits'' then
        (case e18_poll False poll0 (e18_ops (ee_clock e) 0 (ee_schedule e) Map.empty st, act) of
           None \<Rightarrow> None
         | Some c \<Rightarrow>
             (let lg = snd (actuation_log 0 NoClient (co_store c))
              in map_option (\<lambda>lids. (after_poll c,
                     [(''effects_in_commit_order'', bit_of (ia_effects (co_actuator c) = lids)),
                      (''commit_versions_monotone'', bit_of (versions_monotone lg))])) (those (map record_id lg))))
      else if name = ''post_commit_invalidation'' then
        (let st1 = fst (update_store (ee_ret e) (ee_pause e) (e18_state ''PAUSED'') NoClient (fst (e18_commits (ee_clock e) 0 ids st)))
         in map_option (\<lambda>c. (after_poll c, [(''flagged'', length (co_invalidated c)), (''withheld'', length (co_withheld c))]))
              (e18_poll True poll0 (st1, act)))
      else Some ((st, act), []))"

definition e18_scenario :: "string \<Rightarrow> e18_env \<Rightarrow> nat \<Rightarrow> e18_row option" where
  "e18_scenario name e n =
     (let ids = e18_ids name n in
      case e18_run name e ids of
        None \<Rightarrow> None
      | Some ((st, act), extra) \<Rightarrow>
          map_option (\<lambda>log_ids.
            \<lparr>e8_n = n, e8_log_records = length log_ids, e8_distinct_logged = length (remdups log_ids),
             e8_effects = length (ia_effects act), e8_distinct_effects = length (remdups (ia_effects act)),
             e8_duplicate_effects = length (ia_effects act) - length (remdups (ia_effects act)),
             e8_lost = (if name \<noteq> ''post_commit_invalidation'' then Some (length (remdups (filter (\<lambda>i. i \<notin> set (ia_effects act)) ids))) else None),
             e8_suppressed = ia_suppressed act, e8_extra = extra\<rparr>)
            (those (map record_id (snd (actuation_log 0 NoClient st)))))"

definition E18_SCENARIOS :: "string list" where
  "E18_SCENARIOS = [''gateway_crash_after_commit'', ''duplicate_commit'', ''consumer_crash_after_apply'', ''consumer_restarts'',
     ''concurrent_commits'', ''post_commit_invalidation'']"

section \<open>The store during a scenario\<close>

text \<open>The snapshot that all commits see, the record a commit makes of it, and the store after some commits.\<close>

definition run_snap :: snap where
  "run_snap = \<lparr>sn_context = e18_state ''RUN'', sn_version = 1, sn_pv = [(''line.state'', 1)], sn_preds = []\<rparr>"

definition e18_record :: "string \<times> rat \<times> rat \<Rightarrow> ctx" where
  "e18_record c = (case c of (i, d, now) \<Rightarrow> committed_record (e18_args i 1 (d * 1000)) 1 (now * 1000) (now * 1000 - d * 1000))"

definition committed_store :: "(string \<times> rat \<times> rat) list \<Rightarrow> store \<Rightarrow> bool" where
  "committed_store its st \<longleftrightarrow>
     \<not> st_required st \<and> st_layout st = Document \<and> st_snap st = run_snap \<and>
     st_actuations st = map e18_record its \<and> st_committed st = set (map fst its)"

lemma e18_fresh_store: "committed_store [] (e18_fresh ret now)" "st_kv (e18_fresh ret now) = []"
proof -
  have "apply_patch ret now (e18_state ''RUN'') empty_snap = run_snap"
    unfolding apply_patch_def empty_snap_def run_snap_def e18_state_def Let_def snap.simps retire_def by simp code_simp
  then show "committed_store [] (e18_fresh ret now)" "st_kv (e18_fresh ret now) = []"
    by (simp_all add: e18_fresh_def update_store_def redis_first_def set_available_def new_store_def committed_store_def)
qed

lemma e18_record_facts [simp]:
  "record_id (e18_record c) = Some (fst c)" "is_command (e18_record c)" "past_bound x (e18_record c) = Some False"
  "\<not> is_truth_scope (e18_record c)" "texts_of (e18_record c) ''read_set'' = E18_PATHS"
  "doc_get (e18_record c) ''read_set_version'' = JInt 1" "map_of (e18_record c) ''commit_version'' = Some (JInt 1)"
  by (simp_all add: e18_record_def committed_record_def e18_args_def record_id_def is_command_def past_bound_def is_truth_scope_def
      texts_of_def doc_get_def dict_get_def falsy_def E18_PATHS_def split_beta)

lemma run_version: "read_set_version (sn_pv run_snap) E18_PATHS = 1"
  unfolding run_snap_def E18_PATHS_def snap.simps by code_simp

lemma e18_read_run:
  assumes "committed_store its st"
  shows "e18_read st = (set_available False st, 1)"
  using assms run_version by (simp add: e18_read_def snapshot_full_def redis_first_def set_available_def committed_store_def)

text \<open>A commit of a new id is accepted, one of an old id is refused.\<close>

lemma e18_authorize_run:
  assumes "committed_store its st"
  shows "snd (e18_authorize i 1 t st) = (if i \<in> fst ` set its then Duplicate else Committed) \<and>
    committed_store (if i \<in> fst ` set its then its else its @ [(i, t)]) (fst (e18_authorize i 1 t st)) \<and>
    st_kv (fst (e18_authorize i 1 t st)) = st_kv st"
  using assms run_version
  by (auto simp: e18_authorize_def commit_authorization_def redis_first_def set_available_def commit_memory_def commit_observed_def
      e18_args_def committed_store_def e18_record_def Let_def run_snap_def split: prod.split)

lemma committed_available: "committed_store its (set_available b st) = committed_store its st" "st_kv (set_available b st) = st_kv st"
  by (simp_all add: committed_store_def set_available_def)

lemma e18_commit_run:
  assumes "committed_store its st"
  shows "snd (e18_commit i t st) = (if i \<in> fst ` set its then Duplicate else Committed) \<and>
    committed_store (if i \<in> fst ` set its then its else its @ [(i, t)]) (fst (e18_commit i t st)) \<and>
    st_kv (fst (e18_commit i t st)) = st_kv st"
  using e18_authorize_run [of its "set_available False st" i t] assms
  by (simp add: e18_commit_def e18_read_run committed_available)

text \<open>Several commits, and several commits of which each is repeated.\<close>

lemma e18_commits_run:
  assumes "committed_store its st" "distinct ids" "fst ` set its \<inter> set ids = {}"
  shows "\<exists>new. map fst new = ids \<and> committed_store (its @ new) (fst (e18_commits clk k ids st)) \<and> st_kv (fst (e18_commits clk k ids st)) = st_kv st"
  using assms
proof (induction ids arbitrary: its st k)
  case (Cons i ids)
  obtain st1 s where c: "e18_commit i (clk k) st = (st1, s)" by fastforce
  then have "committed_store (its @ [(i, clk k)]) st1" "st_kv st1 = st_kv st"
    using e18_commit_run [OF Cons.prems(1), of i "clk k"] Cons.prems(3) by auto
  then obtain new where "map fst new = ids" "committed_store ((its @ [(i, clk k)]) @ new) (fst (e18_commits clk (Suc k) ids st1))"
    "st_kv (fst (e18_commits clk (Suc k) ids st1)) = st_kv st"
    using Cons.IH [of "its @ [(i, clk k)]" st1 "Suc k"] Cons.prems by auto
  then show ?case using c by (intro exI [of _ "(i, clk k) # new"]) (auto split: prod.split)
qed simp

lemma e18_commits_twice:
  assumes "committed_store its st" "distinct ids" "fst ` set its \<inter> set ids = {}"
  shows "\<exists>new. map fst new = ids \<and> committed_store (its @ new) (fst (e18_commits clk k (concat (map (\<lambda>i. [i, i]) ids)) st)) \<and>
    st_kv (fst (e18_commits clk k (concat (map (\<lambda>i. [i, i]) ids)) st)) = st_kv st \<and>
    count_list (snd (e18_commits clk k (concat (map (\<lambda>i. [i, i]) ids)) st)) Duplicate = length ids"
  using assms
proof (induction ids arbitrary: its st k)
  case (Cons i ids)
  let ?its = "its @ [(i, clk k)]"
  obtain st1 s where c: "e18_commit i (clk k) st = (st1, s)" by fastforce
  then have 1: "committed_store ?its st1" "st_kv st1 = st_kv st" "s = Committed"
    using e18_commit_run [OF Cons.prems(1), of i "clk k"] Cons.prems(3) by auto
  obtain st2 s2 where c2: "e18_commit i (clk (Suc k)) st1 = (st2, s2)" by fastforce
  then have 2: "committed_store ?its st2" "st_kv st2 = st_kv st" "s2 = Duplicate"
    using e18_commit_run [OF 1(1), of i "clk (Suc k)"] 1(2) by auto
  let ?rest = "e18_commits clk (Suc (Suc k)) (concat (map (\<lambda>i. [i, i]) ids)) st2"
  obtain new where "map fst new = ids" "committed_store (?its @ new) (fst ?rest)" "st_kv (fst ?rest) = st_kv st"
    "count_list (snd ?rest) Duplicate = length ids"
    using Cons.IH [OF 2(1), of "Suc (Suc k)"] Cons.prems 2(2) by auto
  then show ?case using c c2 1(3) 2(3) by (intro exI [of _ "(i, clk k) # new"]) (auto split: prod.split)
qed simp

section \<open>The actuator and the polls\<close>

definition acted :: "string list \<Rightarrow> nat \<Rightarrow> idempotent_actuator" where
  "acted xs n = \<lparr>ia_effects = xs, ia_done = set xs, ia_suppressed = n\<rparr>"

definition ia_step :: "ctx \<Rightarrow> idempotent_actuator \<Rightarrow> idempotent_actuator" where
  "ia_step r a = (case ia_apply r a of Some (a', _) \<Rightarrow> a' | None \<Rightarrow> a)"

lemma ia_step_acted:
  "ia_step (e18_record c) (acted xs n) = (if fst c \<in> set xs then acted xs (n + 1) else acted (xs @ [fst c]) n)"
  by (simp add: ia_step_def ia_apply_def acted_def)

lemma ia_steps_fresh:
  "distinct (map fst its) \<Longrightarrow> fst ` set its \<inter> set xs = {} \<Longrightarrow> fold ia_step (map e18_record its) (acted xs n) = acted (xs @ map fst its) n"
  by (induction its arbitrary: xs) (auto simp: ia_step_acted)

lemma consume_run:
  assumes "unreachable (pe_snap e k)" "r = e18_record it"
  shows "\<exists>c1. consume (\<lambda>_. ia_apply) False e k r c = (c1, Some ()) \<and> co_actuator c1 = ia_step r (co_actuator c) \<and>
    co_store c1 = set_available False (co_store c)"
  using snapshot_memory [OF assms(1), of "[]" "co_store c"] assms(2)
  by (auto simp: consume_def Let_def ia_step_def ia_apply_def split: prod.split)

text \<open>A stretch of a poll without a crash: the actuator sees the records in order, and the offset follows.\<close>

lemma poll_stretch:
  assumes "in_memory e"
  shows "\<forall>j < length xs. \<not> pe_crash e (k + j) \<Longrightarrow> committed_store its (co_store c) \<Longrightarrow>
    durable_offset name (co_store c) = Some (int (m + k)) \<Longrightarrow>
    \<exists>c1. poll_from (\<lambda>_. ia_apply) False name e (int m) k (map e18_record xs @ ys) c = poll_from (\<lambda>_. ia_apply) False name e (int m) (k + length xs) ys c1 \<and>
      co_actuator c1 = fold ia_step (map e18_record xs) (co_actuator c) \<and> committed_store its (co_store c1) \<and>
      durable_offset name (co_store c1) = Some (int (m + k + length xs))"
proof (induction xs arbitrary: k c)
  case (Cons it xs)
  let ?r = "e18_record it"
  have u: "unreachable (pe_snap e k)" "unreachable (pe_set e k)" using assms by (simp_all add: in_memory_def)
  obtain c1 where c1: "consume (\<lambda>_. ia_apply) False e k ?r c = (c1, Some ())" "co_actuator c1 = ia_step ?r (co_actuator c)"
    "co_store c1 = set_available False (co_store c)"
    using consume_run [OF u(1) refl] by blast
  have req: "\<not> st_required (co_store c1)" using c1(3) Cons.prems(2) by (simp add: committed_store_def set_available_def)
  have eq: "int m + int k + 1 = int (m + Suc k)" by simp
  obtain c2 where c2: "move_offset name e k (int m + int k + 1) c1 = (c2, Some ())" "co_actuator c2 = co_actuator c1"
    "committed_store its (co_store c2)" "durable_offset name (co_store c2) = Some (int (m + Suc k))"
    unfolding move_offset_memory [OF u(2) req] eq using Cons.prems(2) c1(3)
    by (auto simp: committed_store_def set_available_def durable_offset_def simp del: of_nat_add of_nat_Suc)
  have ncr: "\<not> pe_crash e k" using Cons.prems(1) by force
  have ncr': "\<forall>j < length xs. \<not> pe_crash e (Suc k + j)" using Cons.prems(1) by (metis Suc_less_eq add_Suc_shift length_Cons)
  have "poll_from (\<lambda>_. ia_apply) False name e (int m) k (map e18_record (it # xs) @ ys) c = poll_from (\<lambda>_. ia_apply) False name e (int m) (Suc k) (map e18_record xs @ ys) c2"
    using c1(1) c2(1) ncr by simp
  moreover obtain c3 where "poll_from (\<lambda>_. ia_apply) False name e (int m) (Suc k) (map e18_record xs @ ys) c2 =
      poll_from (\<lambda>_. ia_apply) False name e (int m) (Suc k + length xs) ys c3"
    "co_actuator c3 = fold ia_step (map e18_record xs) (co_actuator c2)" "committed_store its (co_store c3)"
    "durable_offset name (co_store c3) = Some (int (m + Suc k + length xs))"
    using Cons.IH [OF ncr' c2(3,4)] by blast
  ultimately show ?case using c1(2) c2(2) by (intro exI [of _ c3]) simp
qed auto

text \<open>The consumer of a scenario reads its log from the durable offset.\<close>

lemma poll_start:
  assumes "in_memory e" and r: "\<not> st_required st" "st_actuations st = map e18_record its" and "durable_offset ''default'' st = Some (int m)"
  shows "\<exists>c. poll (\<lambda>_. ia_apply) recheck ''default'' e (new_consumer st a) =
      poll_from (\<lambda>_. ia_apply) recheck ''default'' e (int m) 0 (map e18_record (drop m its)) c \<and>
    co_store c = set_available False st \<and> co_actuator c = a \<and> co_invalidated c = [] \<and> co_withheld c = []"
proof -
  have g: "kv_get (offset_key ''default'') (pe_offset e) st = (set_available False st, Some (map_of (st_kv st) (offset_key ''default'')))"
    using assms(1) r by (simp add: kv_get_def redis_first_unreachable in_memory_def set_available_def)
  have "actuation_log (int m) (pe_log e) (set_available False st) = (set_available False st, map e18_record (drop m its))"
    using assms(1) r by (simp add: actuation_log_def redis_first_unreachable in_memory_def set_available_def slice_from_def drop_map)
  then show ?thesis using g assms(4)
    by (intro exI [of _ "new_consumer (set_available False st) a"]) (simp add: poll_def new_consumer_def durable_offset_def)
qed

lemma durable_available [simp]: "durable_offset name (set_available b st) = durable_offset name st"
  by (simp add: durable_offset_def set_available_def)

lemma e18_poll_run:
  assumes "in_memory e" "committed_store its st" "durable_offset ''default'' st = Some (int m)" "m \<le> length its"
  shows "\<exists>c. e18_poll False (no_hook e) (st, a) = Some c \<and> committed_store its (co_store c) \<and>
    durable_offset ''default'' (co_store c) = Some (int (length its)) \<and> co_actuator c = fold ia_step (map e18_record (drop m its)) a"
proof -
  have e: "in_memory (no_hook e)" using assms(1) by (simp add: in_memory_def no_hook_def)
  let ?rs = "map e18_record (drop m its)"
  obtain c where c: "poll (\<lambda>_. ia_apply) False ''default'' (no_hook e) (new_consumer st a) =
      poll_from (\<lambda>_. ia_apply) False ''default'' (no_hook e) (int m) 0 (?rs @ []) c"
    "co_store c = set_available False st" "co_actuator c = a"
    using poll_start [OF e _ _ assms(3), of its False a] assms(2) by (auto simp: committed_store_def)
  have st: "committed_store its (co_store c)" "durable_offset ''default'' (co_store c) = Some (int (m + 0))"
    using assms(2,3) c(2) by (simp_all add: committed_available)
  show ?thesis using poll_stretch [OF e _ st, of "drop m its" "[]"] c(1,3) assms(4) by (auto simp: e18_poll_def no_hook_def)
qed

text \<open>The poll that crashes after the effect of the record at position \<^term>\<open>p\<close>.\<close>

lemma e18_poll_crash:
  assumes "in_memory e" "committed_store its st" "durable_offset ''default'' st = Some 0" "p < length its"
  shows "\<exists>c. e18_poll False (hook_at p e) (st, a) = Some c \<and> committed_store its (co_store c) \<and>
    durable_offset ''default'' (co_store c) = Some (int p) \<and> co_actuator c = fold ia_step (map e18_record (take (Suc p) its)) a"
proof -
  let ?e = "hook_at p e"
  have e: "in_memory ?e" and s: "unreachable (pe_snap ?e p)" using assms(1) by (simp_all add: in_memory_def hook_at_def)
  let ?xs = "map e18_record (take p its)" and ?r = "e18_record (its ! p)" and ?ys = "map e18_record (drop (Suc p) its)"
  have split: "map e18_record its = ?xs @ ?r # ?ys" using id_take_nth_drop [OF assms(4)] by (metis list.simps(9) map_append)
  obtain c where c: "poll (\<lambda>_. ia_apply) False ''default'' ?e (new_consumer st a) =
      poll_from (\<lambda>_. ia_apply) False ''default'' ?e (int 0) 0 (map e18_record its) c"
    "co_store c = set_available False st" "co_actuator c = a"
    using poll_start [OF e, of st its 0 False a] assms(2,3) by (auto simp: committed_store_def)
  have st: "committed_store its (co_store c)" "durable_offset ''default'' (co_store c) = Some (int (0 + 0))"
    using assms(2,3) c(2) by (simp_all add: committed_available)
  have "\<forall>j < length (take p its). \<not> pe_crash ?e (0 + j)" using assms(4) by (simp add: hook_at_def)
  from poll_stretch [OF e this st, of "?r # ?ys"] assms(4) c(3)
  obtain c1 where c1: "poll_from (\<lambda>_. ia_apply) False ''default'' ?e (int 0) 0 (map e18_record its) c =
      poll_from (\<lambda>_. ia_apply) False ''default'' ?e (int 0) p (?r # ?ys) c1"
    "co_actuator c1 = fold ia_step ?xs a" "committed_store its (co_store c1)" "durable_offset ''default'' (co_store c1) = Some (int p)"
    unfolding split by (auto simp del: poll_from.simps)
  obtain c2 where c2: "consume (\<lambda>_. ia_apply) False ?e p ?r c1 = (c2, Some ())" "co_actuator c2 = ia_step ?r (co_actuator c1)"
    "co_store c2 = set_available False (co_store c1)"
    using consume_run [OF s refl] by blast
  have "poll_from (\<lambda>_. ia_apply) False ''default'' ?e (int 0) p (?r # ?ys) c1 = (c2, Crashed)"
    using c2(1) by (simp add: hook_at_def)
  then have "e18_poll False ?e (st, a) = Some c2" using c(1) c1(1) by (simp add: e18_poll_def)
  moreover have "map e18_record (take (Suc p) its) = ?xs @ [?r]" using assms(4) by (simp add: take_Suc_conv_app_nth)
  ultimately show ?thesis using c1 c2 by (simp add: committed_available)
qed

section \<open>Restarts, threads and an invalidation\<close>

text \<open>Between the commits the consumer has applied a prefix of the log.\<close>

definition caught_up :: "(string \<times> rat \<times> rat) list \<Rightarrow> nat \<Rightarrow> store \<times> idempotent_actuator \<Rightarrow> bool" where
  "caught_up its m sa \<longleftrightarrow>
     committed_store its (fst sa) \<and> m \<le> length its \<and> durable_offset ''default'' (fst sa) = Some (int m) \<and>
     snd sa = acted (map fst (take m its)) 0"

lemma caught_up_poll:
  assumes "in_memory e" "caught_up its m (st, a)" "distinct (map fst its)"
  shows "\<exists>c. e18_poll False (no_hook e) (st, a) = Some c \<and> caught_up its (length its) (after_poll c)"
proof -
  have d: "distinct (map fst (take m its) @ map fst (drop m its))" using assms(3) by (simp flip: map_append)
  have "fold ia_step (map e18_record (drop m its)) (acted (map fst (take m its)) 0) = acted (map fst (take m its) @ map fst (drop m its)) 0"
    using d by (intro ia_steps_fresh) auto
  then have "fold ia_step (map e18_record (drop m its)) a = acted (map fst its) 0"
    using assms(2) by (simp add: caught_up_def flip: map_append)
  then show ?thesis using e18_poll_run [OF assms(1), of its st m a] assms(2) by (auto simp: caught_up_def after_poll_def)
qed

lemma caught_up_start: "caught_up [] 0 (e18_fresh ret now, new_actuator)"
  using e18_fresh_store by (simp add: caught_up_def durable_offset_def parse_offset_def acted_def new_actuator_def)

lemma e18_restarts_run:
  assumes "\<forall>j. in_memory (polls j)"
  shows "caught_up its m sa \<Longrightarrow> distinct (map fst its @ ids) \<Longrightarrow>
    \<exists>its' m' sa'. e18_restarts clk coins polls k ids sa = Some sa' \<and> caught_up its' m' sa' \<and> map fst its' = map fst its @ ids"
proof (induction ids arbitrary: its m sa k)
  case (Cons i ids)
  let ?its = "its @ [(i, clk k)]" and ?sa = "(fst (e18_commit i (clk k) (fst sa)), snd sa)"
  have "committed_store its (fst sa)" "i \<notin> fst ` set its" using Cons.prems by (auto simp: caught_up_def)
  then have "committed_store ?its (fst ?sa)" "st_kv (fst ?sa) = st_kv (fst sa)" using e18_commit_run [of its "fst sa" i "clk k"] by auto
  then have 1: "caught_up ?its m ?sa" using Cons.prems(1) by (simp add: caught_up_def durable_offset_def)
  show ?case
  proof (cases "coins k")
    case False
    then show ?thesis using Cons.IH [OF 1, of "Suc k"] Cons.prems(2) by simp
  next
    case True
    obtain c where "e18_poll False (no_hook (polls k)) ?sa = Some c" "caught_up ?its (length ?its) (after_poll c)"
      using caught_up_poll [OF spec [OF assms, of k] 1] Cons.prems(2) by auto
    then show ?thesis using Cons.IH [of ?its "length ?its" "after_poll c" "Suc k"] Cons.prems(2) True by simp
  qed
qed auto

text \<open>The commits of an order of operations in which every thread reads before it commits.\<close>

definition op_commits :: "e18_op list \<Rightarrow> string list" where
  "op_commits ops = concat (map (\<lambda>op. case op of CommitRead i \<Rightarrow> [i] | _ \<Rightarrow> []) ops)"

lemma op_commits_simps [simp]:
  "op_commits [] = []" "op_commits (ReadVersion i # ops) = op_commits ops" "op_commits (CommitRead i # ops) = i # op_commits ops"
  by (simp_all add: op_commits_def)

lemma e18_ops_run:
  assumes "committed_store its st" "\<forall>i v. reads i = Some v \<longrightarrow> v = 1"
    and "\<forall>zs i ys. ops = zs @ CommitRead i # ys \<longrightarrow> reads i \<noteq> None \<or> ReadVersion i \<in> set zs"
    and "distinct (map fst its @ op_commits ops)"
  shows "\<exists>new. map fst new = op_commits ops \<and> committed_store (its @ new) (e18_ops clk k ops reads st) \<and> st_kv (e18_ops clk k ops reads st) = st_kv st"
  using assms
proof (induction ops arbitrary: its st reads k)
  case (Cons op ops)
  show ?case
  proof (cases op)
    case (ReadVersion i)
    have "\<forall>zs j ys. ops = zs @ CommitRead j # ys \<longrightarrow> (reads(i \<mapsto> 1)) j \<noteq> None \<or> ReadVersion j \<in> set zs"
      using Cons.prems(3) ReadVersion by (metis append_Cons fun_upd_apply option.distinct(1) set_ConsD e18_op.inject(1))
    moreover have "\<forall>j v. (reads(i \<mapsto> 1)) j = Some v \<longrightarrow> v = 1" using Cons.prems(2) by simp
    moreover have "distinct (map fst its @ op_commits ops)" using Cons.prems(4) ReadVersion by simp
    moreover have "committed_store its (set_available False st)" using Cons.prems(1) by (simp add: committed_available)
    ultimately have "\<exists>new. map fst new = op_commits ops \<and>
        committed_store (its @ new) (e18_ops clk (Suc k) ops (reads(i \<mapsto> 1)) (set_available False st)) \<and>
        st_kv (e18_ops clk (Suc k) ops (reads(i \<mapsto> 1)) (set_available False st)) = st_kv (set_available False st)"
      by (intro Cons.IH)
    then show ?thesis using e18_read_run [OF Cons.prems(1)] ReadVersion by (simp add: committed_available)
  next
    case (CommitRead i)
    let ?its = "its @ [(i, clk k)]" and ?st = "fst (e18_authorize i 1 (clk k) st)"
    have "reads i \<noteq> None" using Cons.prems(3) CommitRead by fastforce
    then have r: "reads i = Some 1" using Cons.prems(2) by blast
    have "committed_store ?its ?st" "st_kv ?st = st_kv st"
      using e18_authorize_run [OF Cons.prems(1), of i "clk k"] Cons.prems(4) CommitRead by auto
    moreover have "\<forall>zs j ys. ops = zs @ CommitRead j # ys \<longrightarrow> reads j \<noteq> None \<or> ReadVersion j \<in> set zs"
      using Cons.prems(3) CommitRead by (metis append_Cons set_ConsD e18_op.distinct(1))
    ultimately obtain new where "map fst new = op_commits ops" "committed_store (?its @ new) (e18_ops clk (Suc k) ops reads ?st)"
      "st_kv (e18_ops clk (Suc k) ops reads ?st) = st_kv st"
      using Cons.IH [of ?its ?st reads "Suc k"] Cons.prems(2,4) CommitRead by auto
    then show ?thesis using r CommitRead by (intro exI [of _ "(i, clk k) # new"]) simp
  qed
qed simp

text \<open>In an interleaving of the threads' programs the operations on an id keep their order.\<close>

lemma filter_interleaving: "ops \<in> interleavings ps \<Longrightarrow> filter P ops \<in> interleavings (map (filter P) ps)"
proof (induction ps arbitrary: ops)
  case (Cons p ps)
  then obtain q where q: "q \<in> interleavings ps" "ops \<in> shuffles p q" by auto
  then have "filter P ops \<in> shuffles (filter P p) (filter P q)" using filter_shuffles [of P p q] by blast
  then show ?case using Cons.IH [OF q(1)] by auto
qed simp

lemma interleavings_empty: "ops \<in> interleavings ps \<Longrightarrow> \<forall>p \<in> set ps. p = [] \<Longrightarrow> ops = []"
  by (induction ps arbitrary: ops) auto

lemma interleavings_single:
  "ops \<in> interleavings ps \<Longrightarrow> k < length ps \<Longrightarrow> \<forall>j < length ps. j \<noteq> k \<longrightarrow> ps ! j = [] \<Longrightarrow> ops = ps ! k"
proof (induction ps arbitrary: ops k)
  case (Cons p ps)
  then obtain q where q: "q \<in> interleavings ps" "ops \<in> shuffles p q" by auto
  show ?case
  proof (cases k)
    case 0
    have "ps ! i = []" if "i < length ps" for i using Cons.prems(3) [rule_format, of "Suc i"] that 0 by simp
    then have "\<forall>p' \<in> set ps. p' = []" by (auto simp: in_set_conv_nth)
    then show ?thesis using interleavings_empty [OF q(1)] q(2) 0 by simp
  next
    case (Suc k')
    have "p = []" using Cons.prems(3) Suc by force
    moreover have "q = ps ! k'" using Cons.IH [OF q(1), of k'] Cons.prems(2,3) Suc by force
    ultimately show ?thesis using q(2) Suc by simp
  qed
qed simp

lemma filter_program:
  "distinct ids \<Longrightarrow> filter (\<lambda>op. op_id op = i) (thread_program ids) = (if i \<in> set ids then [ReadVersion i, CommitRead i] else [])"
  by (induction ids) (auto simp: thread_program_def)

lemma stride_distinct: "distinct ids \<Longrightarrow> distinct (stride k s ids)"
  by (auto simp: stride_def distinct_map intro!: inj_onI simp: nth_eq_iff_index_eq)

lemma stride_mem:
  assumes "distinct ids" "j < length ids" "k < s"
  shows "ids ! j \<in> set (stride k s ids) \<longleftrightarrow> k = j mod s"
proof -
  have "ids ! j \<in> set (stride k s ids) \<longleftrightarrow> k \<le> j \<and> (j - k) mod s = 0"
    using assms(1,2) by (auto simp: stride_def nth_eq_iff_index_eq)
  also have "\<dots> \<longleftrightarrow> k = j mod s"
  proof
    assume "k \<le> j \<and> (j - k) mod s = 0"
    then have "j = k + s * ((j - k) div s)" by (metis add.commute add_0 add_diff_inverse_nat div_mult_mod_eq linorder_not_less mult.commute)
    then show "k = j mod s" using assms(3) by (metis mod_less mod_mult_self2)
  next
    assume "k = j mod s"
    then show "k \<le> j \<and> (j - k) mod s = 0" by (simp add: minus_mod_eq_mult_div)
  qed
  finally show ?thesis .
qed

lemma schedule_filter:
  assumes "ops \<in> e18_schedules ids" "distinct ids"
  shows "filter (\<lambda>op. op_id op = i) ops = (if i \<in> set ids then [ReadVersion i, CommitRead i] else [])"
proof -
  let ?ps = "map (\<lambda>k. filter (\<lambda>op. op_id op = i) (thread_program (stride k 8 ids))) [0..<8]"
  have "filter (\<lambda>op. op_id op = i) ops \<in> interleavings ?ps"
    using filter_interleaving [OF assms(1) [unfolded e18_schedules_def], of "\<lambda>op. op_id op = i"] by (simp add: comp_def)
  moreover have nth: "?ps ! k = (if i \<in> set (stride k 8 ids) then [ReadVersion i, CommitRead i] else [])" if "k < 8" for k
    using that filter_program [OF stride_distinct [OF assms(2)]] by simp
  have len: "length ?ps = 8" by simp
  show ?thesis
  proof (cases "i \<in> set ids")
    case True
    then obtain j where j: "j < length ids" "i = ids ! j" by (auto simp: in_set_conv_nth)
    have "?ps ! k = (if k = j mod 8 then [ReadVersion i, CommitRead i] else [])" if "k < 8" for k
      using nth [OF that] stride_mem [OF assms(2) j(1) that] j(2) by simp
    then show ?thesis using interleavings_single [OF calculation, of "j mod 8"] True unfolding len by simp
  next
    case False
    then have "i \<notin> set (stride k 8 ids)" for k by (auto simp: stride_def)
    then have "\<forall>p \<in> set ?ps. p = []" using nth unfolding in_set_conv_nth len by auto
    then show ?thesis using interleavings_empty [OF calculation] False by simp
  qed
qed

lemma op_commits_append: "op_commits (xs @ ys) = op_commits xs @ op_commits ys"
  by (simp add: op_commits_def)

lemma filter_op_commits: "filter ((=) i) (op_commits ops) = op_commits (filter (\<lambda>op. op_id op = i) ops)"
proof (induction ops)
  case (Cons op ops)
  then show ?case by (cases op) auto
qed simp

lemma distinct_filter: "(\<And>x. length (filter ((=) x) xs) \<le> 1) \<Longrightarrow> distinct xs"
proof (induction xs)
  case (Cons y ys)
  have "length (filter ((=) x) ys) \<le> 1" for x using Cons.prems [of x] by (simp split: if_splits)
  moreover have "y \<notin> set ys" using Cons.prems [of y] by (auto simp: filter_empty_conv)
  ultimately show ?case using Cons.IH by simp
qed simp

lemma schedule_commits:
  assumes "ops \<in> e18_schedules ids" "distinct ids"
  shows "distinct (op_commits ops)" "set (op_commits ops) = set ids"
    "ops = zs @ CommitRead i # ys \<Longrightarrow> ReadVersion i \<in> set zs"
proof -
  have f: "filter ((=) i) (op_commits ops) = (if i \<in> set ids then [i] else [])" for i
    by (simp add: filter_op_commits schedule_filter [OF assms])
  show "distinct (op_commits ops)" by (rule distinct_filter) (simp add: f)
  have "i \<in> set (op_commits ops) \<longleftrightarrow> filter ((=) i) (op_commits ops) \<noteq> []" for i by (auto simp: filter_empty_conv)
  then have "i \<in> set (op_commits ops) \<longleftrightarrow> i \<in> set ids" for i unfolding f by simp
  then show "set (op_commits ops) = set ids" by blast
  assume "ops = zs @ CommitRead i # ys"
  then have "filter (\<lambda>op. op_id op = i) zs @ CommitRead i # filter (\<lambda>op. op_id op = i) ys = (if i \<in> set ids then [ReadVersion i, CommitRead i] else [])"
    using schedule_filter [OF assms, of i] by simp
  then have "hd (filter (\<lambda>op. op_id op = i) zs) = ReadVersion i \<and> filter (\<lambda>op. op_id op = i) zs \<noteq> []"
    by (cases "filter (\<lambda>op. op_id op = i) zs") (simp_all split: if_splits)
  then have "ReadVersion i \<in> set (filter (\<lambda>op. op_id op = i) zs)" by (metis list.set_sel(1))
  then show "ReadVersion i \<in> set zs" by simp
qed

text \<open>With the recheck, after the line was paused, every command is flagged and withheld.\<close>

definition paused_store :: "(string \<times> rat \<times> rat) list \<Rightarrow> store \<Rightarrow> bool" where
  "paused_store its st \<longleftrightarrow>
     \<not> st_required st \<and> st_layout st = Document \<and> read_set_version (sn_pv (st_snap st)) E18_PATHS = 2 \<and> st_actuations st = map e18_record its"

lemma pause_run:
  assumes "committed_store its st"
  shows "paused_store its (fst (update_store ret now (e18_state ''PAUSED'') NoClient st))"
    "st_kv (fst (update_store ret now (e18_state ''PAUSED'') NoClient st)) = st_kv st"
proof -
  have "read_set_version (sn_pv (apply_patch ret now (e18_state ''PAUSED'') run_snap)) E18_PATHS = 2"
    unfolding apply_patch_def run_snap_def e18_state_def E18_PATHS_def Let_def snap.simps by code_simp
  then show "paused_store its (fst (update_store ret now (e18_state ''PAUSED'') NoClient st))"
    "st_kv (fst (update_store ret now (e18_state ''PAUSED'') NoClient st)) = st_kv st"
    using assms by (simp_all add: update_store_def redis_first_def set_available_def committed_store_def paused_store_def)
qed

lemma consume_paused:
  assumes "unreachable (pe_snap e k)" "paused_store its (co_store c)"
  shows "\<exists>c1. consume (\<lambda>_. ia_apply) True e k (e18_record it) c = (c1, Some ()) \<and> co_actuator c1 = co_actuator c \<and> paused_store its (co_store c1) \<and>
    co_invalidated c1 = co_invalidated c @ [fst it] \<and> co_withheld c1 = co_withheld c @ [fst it]"
proof -
  have "snapshot_with_predicates [] (pe_snap e k) (co_store c) =
      (set_available False (co_store c), only_preds [] (st_snap (co_store c)), True)"
    using assms by (cases "st_snap (co_store c)")
      (simp add: snapshot_with_predicates_def snapshot_full_def redis_first_unreachable set_available_def paused_store_def)
  moreover have "version_moved (e18_record it) (only_preds [] (st_snap (co_store c))) True"
    using assms(2) by (simp add: version_moved_def current_version_def only_preds_def paused_store_def)
  moreover have "paused_store its (set_available False (co_store c))" using assms(2) by (simp add: paused_store_def set_available_def)
  ultimately show ?thesis by (simp add: consume_def Let_def)
qed

lemma poll_paused:
  assumes "in_memory e"
  shows "\<forall>j < length xs. \<not> pe_crash e (k + j) \<Longrightarrow> paused_store its (co_store c) \<Longrightarrow>
    \<exists>c1. poll_from (\<lambda>_. ia_apply) True name e (int m) k (map e18_record xs) c = (c1, Polled (k + length xs)) \<and>
      co_actuator c1 = co_actuator c \<and> st_actuations (co_store c1) = map e18_record its \<and>
      co_invalidated c1 = co_invalidated c @ map fst xs \<and> co_withheld c1 = co_withheld c @ map fst xs"
proof (induction xs arbitrary: k c)
  case (Cons it xs)
  have u: "unreachable (pe_snap e k)" "unreachable (pe_set e k)" using assms by (simp_all add: in_memory_def)
  obtain c1 where c1: "consume (\<lambda>_. ia_apply) True e k (e18_record it) c = (c1, Some ())" "co_actuator c1 = co_actuator c"
    "paused_store its (co_store c1)" "co_invalidated c1 = co_invalidated c @ [fst it]" "co_withheld c1 = co_withheld c @ [fst it]"
    using consume_paused [OF u(1) Cons.prems(2)] by blast
  have req: "\<not> st_required (co_store c1)" using c1(3) by (simp add: paused_store_def)
  obtain c2 where c2: "move_offset name e k (int m + int k + 1) c1 = (c2, Some ())" "co_actuator c2 = co_actuator c1"
    "paused_store its (co_store c2)" "co_invalidated c2 = co_invalidated c1" "co_withheld c2 = co_withheld c1"
    unfolding move_offset_memory [OF u(2) req] using c1(3) by (simp add: paused_store_def)
  have ncr: "\<not> pe_crash e k" using Cons.prems(1) by force
  have ncr': "\<forall>j < length xs. \<not> pe_crash e (Suc k + j)" using Cons.prems(1) by (metis Suc_less_eq add_Suc_shift length_Cons)
  have "poll_from (\<lambda>_. ia_apply) True name e (int m) k (map e18_record (it # xs)) c = poll_from (\<lambda>_. ia_apply) True name e (int m) (Suc k) (map e18_record xs) c2"
    using c1(1) c2(1) ncr by simp
  then show ?case using Cons.IH [OF ncr' c2(3)] c1 c2 by auto
qed (simp add: paused_store_def)

lemma e18_poll_paused:
  assumes "in_memory e" "paused_store its st" "durable_offset ''default'' st = Some 0"
  shows "\<exists>c. e18_poll True (no_hook e) (st, a) = Some c \<and> co_actuator c = a \<and> st_actuations (co_store c) = map e18_record its \<and>
    co_invalidated c = map fst its \<and> co_withheld c = map fst its"
proof -
  have e: "in_memory (no_hook e)" using assms(1) by (simp add: in_memory_def no_hook_def)
  obtain c where c: "poll (\<lambda>_. ia_apply) True ''default'' (no_hook e) (new_consumer st a) =
      poll_from (\<lambda>_. ia_apply) True ''default'' (no_hook e) (int 0) 0 (map e18_record its) c"
    "co_store c = set_available False st" "co_actuator c = a" "co_invalidated c = []" "co_withheld c = []"
    using poll_start [OF e, of st its 0 True a] assms(2,3) by (auto simp: paused_store_def)
  have "paused_store its (co_store c)" using assms(2) c(2) by (simp add: paused_store_def set_available_def)
  then show ?thesis using poll_paused [OF e, of its 0 its c "''default''" 0] c by (auto simp: e18_poll_def no_hook_def)
qed

section \<open>The rows\<close>

lemma e18_ids_distinct: "distinct (e18_ids name n)" "length (e18_ids name n) = n"
proof -
  have "inj show_nat" by (metis injI nat_of_digits_show)
  then show "distinct (e18_ids name n)" by (auto simp: e18_ids_def distinct_map intro!: inj_onI dest: injD)
qed (simp add: e18_ids_def)

lemma those_Some [simp]: "those (map Some xs) = Some xs"
  by (induction xs) auto

lemma log_ids: "st_actuations st = map e18_record its \<Longrightarrow> those (map record_id (snd (actuation_log 0 NoClient st))) = Some (map fst its)"
  using those_Some [of "map fst its"] by (simp add: actuation_log_def redis_first_def set_available_def slice_from_def comp_def)

lemma e18_scenario_row:
  assumes "e18_run name e (e18_ids name n) = Some ((st, acted effs s), extra)" "st_actuations st = map e18_record its"
    and "distinct (map fst its)" "fst ` set its = set (e18_ids name n)" "distinct effs"
  shows "e18_scenario name e n = Some
    \<lparr>e8_n = n, e8_log_records = n, e8_distinct_logged = n, e8_effects = length effs, e8_distinct_effects = length effs, e8_duplicate_effects = 0,
     e8_lost = (if name \<noteq> ''post_commit_invalidation'' then Some (length (filter (\<lambda>i. i \<notin> set effs) (e18_ids name n))) else None),
     e8_suppressed = s, e8_extra = extra\<rparr>"
proof -
  have "length (map fst its) = card (set (map fst its))" using assms(3) by (metis distinct_card)
  also have "\<dots> = n" using assms(4) e18_ids_distinct [of name n] by (simp add: distinct_card)
  finally have "length its = n" by simp
  moreover have "length (remdups (map fst its)) = length its" "length (remdups effs) = length effs"
    using assms(3,5) distinct_remdups_id [of effs] distinct_remdups_id [of "map fst its"] by (metis length_map, metis)
  moreover have "remdups (filter P (e18_ids name n)) = filter P (e18_ids name n)" for P by (simp add: distinct_remdups_id e18_ids_distinct)
  ultimately show ?thesis using assms(1,5) log_ids [OF assms(2)] by (simp add: e18_scenario_def acted_def distinct_remdups_id)
qed

lemma versions_monotone_log: "versions_monotone (map e18_record its)"
proof -
  have "\<exists>i j. a = e18_record i \<and> b = e18_record j" if "(a, b) \<in> set (zip (map e18_record its) (tl (map e18_record its)))" for a b
    using set_zip_leftD [OF that] set_zip_rightD [OF that] list.set_sel(2) [of "map e18_record its"] by (cases its) auto
  then show ?thesis by (fastforce simp: versions_monotone_def list_all_iff)
qed

text \<open>After a commit of every id once, with nothing applied yet.\<close>

lemma e18_all_committed:
  "\<exists>its. map fst its = e18_ids name n \<and> caught_up its 0 (fst (e18_commits clk 0 (e18_ids name n) (e18_fresh ret now)), new_actuator)"
  using e18_commits_run [OF e18_fresh_store(1) [of ret now] e18_ids_distinct(1) [of name n], of clk 0] e18_fresh_store(2) [of ret now]
  by (auto simp: caught_up_def durable_offset_def parse_offset_def acted_def new_actuator_def)

text \<open>What each scenario leaves: a log of all ids and the effects of the actuator.\<close>

definition leaves :: "string \<Rightarrow> e18_env \<Rightarrow> nat \<Rightarrow> bool \<Rightarrow> nat \<Rightarrow> (string \<times> nat) list \<Rightarrow> bool" where
  "leaves name e n all s extra \<longleftrightarrow>
     (\<exists>st its. e18_run name e (e18_ids name n) = Some ((st, acted (if all then map fst its else []) s), extra) \<and>
        st_actuations st = map e18_record its \<and> distinct (map fst its) \<and> fst ` set its = set (e18_ids name n))"

lemma caught_up_leaves:
  assumes "caught_up its (length its) (after_poll c)" "e18_run name e (e18_ids name n) = Some (after_poll c, extra)"
    and "distinct (map fst its)" "fst ` set its = set (e18_ids name n)"
  shows "leaves name e n True 0 extra"
  using assms unfolding leaves_def
  by (intro exI [of _ "co_store c"] exI [of _ its]) (simp add: caught_up_def committed_store_def after_poll_def)

lemma ids_image: "map fst its = e18_ids name n \<Longrightarrow> distinct (map fst its) \<and> fst ` set its = set (e18_ids name n)"
  by (metis e18_ids_distinct(1) list.set_map)

lemma gateway_crash:
  assumes mem: "\<forall>j. in_memory (ee_polls e j)"
  shows "leaves ''gateway_crash_after_commit'' e n True 0 []"
proof -
  let ?ids = "e18_ids ''gateway_crash_after_commit'' n"
  let ?st = "fst (e18_commits (ee_clock e) 0 ?ids (e18_fresh (ee_ret e) (ee_start e)))"
  obtain its where its: "map fst its = ?ids" "caught_up its 0 (?st, new_actuator)" using e18_all_committed by blast
  obtain c where "e18_poll False (no_hook (ee_polls e 0)) (?st, new_actuator) = Some c" "caught_up its (length its) (after_poll c)"
    using caught_up_poll [OF spec [OF mem, of 0] its(2)] ids_image [OF its(1)] by blast
  then show ?thesis using ids_image [OF its(1)] by (intro caught_up_leaves [of its c]) (simp_all add: e18_run_def Let_def)
qed

lemma duplicate_commit:
  assumes mem: "\<forall>j. in_memory (ee_polls e j)"
  shows "leaves ''duplicate_commit'' e n True 0 [(''refused_duplicates'', n)]"
proof -
  let ?ids = "e18_ids ''duplicate_commit'' n"
  obtain st dup where r: "e18_commits (ee_clock e) 0 (concat (map (\<lambda>i. [i, i]) ?ids)) (e18_fresh (ee_ret e) (ee_start e)) = (st, dup)" by fastforce
  obtain its where its: "map fst its = ?ids" "committed_store its st" "st_kv st = []" "count_list dup Duplicate = n"
    using e18_commits_twice [OF e18_fresh_store(1) [of "ee_ret e" "ee_start e"] e18_ids_distinct(1) [of "''duplicate_commit''" n], of "ee_clock e" 0]
      e18_fresh_store(2) [of "ee_ret e" "ee_start e"] r by (auto simp: e18_ids_distinct)
  have up: "caught_up its 0 (st, new_actuator)"
    using its by (simp add: caught_up_def durable_offset_def parse_offset_def acted_def new_actuator_def)
  obtain c where "e18_poll False (no_hook (ee_polls e 0)) (st, new_actuator) = Some c" "caught_up its (length its) (after_poll c)"
    using caught_up_poll [OF spec [OF mem, of 0] up] ids_image [OF its(1)] by blast
  then show ?thesis using ids_image [OF its(1)] its(4) r by (intro caught_up_leaves [of its c]) (simp_all add: e18_run_def Let_def)
qed

lemma consumer_crash:
  assumes mem: "\<forall>j. in_memory (ee_polls e j)" and "ee_crash_at e < n"
  shows "leaves ''consumer_crash_after_apply'' e n True 1 [(''crash_position'', ee_crash_at e)]"
proof -
  let ?ids = "e18_ids ''consumer_crash_after_apply'' n" and ?p = "ee_crash_at e"
  let ?st = "fst (e18_commits (ee_clock e) 0 ?ids (e18_fresh (ee_ret e) (ee_start e)))"
  obtain its where its: "map fst its = ?ids" "caught_up its 0 (?st, new_actuator)" using e18_all_committed by blast
  have len: "length its = n" using its(1) e18_ids_distinct(2) by (metis length_map)
  have d: "distinct (map fst its)" using ids_image [OF its(1)] by blast
  have new: "new_actuator = acted [] 0" by (simp add: new_actuator_def acted_def)
  obtain c where c: "e18_poll False (hook_at ?p (ee_polls e 0)) (?st, new_actuator) = Some c" "committed_store its (co_store c)"
    "durable_offset ''default'' (co_store c) = Some (int ?p)" "co_actuator c = fold ia_step (map e18_record (take (Suc ?p) its)) new_actuator"
    using e18_poll_crash [OF spec [OF mem, of 0], of its ?st ?p new_actuator] its(2) assms len by (auto simp: caught_up_def)
  have take: "distinct (map fst (take (Suc ?p) its))" using d by (simp add: distinct_take flip: take_map)
  have 1: "co_actuator c = acted (map fst (take (Suc ?p) its)) 0"
    using ia_steps_fresh [OF take, of "[]" 0] c(4) unfolding new by simp
  obtain c2 where c2: "e18_poll False (no_hook (ee_polls e 1)) (after_poll c) = Some c2" "committed_store its (co_store c2)"
    "co_actuator c2 = fold ia_step (map e18_record (drop ?p its)) (co_actuator c)"
    using e18_poll_run [OF spec [OF mem, of 1] c(2,3), of "co_actuator c"] assms len by (auto simp: after_poll_def)
  have split: "drop ?p its = its ! ?p # drop (Suc ?p) its" using assms len by (simp add: Cons_nth_drop_Suc)
  have "fst (its ! ?p) \<in> set (map fst (take (Suc ?p) its))" using assms len by (auto simp: take_Suc_conv_app_nth)
  then have again: "ia_step (e18_record (its ! ?p)) (acted (map fst (take (Suc ?p) its)) 0) = acted (map fst (take (Suc ?p) its)) 1"
    by (simp add: ia_step_acted)
  have rest: "distinct (map fst (take (Suc ?p) its) @ map fst (drop (Suc ?p) its))" using d by (simp flip: map_append)
  have "fold ia_step (map e18_record (drop (Suc ?p) its)) (acted (map fst (take (Suc ?p) its)) 1) =
      acted (map fst (take (Suc ?p) its) @ map fst (drop (Suc ?p) its)) 1"
    using rest by (intro ia_steps_fresh) auto
  then have "co_actuator c2 = acted (map fst its) 1"
    unfolding c2(3) 1 split by (simp add: again flip: map_append)
  then show ?thesis using c(1) c2 ids_image [OF its(1)] unfolding leaves_def
    by (intro exI [of _ "co_store c2"] exI [of _ its]) (simp add: e18_run_def Let_def committed_store_def after_poll_def)
qed

lemma consumer_restarts:
  assumes mem: "\<forall>j. in_memory (ee_polls e j)"
  shows "leaves ''consumer_restarts'' e n True 0 []"
proof -
  let ?ids = "e18_ids ''consumer_restarts'' n" and ?st = "e18_fresh (ee_ret e) (ee_start e)"
  obtain its m st a where r: "e18_restarts (ee_clock e) (ee_coins e) (ee_polls e) 0 ?ids (?st, new_actuator) = Some (st, a)"
    "caught_up its m (st, a)" "map fst its = ?ids"
    using e18_restarts_run [OF mem caught_up_start [of "ee_ret e" "ee_start e"], of ?ids "ee_clock e" "ee_coins e" 0] e18_ids_distinct(1) by auto
  obtain c where "e18_poll False (no_hook (ee_polls e (length ?ids))) (st, a) = Some c" "caught_up its (length its) (after_poll c)"
    using caught_up_poll [OF spec [OF mem, of "length ?ids"] r(2)] ids_image [OF r(3)] by blast
  then show ?thesis using ids_image [OF r(3)] r(1) by (intro caught_up_leaves [of its c]) (simp_all add: e18_run_def Let_def)
qed

lemma concurrent_commits:
  assumes mem: "\<forall>j. in_memory (ee_polls e j)" and sched: "ee_schedule e \<in> e18_schedules (e18_ids ''concurrent_commits'' n)"
  shows "leaves ''concurrent_commits'' e n True 0 [(''effects_in_commit_order'', 1), (''commit_versions_monotone'', 1)]"
proof -
  let ?ids = "e18_ids ''concurrent_commits'' n" and ?st = "e18_ops (ee_clock e) 0 (ee_schedule e) Map.empty (e18_fresh (ee_ret e) (ee_start e))"
  note sch = schedule_commits [OF sched e18_ids_distinct(1)]
  obtain its where its: "map fst its = op_commits (ee_schedule e)" "committed_store its ?st" "st_kv ?st = []"
    using e18_ops_run [OF e18_fresh_store(1) [of "ee_ret e" "ee_start e"], of Map.empty "ee_schedule e" "ee_clock e" 0] sch
      e18_fresh_store(2) [of "ee_ret e" "ee_start e"] by auto
  have i: "distinct (map fst its)" "fst ` set its = set ?ids" using its(1) sch(1,2) by (simp, metis list.set_map)
  have "caught_up its 0 (?st, new_actuator)"
    using its by (simp add: caught_up_def durable_offset_def parse_offset_def acted_def new_actuator_def)
  then obtain c where c: "e18_poll False (no_hook (ee_polls e 0)) (?st, new_actuator) = Some c" "caught_up its (length its) (after_poll c)"
    using caught_up_poll [OF spec [OF mem, of 0] _ i(1)] by blast
  have lg: "st_actuations (co_store c) = map e18_record its" "ia_effects (co_actuator c) = map fst its"
    using c(2) by (simp_all add: caught_up_def committed_store_def after_poll_def acted_def)
  have "snd (actuation_log 0 NoClient (co_store c)) = map e18_record its"
    using lg(1) by (simp add: actuation_log_def redis_first_def set_available_def slice_from_def)
  then have "e18_run ''concurrent_commits'' e ?ids = Some (after_poll c, [(''effects_in_commit_order'', 1), (''commit_versions_monotone'', 1)])"
    using c(1) log_ids [OF lg(1)] lg(2) by (simp add: e18_run_def Let_def versions_monotone_log bit_of_def)
  then show ?thesis using c(2) i by (intro caught_up_leaves)
qed

lemma post_commit_invalidation:
  assumes mem: "\<forall>j. in_memory (ee_polls e j)"
  shows "leaves ''post_commit_invalidation'' e n False 0 [(''flagged'', n), (''withheld'', n)]"
proof -
  let ?ids = "e18_ids ''post_commit_invalidation'' n"
  let ?st = "fst (e18_commits (ee_clock e) 0 ?ids (e18_fresh (ee_ret e) (ee_start e)))"
  let ?st1 = "fst (update_store (ee_ret e) (ee_pause e) (e18_state ''PAUSED'') NoClient ?st)"
  obtain its where its: "map fst its = ?ids" "caught_up its 0 (?st, new_actuator)" using e18_all_committed by blast
  then have "committed_store its ?st" "durable_offset ''default'' ?st = Some 0" by (simp_all add: caught_up_def)
  then have "paused_store its ?st1" "durable_offset ''default'' ?st1 = Some 0"
    using pause_run [of its ?st "ee_ret e" "ee_pause e"] by (simp_all add: durable_offset_def)
  then obtain c where c: "e18_poll True (no_hook (ee_polls e 0)) (?st1, new_actuator) = Some c" "co_actuator c = new_actuator"
    "st_actuations (co_store c) = map e18_record its" "co_invalidated c = map fst its" "co_withheld c = map fst its"
    using e18_poll_paused [OF spec [OF mem, of 0]] by blast
  have "length its = n" using its(1) e18_ids_distinct(2) by (metis length_map)
  then show ?thesis using c ids_image [OF its(1)] unfolding leaves_def
    by (intro exI [of _ "co_store c"] exI [of _ its]) (simp add: e18_run_def Let_def after_poll_def acted_def new_actuator_def)
qed

section \<open>Properties\<close>

lemma leaves_row:
  assumes "leaves name e n all s extra" "all \<longleftrightarrow> name \<noteq> ''post_commit_invalidation''"
  shows "e18_scenario name e n = Some
    \<lparr>e8_n = n, e8_log_records = n, e8_distinct_logged = n, e8_effects = (if all then n else 0), e8_distinct_effects = (if all then n else 0),
     e8_duplicate_effects = 0, e8_lost = (if all then Some 0 else None), e8_suppressed = s, e8_extra = extra\<rparr>"
proof -
  obtain st its where r: "e18_run name e (e18_ids name n) = Some ((st, acted (if all then map fst its else []) s), extra)"
    "st_actuations st = map e18_record its" "distinct (map fst its)" "fst ` set its = set (e18_ids name n)"
    using assms(1) by (auto simp: leaves_def)
  have "length (map fst its) = n" using r(3,4) e18_ids_distinct [of name n] by (metis distinct_card list.set_map)
  then show ?thesis using e18_scenario_row [OF r] r(3,4) assms(2) by (auto simp: filter_empty_conv)
qed

text \<open>
  C18: the result of every fault scenario is determined by the number of its commands. Whatever the clocks, the coins of the
  restarts, the position of the crash and the interleaving of the eight threads' reads and commits: every id is logged once;
  each command takes effect exactly once and none is lost, also if the gateway dies, every commit is repeated, or the consumer crashes or
  restarts; the crash after an effect replays exactly one record, which the actuator suppresses; each repeated commit is refused;
  the threads' effects follow the commit order with versions that never decrease; and after an invalidation all commands are
  flagged and withheld, and none takes effect.
\<close>

theorem e18_rows_determined:
  assumes "\<forall>j. in_memory (ee_polls e j)" "name \<in> set E18_SCENARIOS"
    and "name = ''consumer_crash_after_apply'' \<Longrightarrow> ee_crash_at e < n"
    and "name = ''concurrent_commits'' \<Longrightarrow> ee_schedule e \<in> e18_schedules (e18_ids name n)"
  shows "e18_scenario name e n = Some
    (let applied = (if name = ''post_commit_invalidation'' then 0 else n) in
     \<lparr>e8_n = n, e8_log_records = n, e8_distinct_logged = n, e8_effects = applied, e8_distinct_effects = applied, e8_duplicate_effects = 0,
      e8_lost = (if name = ''post_commit_invalidation'' then None else Some 0),
      e8_suppressed = (if name = ''consumer_crash_after_apply'' then 1 else 0),
      e8_extra =
        (if name = ''duplicate_commit'' then [(''refused_duplicates'', n)]
         else if name = ''consumer_crash_after_apply'' then [(''crash_position'', ee_crash_at e)]
         else if name = ''concurrent_commits'' then [(''effects_in_commit_order'', 1), (''commit_versions_monotone'', 1)]
         else if name = ''post_commit_invalidation'' then [(''flagged'', n), (''withheld'', n)] else [])\<rparr>)"
proof -
  consider "name = ''gateway_crash_after_commit''" | "name = ''duplicate_commit''" | "name = ''consumer_crash_after_apply''"
    | "name = ''consumer_restarts''" | "name = ''concurrent_commits''" | "name = ''post_commit_invalidation''"
    using assms(2) unfolding E18_SCENARIOS_def list.set insert_iff empty_iff by satx
  then show ?thesis
  proof cases
    case 1 then show ?thesis using leaves_row [OF gateway_crash [OF assms(1)], of n] by simp
  next
    case 2 then show ?thesis using leaves_row [OF duplicate_commit [OF assms(1)], of n] by simp
  next
    case 3 then show ?thesis using leaves_row [OF consumer_crash [OF assms(1)], of n] assms(3) by simp
  next
    case 4 then show ?thesis using leaves_row [OF consumer_restarts [OF assms(1)], of n] by simp
  next
    case 5 then show ?thesis using leaves_row [OF concurrent_commits [OF assms(1)], of n] assms(4) by simp
  next
    case 6 then show ?thesis using leaves_row [OF post_commit_invalidation [OF assms(1)], of n] by simp
  qed
qed

theorem e18_rows_determined_witness:
  "map_option e8_extra (e18_scenario ''concurrent_commits''
     \<lparr>ee_ret = 3600, ee_start = 1, ee_pause = 2, ee_clock = (\<lambda>k. (2, 3)), ee_polls = (\<lambda>_. demo_poll 9), ee_crash_at = 0, ee_coins = (\<lambda>_. False),
      ee_schedule = [ReadVersion ''concurrent_commits-0'', ReadVersion ''concurrent_commits-1'', CommitRead ''concurrent_commits-1'',
        CommitRead ''concurrent_commits-0'']\<rparr> 2) = Some [(''effects_in_commit_order'', 1), (''commit_versions_monotone'', 1)]"
proof -
  let ?e = "\<lparr>ee_ret = 3600, ee_start = 1, ee_pause = 2, ee_clock = (\<lambda>k. (2, 3)), ee_polls = (\<lambda>_. demo_poll 9), ee_crash_at = 0, ee_coins = (\<lambda>_. False),
      ee_schedule = [ReadVersion ''concurrent_commits-0'', ReadVersion ''concurrent_commits-1'', CommitRead ''concurrent_commits-1'',
        CommitRead ''concurrent_commits-0'']\<rparr>"
  have "[ReadVersion ''concurrent_commits-0'', ReadVersion ''concurrent_commits-1'', CommitRead ''concurrent_commits-1'', CommitRead ''concurrent_commits-0'']
    \<in> e18_schedules (e18_ids ''concurrent_commits'' 2)" by code_simp
  moreover have "in_memory (demo_poll 9)" by (simp add: in_memory_def demo_poll_def unreachable_def)
  ultimately show ?thesis using e18_rows_determined [of ?e "''concurrent_commits''" 2] by (simp add: E18_SCENARIOS_def)
qed

end
