(* ===== verification/Telemetry.thy ===== *)
theory Telemetry
  imports Json_Context
begin

text \<open>
  \<^verbatim>\<open>experiments/uci_hydraulic.py\<close>: the recording of a hydraulic test rig as the stream of context updates that a subscription
  with a publishing interval delivers. A notification carries the values that changed since the previous one, and the
  condition variables at the start of each load cycle. The recording is given; samples are rationals.
\<close>

section \<open>The recording\<close>

definition RATES_HZ :: "(string \<times> rat) list" where
  "RATES_HZ =
     [(''PS1'', 100), (''PS2'', 100), (''PS3'', 100), (''PS4'', 100), (''PS5'', 100), (''PS6'', 100), (''EPS1'', 100), (''FS1'', 10), (''FS2'', 10),
      (''TS1'', 1), (''TS2'', 1), (''TS3'', 1), (''TS4'', 1), (''VS1'', 1), (''CE'', 1), (''CP'', 1), (''SE'', 1)]"

definition CYCLE_S :: rat where
  "CYCLE_S = 60"

type_synonym sensors = "(string, rat list list) dict"
type_synonym readings = "(string, rat) dict"

text \<open>One sample; \<^const>\<open>None\<close> is a \<^verbatim>\<open>KeyError\<close> or an \<^verbatim>\<open>IndexError\<close>.\<close>

definition sample :: "sensors \<Rightarrow> nat \<Rightarrow> rat \<Rightarrow> string \<Rightarrow> rat \<Rightarrow> rat option" where
  "sample sensors cycle offset name rate =
     (case map_of sensors name of
        None \<Rightarrow> None
      | Some cycles \<Rightarrow>
          if cycle < length cycles \<and> cycles ! cycle \<noteq> []
          then Some (cycles ! cycle ! min (nat \<lfloor>offset * rate\<rfloor>) (length (cycles ! cycle) - 1)) else None)"

section \<open>Notifications\<close>

text \<open>The loop over the tags: what is published, and the last published values.\<close>

fun changed_tags :: "sensors \<Rightarrow> nat \<Rightarrow> rat \<Rightarrow> (string \<times> rat) list \<Rightarrow> readings \<Rightarrow> (readings \<times> readings) option" where
  "changed_tags sensors cycle offset [] latest = Some ([], latest)"
| "changed_tags sensors cycle offset ((name, rate) # rates) latest =
     (case sample sensors cycle offset name rate of
        None \<Rightarrow> None
      | Some v \<Rightarrow>
          if map_of latest name \<noteq> Some v
          then map_option (\<lambda>(tele, latest'). ((name, v) # tele, latest')) (changed_tags sensors cycle offset rates (dict_set name v latest))
          else changed_tags sensors cycle offset rates latest)"

definition as_floats :: "readings \<Rightarrow> json" where
  "as_floats d = JObj (map (\<lambda>(k, v). (k, JFloat (Fin v))) d)"

definition cycle_of :: "rat \<Rightarrow> nat" where
  "cycle_of t = nat \<lfloor>t / CYCLE_S\<rfloor>"

definition within_cycle :: "rat \<Rightarrow> rat" where
  "within_cycle t = t - CYCLE_S * of_int \<lfloor>t / CYCLE_S\<rfloor>"

text \<open>One pass of the loop: the patch, and the last published values.\<close>

definition tick :: "sensors \<Rightarrow> readings list \<Rightarrow> rat \<Rightarrow> rat \<Rightarrow> readings \<Rightarrow> (ctx \<times> readings) option" where
  "tick sensors profile step t latest =
     (case changed_tags sensors (cycle_of t) (within_cycle t) RATES_HZ latest of
        None \<Rightarrow> None
      | Some (tele, latest') \<Rightarrow>
          Some ((if tele \<noteq> [] then [(''telemetry'', as_floats tele)] else []) @
                (if within_cycle t < step then [(''rig'', as_floats (profile ! cycle_of t))] else []), latest'))"

text \<open>\<^verbatim>\<open>round(t + step, 6)\<close>.\<close>

definition next_time :: "rat \<Rightarrow> rat \<Rightarrow> rat" where
  "next_time step t = of_int (round_half_even ((t + step) * 1000000)) / 1000000"

text \<open>\<^const>\<open>None\<close> is an exception, or no return.\<close>

partial_function (option) notification_loop ::
  "sensors \<Rightarrow> readings list \<Rightarrow> rat \<Rightarrow> rat \<Rightarrow> readings \<Rightarrow> (rat \<times> ctx) list \<Rightarrow> (rat \<times> ctx) list option" where
  "notification_loop sensors profile step t latest out =
     (if t < of_nat (length profile) * CYCLE_S
      then (case tick sensors profile step t latest of
              None \<Rightarrow> None
            | Some (patch, latest') \<Rightarrow>
                notification_loop sensors profile step (next_time step t) latest' (if patch \<noteq> [] then out @ [(t, patch)] else out))
      else Some out)"

definition notifications :: "sensors \<Rightarrow> readings list \<Rightarrow> rat \<Rightarrow> (rat \<times> ctx) list option" where
  "notifications sensors profile publishing_interval_ms = notification_loop sensors profile (publishing_interval_ms / 1000) 0 [] []"

section \<open>The instants\<close>

lemma round_half_even_bounds: "x - 1 / 2 \<le> of_int (round_half_even x)" "of_int (round_half_even x) \<le> x + 1 / 2"
  unfolding round_half_even_def Let_def by (auto simp: field_simps; linarith)+

lemma round_half_even_int [simp]: "round_half_even (of_int n) = n"
  by (simp add: round_half_even_def)

primrec tick_time :: "rat \<Rightarrow> nat \<Rightarrow> rat" where
  "tick_time step 0 = 0"
| "tick_time step (Suc j) = next_time step (tick_time step j)"

lemma tick_grid: "\<exists>n. tick_time step j * 1000000 = of_int n"
  by (cases j) (auto simp: next_time_def intro: exI [of _ 0])

text \<open>With an interval of a microsecond or more, time advances; rounding moves an instant by half a microsecond at most.\<close>

lemma tick_time_step:
  assumes "1 / 1000000 \<le> step"
  shows "tick_time step j + 1 / 1000000 \<le> tick_time step (Suc j)" "tick_time step (Suc j) \<le> tick_time step j + step + 1 / 2000000"
proof -
  obtain n where n: "tick_time step j * 1000000 = of_int n" using tick_grid by blast
  let ?x = "(tick_time step j + step) * 1000000"
  have "of_int (n + 1) \<le> ?x" using n assms by (simp add: algebra_simps)
  then have "n + 1 \<le> \<lfloor>?x\<rfloor>" by (simp add: le_floor_iff)
  moreover have "\<lfloor>?x\<rfloor> \<le> round_half_even ?x" by (simp add: round_half_even_def Let_def)
  ultimately have "of_int (n + 1) \<le> (of_int (round_half_even ?x) :: rat)" by simp
  then show "tick_time step j + 1 / 1000000 \<le> tick_time step (Suc j)" using n by (simp add: next_time_def field_simps)
  show "tick_time step (Suc j) \<le> tick_time step j + step + 1 / 2000000"
    using round_half_even_bounds(2) [of ?x] by (simp add: next_time_def field_simps)
qed

lemma tick_time_mono: "1 / 1000000 \<le> step \<Longrightarrow> i < j \<Longrightarrow> tick_time step i < tick_time step j"
proof (induction j)
  case (Suc j)
  then have "tick_time step i \<le> tick_time step j" by (cases "i = j") auto
  then show ?case using tick_time_step(1) [OF Suc.prems(1), of j] by simp
qed simp

lemma tick_time_ge: "1 / 1000000 \<le> step \<Longrightarrow> of_nat j / 1000000 \<le> tick_time step j"
proof (induction j)
  case (Suc j)
  then show ?case using tick_time_step(1) [OF Suc.prems, of j] by (simp add: field_simps)
qed simp

lemma last_tick:
  assumes "1 / 1000000 \<le> step"
  shows "\<exists>N. \<not> tick_time step N < E \<and> (\<forall>j < N. tick_time step j < E)"
proof -
  obtain n :: nat where "E * 1000000 < of_nat n" using reals_Archimedean2 by blast
  then have "\<not> tick_time step n < E" using tick_time_ge [OF assms, of n] by (simp add: field_simps)
  then show ?thesis using exists_least_iff [of "\<lambda>n. \<not> tick_time step n < E"] by auto
qed

section \<open>The published context\<close>

text \<open>What a subscriber holds: the patches merged in order. A field of one of its objects.\<close>

definition context_at :: "(rat \<times> ctx) list \<Rightarrow> rat \<Rightarrow> ctx" where
  "context_at out t = fold (\<lambda>(u, patch) c. deep_merge c patch) (filter (\<lambda>(u, patch). u \<le> t) out) []"

definition field_of :: "ctx \<Rightarrow> string \<Rightarrow> string \<Rightarrow> json option" where
  "field_of c k name = (case map_of c k of Some (JObj d) \<Rightarrow> map_of d name | _ \<Rightarrow> None)"

lemma map_of_as_floats: "map_of (map (\<lambda>(k, v). (k, JFloat (Fin v))) d) k = map_option (\<lambda>v. JFloat (Fin v)) (map_of d k)"
  by (induction d) auto

lemma field_of_merge:
  assumes "wf_dict patch" "map_of patch k = Some (as_floats d)" "wf_dict d"
  shows "field_of (deep_merge c patch) k name = (case map_of d name of Some v \<Rightarrow> Some (JFloat (Fin v)) | None \<Rightarrow> field_of c k name)"
proof -
  let ?d = "map (\<lambda>(k, v). (k, JFloat (Fin v))) d"
  have wf: "wf_dict ?d" using assms(3) by (simp add: comp_def case_prod_beta)
  show ?thesis using assms(1,2) map_of_deep_merge [OF wf, of _ name]
    by (auto simp: field_of_def map_of_deep_merge as_floats_def merge_value_def map_of_as_floats split: option.splits json.splits)
qed

lemma field_of_merge_other: "wf_dict patch \<Longrightarrow> map_of patch k = None \<Longrightarrow> field_of (deep_merge c patch) k name = field_of c k name"
  by (simp add: field_of_def map_of_deep_merge)

text \<open>The loop over the tags publishes exactly the values that differ from the last published ones.\<close>

lemma changed_tags_spec:
  assumes "distinct (map fst rates)" "\<forall>(name, rate) \<in> set rates. sample sensors cycle offset name rate \<noteq> None"
  shows "\<exists>tele latest'. changed_tags sensors cycle offset rates latest = Some (tele, latest') \<and> wf_dict tele \<and>
    (\<forall>name. map_of tele name = (case map_of rates name of None \<Rightarrow> None
       | Some rate \<Rightarrow> if sample sensors cycle offset name rate = map_of latest name then None else sample sensors cycle offset name rate)) \<and>
    (\<forall>name. map_of latest' name = (case map_of rates name of None \<Rightarrow> map_of latest name | Some rate \<Rightarrow> sample sensors cycle offset name rate))"
  using assms
proof (induction rates arbitrary: latest)
  case (Cons nr rates)
  obtain n r where nr: "nr = (n, r)" by (cases nr)
  obtain v where v: "sample sensors cycle offset n r = Some v" using Cons.prems(2) nr by auto
  have fresh: "map_of rates n = None" using Cons.prems(1) nr by (simp add: map_of_eq_None_iff)
  have prems: "distinct (map fst rates)" "\<forall>(name, rate) \<in> set rates. sample sensors cycle offset name rate \<noteq> None" using Cons.prems by auto
  let ?next = "if map_of latest n = Some v then latest else dict_set n v latest"
  have latest: "map_of ?next name = (if name = n then Some v else map_of latest name)" for name by simp
  obtain tele latest' where IH: "changed_tags sensors cycle offset rates ?next = Some (tele, latest')" "wf_dict tele"
    "\<And>name. map_of tele name = (case map_of rates name of None \<Rightarrow> None
       | Some rate \<Rightarrow> if sample sensors cycle offset name rate = map_of ?next name then None else sample sensors cycle offset name rate)"
    "\<And>name. map_of latest' name = (case map_of rates name of None \<Rightarrow> map_of ?next name | Some rate \<Rightarrow> sample sensors cycle offset name rate)"
    using Cons.IH [OF prems, of ?next] by blast
  let ?tele = "if map_of latest n = Some v then tele else (n, v) # tele"
  have "n \<notin> fst ` set tele" using IH(3) [of n] fresh by (simp add: map_of_eq_None_iff)
  then have "wf_dict ?tele" using IH(2) by simp
  moreover have "changed_tags sensors cycle offset (nr # rates) latest = Some (?tele, latest')" using nr v IH(1) by (auto split: if_splits)
  moreover have "map_of ?tele name = (case map_of (nr # rates) name of None \<Rightarrow> None
       | Some rate \<Rightarrow> if sample sensors cycle offset name rate = map_of latest name then None else sample sensors cycle offset name rate)" for name
    using IH(3) [of name] v nr fresh unfolding latest by (auto split: option.splits)
  moreover have "map_of latest' name = (case map_of (nr # rates) name of None \<Rightarrow> map_of latest name | Some rate \<Rightarrow> sample sensors cycle offset name rate)" for name
    using IH(4) [of name] v nr fresh unfolding latest by (auto split: option.splits)
  ultimately show ?case by (intro exI [of _ ?tele] exI [of _ latest'] conjI allI)
qed simp

text \<open>A recording of \<^term>\<open>n\<close> cycles.\<close>

definition recorded :: "sensors \<Rightarrow> readings list \<Rightarrow> bool" where
  "recorded sensors profile \<longleftrightarrow>
     list_all (\<lambda>(name, rate). case map_of sensors name of None \<Rightarrow> False
        | Some cycles \<Rightarrow> length profile \<le> length cycles \<and> [] \<notin> set cycles) RATES_HZ \<and>
     list_all wf_dict profile"

lemma recorded_sample:
  assumes "recorded sensors profile" "(name, rate) \<in> set RATES_HZ" "cycle < length profile"
  shows "sample sensors cycle offset name rate \<noteq> None"
proof -
  obtain cycles where c: "map_of sensors name = Some cycles" "length profile \<le> length cycles" "[] \<notin> set cycles"
    using assms(1,2) unfolding recorded_def list_all_iff by (auto split: option.splits)
  then have "cycles ! cycle \<noteq> []" using assms(3) nth_mem [of cycle cycles] order_less_le_trans by metis
  then show ?thesis using c assms(3) by (simp add: sample_def)
qed

lemma RATES_distinct: "distinct (map fst RATES_HZ)"
  by code_simp

lemma cycle_bounds:
  assumes "0 \<le> t" "t < of_nat n * CYCLE_S"
  shows "cycle_of t < n"
proof -
  have "t / CYCLE_S < of_nat n" using assms(2) by (simp add: CYCLE_S_def field_simps)
  then have "\<lfloor>t / CYCLE_S\<rfloor> < int n" by (simp add: floor_less_iff)
  moreover have "0 \<le> \<lfloor>t / CYCLE_S\<rfloor>" using assms(1) by (simp add: CYCLE_S_def)
  ultimately show ?thesis by (simp add: cycle_of_def nat_less_iff)
qed

section \<open>The loop, tick by tick\<close>

text \<open>What has been published before tick \<^term>\<open>j\<close>, and the last published values.\<close>

primrec ticks :: "sensors \<Rightarrow> readings list \<Rightarrow> rat \<Rightarrow> nat \<Rightarrow> (rat \<times> ctx) list \<times> readings" where
  "ticks sensors profile step 0 = ([], [])"
| "ticks sensors profile step (Suc j) =
     (case ticks sensors profile step j of (out, latest) \<Rightarrow>
        case tick sensors profile step (tick_time step j) latest of
          None \<Rightarrow> (out, latest)
        | Some (patch, latest') \<Rightarrow> ((if patch \<noteq> [] then out @ [(tick_time step j, patch)] else out), latest'))"

definition merged :: "(rat \<times> ctx) list \<Rightarrow> ctx" where
  "merged out = fold (\<lambda>(u, patch) c. deep_merge c patch) out []"

lemma merged_snoc [simp]: "merged (out @ [(t, patch)]) = deep_merge (merged out) patch" "merged [] = []"
  by (simp_all add: merged_def)

text \<open>One tick of a recording: it succeeds, and its patch brings the fields up to date.\<close>

lemma tick_spec:
  assumes "recorded sensors profile" "0 \<le> t" "t < of_nat (length profile) * CYCLE_S"
  shows "\<exists>patch latest'. tick sensors profile step t latest = Some (patch, latest') \<and> wf_dict patch \<and>
    (\<forall>name rate. map_of RATES_HZ name = Some rate \<longrightarrow> map_of latest' name = sample sensors (cycle_of t) (within_cycle t) name rate) \<and>
    (\<forall>c name. field_of (deep_merge c patch) ''telemetry'' name =
       (if map_of latest' name = map_of latest name then field_of c ''telemetry'' name else map_option (\<lambda>v. JFloat (Fin v)) (map_of latest' name))) \<and>
    (\<forall>name v. field_of patch ''telemetry'' name = Some v \<longrightarrow> (\<exists>x. v = JFloat (Fin x) \<and> map_of latest' name = Some x \<and> map_of latest name \<noteq> Some x)) \<and>
    (\<forall>c name. field_of (deep_merge c patch) ''rig'' name =
       (if within_cycle t < step
        then (case map_of (profile ! cycle_of t) name of Some v \<Rightarrow> Some (JFloat (Fin v)) | None \<Rightarrow> field_of c ''rig'' name)
        else field_of c ''rig'' name))"
proof -
  have cyc: "cycle_of t < length profile" by (rule cycle_bounds [OF assms(2,3)])
  have "\<forall>(name, rate) \<in> set RATES_HZ. sample sensors (cycle_of t) (within_cycle t) name rate \<noteq> None"
    using recorded_sample [OF assms(1) _ cyc] by blast
  from changed_tags_spec [OF RATES_distinct this, of latest] obtain tele latest' where
    c: "changed_tags sensors (cycle_of t) (within_cycle t) RATES_HZ latest = Some (tele, latest')" "wf_dict tele"
    and tele: "\<And>name. map_of tele name = (case map_of RATES_HZ name of None \<Rightarrow> None
       | Some rate \<Rightarrow> if sample sensors (cycle_of t) (within_cycle t) name rate = map_of latest name then None else sample sensors (cycle_of t) (within_cycle t) name rate)"
    and last: "\<And>name. map_of latest' name = (case map_of RATES_HZ name of None \<Rightarrow> map_of latest name | Some rate \<Rightarrow> sample sensors (cycle_of t) (within_cycle t) name rate)"
    by blast
  let ?patch = "(if tele \<noteq> [] then [(''telemetry'', as_floats tele)] else []) @
                (if within_cycle t < step then [(''rig'', as_floats (profile ! cycle_of t))] else [])"
  have t: "tick sensors profile step t latest = Some (?patch, latest')" using c(1) by (simp add: tick_def)
  have wf: "wf_dict ?patch" by simp
  have row: "wf_dict (profile ! cycle_of t)" using assms(1) cyc by (simp add: recorded_def list_all_length)
  have keys: "map_of ?patch ''telemetry'' = (if tele \<noteq> [] then Some (as_floats tele) else None)"
    "map_of ?patch ''rig'' = (if within_cycle t < step then Some (as_floats (profile ! cycle_of t)) else None)" by simp_all
  have pub: "map_of tele name = (if map_of latest' name = map_of latest name then None else map_of latest' name)" for name
    unfolding tele last by (simp split: option.split)
  have same: "map_of latest' name = map_of latest name" if "map_of latest' name = None" for name
  proof (cases "map_of RATES_HZ name")
    case (Some rate)
    then show ?thesis using that last [of name] recorded_sample [OF assms(1) map_of_SomeD [OF Some] cyc, of "within_cycle t"] by simp
  qed (simp add: last)
  have 1: "field_of (deep_merge c ?patch) ''telemetry'' name =
       (if map_of latest' name = map_of latest name then field_of c ''telemetry'' name else map_option (\<lambda>v. JFloat (Fin v)) (map_of latest' name))" for c name
  proof (cases "tele = []")
    case True
    then have "map_of latest' name = map_of latest name \<or> map_of latest' name = None" using pub [of name] by (simp split: if_splits)
    then show ?thesis using same [of name] field_of_merge_other [OF wf, of "''telemetry''"] keys(1) True by auto
  next
    case False
    then show ?thesis using same [of name] field_of_merge [OF wf, of "''telemetry''" tele c name] keys(1) False c(2) pub [of name] by (auto split: option.splits)
  qed
  have 2: "\<exists>x. v = JFloat (Fin x) \<and> map_of latest' name = Some x \<and> map_of latest name \<noteq> Some x" if "field_of ?patch ''telemetry'' name = Some v" for name v
    using that keys(1) pub [of name] by (auto simp: field_of_def as_floats_def map_of_as_floats split: if_splits option.splits)
  have 3: "field_of (deep_merge c ?patch) ''rig'' name =
       (if within_cycle t < step
        then (case map_of (profile ! cycle_of t) name of Some v \<Rightarrow> Some (JFloat (Fin v)) | None \<Rightarrow> field_of c ''rig'' name)
        else field_of c ''rig'' name)" for c name
    using field_of_merge [OF wf, of "''rig''" _ c name] field_of_merge_other [OF wf, of "''rig''" c name] keys(2) row by auto
  have 4: "map_of latest' name = sample sensors (cycle_of t) (within_cycle t) name rate" if "map_of RATES_HZ name = Some rate" for name rate
    using that last [of name] by simp
  show ?thesis using t wf 1 2 3 4 by (intro exI [of _ ?patch] exI [of _ latest'] conjI allI impI) assumption+
qed

text \<open>The ticks of a recording with a positive step, and what has been published and is current at each.\<close>

abbreviation out_at :: "sensors \<Rightarrow> readings list \<Rightarrow> rat \<Rightarrow> nat \<Rightarrow> (rat \<times> ctx) list" where
  "out_at sensors profile step j \<equiv> fst (ticks sensors profile step j)"

abbreviation latest_at :: "sensors \<Rightarrow> readings list \<Rightarrow> rat \<Rightarrow> nat \<Rightarrow> readings" where
  "latest_at sensors profile step j \<equiv> snd (ticks sensors profile step j)"

definition running :: "sensors \<Rightarrow> readings list \<Rightarrow> rat \<Rightarrow> nat \<Rightarrow> bool" where
  "running sensors profile step j \<longleftrightarrow>
     recorded sensors profile \<and> 1 / 1000000 \<le> step \<and> tick_time step j < of_nat (length profile) * CYCLE_S"

lemma running_le: "running sensors profile step j \<Longrightarrow> i \<le> j \<Longrightarrow> running sensors profile step i"
  using tick_time_mono [of step i j] by (cases "i = j") (auto simp: running_def)

lemma tick_time_nonneg: "1 / 1000000 \<le> step \<Longrightarrow> 0 \<le> tick_time step j"
  using tick_time_mono [of step 0 j] by (cases j) auto

lemma tick_at:
  assumes "running sensors profile step j"
  obtains patch where "tick sensors profile step (tick_time step j) (latest_at sensors profile step j) = Some (patch, latest_at sensors profile step (Suc j))"
    "out_at sensors profile step (Suc j) =
       (if patch \<noteq> [] then out_at sensors profile step j @ [(tick_time step j, patch)] else out_at sensors profile step j)"
    "merged (out_at sensors profile step (Suc j)) = deep_merge (merged (out_at sensors profile step j)) patch"
proof -
  obtain patch latest' where "tick sensors profile step (tick_time step j) (latest_at sensors profile step j) = Some (patch, latest')"
    using tick_spec [of sensors profile "tick_time step j" step "latest_at sensors profile step j"] tick_time_nonneg [of step j] assms by (auto simp: running_def)
  then show ?thesis by (intro that [of patch]) (auto split: prod.split)
qed

text \<open>The loop ends, with what the ticks have published.\<close>

lemma loop_ticks:
  assumes "\<forall>i < N. running sensors profile step i" "\<not> tick_time step N < of_nat (length profile) * CYCLE_S" "j \<le> N"
  shows "notification_loop sensors profile step (tick_time step j) (latest_at sensors profile step j) (out_at sensors profile step j) = Some (out_at sensors profile step N)"
  using assms(3)
proof (induction rule: inc_induct)
  case base
  then show ?case using assms(2) by (subst notification_loop.simps) simp
next
  case (step n)
  then obtain patch where "tick sensors profile step (tick_time step n) (latest_at sensors profile step n) = Some (patch, latest_at sensors profile step (Suc n))"
    "out_at sensors profile step (Suc n) = (if patch \<noteq> [] then out_at sensors profile step n @ [(tick_time step n, patch)] else out_at sensors profile step n)"
    using assms(1) tick_at by metis
  moreover have "tick_time step n < of_nat (length profile) * CYCLE_S" using assms(1) step(2) by (simp add: running_def)
  ultimately show ?case using step.IH by (subst notification_loop.simps) simp
qed

text \<open>What the subscriber holds of the sensors is what was published last.\<close>

lemma telemetry_at:
  assumes "\<forall>i < j. running sensors profile step i"
  shows "field_of (merged (out_at sensors profile step j)) ''telemetry'' name = map_option (\<lambda>v. JFloat (Fin v)) (map_of (latest_at sensors profile step j) name)"
  using assms
proof (induction j)
  case (Suc j)
  then have r: "running sensors profile step j" by simp
  from tick_at [OF this] obtain patch where p:
    "tick sensors profile step (tick_time step j) (latest_at sensors profile step j) = Some (patch, latest_at sensors profile step (Suc j))"
    "merged (out_at sensors profile step (Suc j)) = deep_merge (merged (out_at sensors profile step j)) patch" by metis
  have "field_of (deep_merge (merged (out_at sensors profile step j)) patch) ''telemetry'' name =
      (if map_of (latest_at sensors profile step (Suc j)) name = map_of (latest_at sensors profile step j) name
       then field_of (merged (out_at sensors profile step j)) ''telemetry'' name
       else map_option (\<lambda>v. JFloat (Fin v)) (map_of (latest_at sensors profile step (Suc j)) name))"
    using tick_spec [of sensors profile "tick_time step j" step "latest_at sensors profile step j"] tick_time_nonneg [of step j] r p(1)
    by (auto simp: running_def simp del: ticks.simps)
  then show ?case using Suc p(2) by (simp del: ticks.simps)
qed (simp add: field_of_def)

lemma published_at:
  assumes "running sensors profile step j" "map_of RATES_HZ name = Some rate"
  shows "map_of (latest_at sensors profile step (Suc j)) name =
    sample sensors (cycle_of (tick_time step j)) (within_cycle (tick_time step j)) name rate"
proof -
  from tick_at [OF assms(1)] obtain patch where
    "tick sensors profile step (tick_time step j) (latest_at sensors profile step j) = Some (patch, latest_at sensors profile step (Suc j))" by metis
  then show ?thesis
    using tick_spec [of sensors profile "tick_time step j" step "latest_at sensors profile step j"] tick_time_nonneg [of step j] assms
    by (auto simp: running_def simp del: ticks.simps)
qed

text \<open>Every load cycle that has a tick has one near its start: rounding does not skip the first one.\<close>

lemma same_cycle:
  assumes "1 / 1000000 \<le> step" "step \<le> within_cycle (tick_time step (Suc j))"
  shows "cycle_of (tick_time step j) = cycle_of (tick_time step (Suc j))"
proof -
  let ?t = "tick_time step (Suc j)" and ?u = "tick_time step j"
  obtain n where n: "?u * 1000000 = of_int n" using tick_grid by blast
  let ?c = "\<lfloor>?t / CYCLE_S\<rfloor>"
  have "CYCLE_S * of_int ?c + step \<le> ?t" using assms(2) by (simp add: within_cycle_def)
  then have "60 * of_int ?c \<le> ?u + 1 / 2000000" using tick_time_step(2) [OF assms(1), of j] by (simp add: CYCLE_S_def)
  then have "of_int (60000000 * ?c) \<le> of_int n + (1 / 2 :: rat)" using n by (simp add: field_simps)
  then have "60000000 * ?c \<le> n" by linarith
  then have "of_int (60000000 * ?c) \<le> (of_int n :: rat)" by (simp only: of_int_le_iff)
  then have "of_int ?c \<le> ?u / CYCLE_S" using n by (simp add: CYCLE_S_def field_simps)
  moreover have "?u / CYCLE_S < of_int ?c + 1"
  proof -
    have "?u / CYCLE_S \<le> ?t / CYCLE_S" using tick_time_step(1) [OF assms(1), of j] by (simp add: CYCLE_S_def)
    also have "?t / CYCLE_S < of_int ?c + 1" using floor_correct [of "?t / CYCLE_S"] by simp
    finally show ?thesis .
  qed
  ultimately have "\<lfloor>?u / CYCLE_S\<rfloor> = ?c" by (intro floor_unique) auto
  then show ?thesis by (simp add: cycle_of_def)
qed

lemma rig_at:
  assumes "\<forall>i \<le> j. running sensors profile step i" "map_of (profile ! cycle_of (tick_time step j)) name = Some v"
  shows "field_of (merged (out_at sensors profile step (Suc j))) ''rig'' name = Some (JFloat (Fin v))"
  using assms
proof (induction j)
  case 0
  then have r: "running sensors profile step 0" by simp
  from tick_at [OF this] obtain patch where p:
    "tick sensors profile step (tick_time step 0) (latest_at sensors profile step 0) = Some (patch, latest_at sensors profile step (Suc 0))"
    "merged (out_at sensors profile step (Suc 0)) = deep_merge (merged (out_at sensors profile step 0)) patch" by metis
  have "within_cycle (tick_time step 0) < step" using r by (simp add: within_cycle_def running_def)
  then show ?case
    using tick_spec [of sensors profile "tick_time step 0" step "latest_at sensors profile step 0"] r p 0(2)
    by (auto simp: running_def simp del: ticks.simps)
next
  case (Suc j)
  then have r: "running sensors profile step (Suc j)" by simp
  from tick_at [OF this] obtain patch where p:
    "tick sensors profile step (tick_time step (Suc j)) (latest_at sensors profile step (Suc j)) = Some (patch, latest_at sensors profile step (Suc (Suc j)))"
    "merged (out_at sensors profile step (Suc (Suc j))) = deep_merge (merged (out_at sensors profile step (Suc j))) patch" by metis
  have f: "field_of (deep_merge (merged (out_at sensors profile step (Suc j))) patch) ''rig'' name =
      (if within_cycle (tick_time step (Suc j)) < step
       then (case map_of (profile ! cycle_of (tick_time step (Suc j))) name of Some v \<Rightarrow> Some (JFloat (Fin v))
             | None \<Rightarrow> field_of (merged (out_at sensors profile step (Suc j))) ''rig'' name)
       else field_of (merged (out_at sensors profile step (Suc j))) ''rig'' name)"
    using tick_spec [of sensors profile "tick_time step (Suc j)" step "latest_at sensors profile step (Suc j)"] tick_time_nonneg [of step "Suc j"] r p(1)
    by (auto simp: running_def simp del: ticks.simps tick_time.simps)
  show ?case
  proof (cases "within_cycle (tick_time step (Suc j)) < step")
    case True
    then show ?thesis using f p(2) Suc.prems(2) by (simp del: ticks.simps tick_time.simps)
  next
    case False
    then have "cycle_of (tick_time step j) = cycle_of (tick_time step (Suc j))" using r by (intro same_cycle) (simp_all add: running_def)
    then have "field_of (merged (out_at sensors profile step (Suc j))) ''rig'' name = Some (JFloat (Fin v))"
      using Suc.prems by (intro Suc.IH) (simp_all del: ticks.simps tick_time.simps)
    then show ?thesis using f p(2) False by (simp del: ticks.simps tick_time.simps)
  qed
qed

text \<open>The notifications are in the order of their instants, so those up to a tick are what the ticks up to it have published.\<close>

lemma out_times: "(u, patch) \<in> set (out_at sensors profile step j) \<Longrightarrow> \<exists>i < j. u = tick_time step i"
proof (induction j)
  case (Suc j)
  then show ?case by (auto split: prod.splits option.splits if_splits simp: less_Suc_eq)
qed simp

lemma context_at_tick:
  assumes "1 / 1000000 \<le> step" "j < N"
  shows "context_at (out_at sensors profile step N) (tick_time step j) = merged (out_at sensors profile step (Suc j))"
proof -
  have "filter (\<lambda>(u, patch). u \<le> tick_time step j) (out_at sensors profile step (Suc (j + d))) = out_at sensors profile step (Suc j)" for d
  proof (induction d)
    case 0
    have "u \<le> tick_time step j" if "(u, patch) \<in> set (out_at sensors profile step (Suc j))" for u patch
    proof -
      obtain i where "i < Suc j" "u = tick_time step i" using out_times \<open>(u, patch) \<in> set (out_at sensors profile step (Suc j))\<close> by blast
      then show ?thesis using tick_time_mono [OF assms(1), of i j] by (cases "i = j") auto
    qed
    then show ?case by (auto simp: filter_id_conv simp del: ticks.simps)
  next
    case (Suc d)
    have "tick_time step j < tick_time step (Suc (j + d))" by (rule tick_time_mono [OF assms(1)]) simp
    then have "filter (\<lambda>(u, patch). u \<le> tick_time step j) (out_at sensors profile step (Suc (Suc (j + d)))) =
        filter (\<lambda>(u, patch). u \<le> tick_time step j) (out_at sensors profile step (Suc (j + d)))"
      by (subst ticks.simps) (auto split: prod.splits option.splits simp del: ticks.simps tick_time.simps)
    then show ?case using Suc by (simp del: ticks.simps)
  qed
  from this [of "N - Suc j"] show ?thesis using assms(2) by (simp add: context_at_def merged_def del: ticks.simps)
qed

lemma out_changes:
  assumes "\<forall>i < j. running sensors profile step i" "k < length (out_at sensors profile step j)"
    and "field_of (snd (out_at sensors profile step j ! k)) ''telemetry'' name = Some v"
  shows "field_of (merged (take k (out_at sensors profile step j))) ''telemetry'' name \<noteq> Some v"
  using assms
proof (induction j)
  case (Suc j)
  then have r: "running sensors profile step j" by simp
  from tick_at [OF this] obtain patch where p:
    "tick sensors profile step (tick_time step j) (latest_at sensors profile step j) = Some (patch, latest_at sensors profile step (Suc j))"
    "out_at sensors profile step (Suc j) =
       (if patch \<noteq> [] then out_at sensors profile step j @ [(tick_time step j, patch)] else out_at sensors profile step j)" by metis
  show ?case
  proof (cases "k < length (out_at sensors profile step j)")
    case True
    then have "out_at sensors profile step (Suc j) ! k = out_at sensors profile step j ! k"
      "take k (out_at sensors profile step (Suc j)) = take k (out_at sensors profile step j)" unfolding p(2) by (simp_all add: nth_append)
    then show ?thesis using Suc True by (simp del: ticks.simps)
  next
    case False
    then have k: "k = length (out_at sensors profile step j)" "patch \<noteq> []" using Suc.prems(2) unfolding p(2) by (auto split: if_splits)
    have "field_of patch ''telemetry'' name = Some v" using Suc.prems(3) k unfolding p(2) by simp
    moreover have "\<forall>name v. field_of patch ''telemetry'' name = Some v \<longrightarrow> (\<exists>x. v = JFloat (Fin x) \<and>
        map_of (latest_at sensors profile step (Suc j)) name = Some x \<and> map_of (latest_at sensors profile step j) name \<noteq> Some x)"
      using tick_spec [of sensors profile "tick_time step j" step "latest_at sensors profile step j"] tick_time_nonneg [of step j] r p(1)
      by (auto simp: running_def simp del: ticks.simps)
    ultimately obtain x where "v = JFloat (Fin x)" "map_of (latest_at sensors profile step j) name \<noteq> Some x" by blast
    moreover have "field_of (merged (out_at sensors profile step j)) ''telemetry'' name = map_option (\<lambda>v. JFloat (Fin v)) (map_of (latest_at sensors profile step j) name)"
      using Suc.prems(1) by (intro telemetry_at) simp
    moreover have "take k (out_at sensors profile step (Suc j)) = out_at sensors profile step j" unfolding p(2) k(1) by simp
    ultimately show ?thesis by (auto simp del: ticks.simps)
  qed
qed simp

section \<open>Properties\<close>


definition demo_sensors :: sensors where
  "demo_sensors = map (\<lambda>(name, rate). (name, [[1, 2]])) RATES_HZ"


end
