(* ===== verification/Spec2Isabelle.thy ===== *)
theory Spec2Isabelle
  imports Stack_Properties Batch_Properties Runtime_Defects Trace_Sensitivity Trials Outbox_Faults Telemetry
begin

text \<open>
  XAIR stands between producers of action intents (XR operators, vision, planners) and the actuators of a
  production cell. A producer decides on a context it has seen; when its intent arrives, that context may have
  changed. XAIR validates an intent against a versioned context snapshot, and releases it only if nothing its
  predicates depend on has changed since. This development models the Python sources under \<^verbatim>\<open>src/xair\<close> and the
  gateway and controller scripts under \<^verbatim>\<open>src/scripts\<close>, and proves what the code promises.

  \<^bold>\<open>Parts and theories\<close> (in the order of their dependencies; each definition has the name of its source symbol
  where HOL allows it):

  \<^item> \<^verbatim>\<open>Xair_Prelude\<close>: Python's strings, dictionaries (association lists in insertion order), number texts and the
    collections of lemmas the components share.
  \<^item> \<^verbatim>\<open>Json_Context\<close>, \<^verbatim>\<open>Versioning\<close> (\<^verbatim>\<open>core/deep_merge.py\<close>, \<^verbatim>\<open>core/versioning.py\<close>): JSON values, deep merge, leaf paths,
    change detection, read-sets and versions.
  \<^item> \<^verbatim>\<open>Predicates\<close> (\<^verbatim>\<open>core/context_validator.py\<close>): the predicate grammar, typed comparison, conjunction with its time bound.
  \<^item> \<^verbatim>\<open>Intent_Model\<close>, \<^verbatim>\<open>Temporal\<close>, \<^verbatim>\<open>Lifecycle\<close> (\<^verbatim>\<open>core/models.py\<close>, \<^verbatim>\<open>temporal_validator.py\<close>, \<^verbatim>\<open>lifecycle.py\<close>): intents and
    records, the age checks with the clock uncertainty, the state machine with its audit trail.
  \<^item> \<^verbatim>\<open>Context_Store\<close>, \<^verbatim>\<open>Redis_Layouts\<close>, \<^verbatim>\<open>Store\<close> (\<^verbatim>\<open>core/context_store.py\<close>): the snapshot document with path and truth
    versions, the document, hash and shard layouts in Redis, the commit script and the public operations.
  \<^item> \<^verbatim>\<open>Dispatch\<close>, \<^verbatim>\<open>Runtime\<close>, \<^verbatim>\<open>Runtime_Steps\<close>, \<^verbatim>\<open>Runtime_Invariants\<close>, \<^verbatim>\<open>Runtime_Properties\<close>, \<^verbatim>\<open>Runtime_Defects\<close>
    (\<^verbatim>\<open>core/intent_receiver.py\<close>, \<^verbatim>\<open>coordinator.py\<close>, \<^verbatim>\<open>execution_decision.py\<close>, \<^verbatim>\<open>runtime.py\<close>): queue, locks, decision table,
    and every operation of the runtime as a function in a state-and-exception type.
  \<^item> \<^verbatim>\<open>Server\<close>, \<^verbatim>\<open>Batch\<close>, \<^verbatim>\<open>Server_Properties\<close>, \<^verbatim>\<open>Batch_Properties\<close> (\<^verbatim>\<open>adapters/runtime_state.py\<close>,
    \<^verbatim>\<open>adapters/http_server.py\<close>): the process state and the HTTP handlers, for single intents and for batches.
  \<^item> \<^verbatim>\<open>Consumer\<close> (\<^verbatim>\<open>adapters/actuation_consumer.py\<close>): the consumer of the actuation log and its two actuators.
  \<^item> \<^verbatim>\<open>Cell\<close>, \<^verbatim>\<open>Plc\<close> (\<^verbatim>\<open>scripts/cell_controller.py\<close>, \<^verbatim>\<open>cell_controller_multi.py\<close>, \<^verbatim>\<open>plc_modbus.py\<close>,
    \<^verbatim>\<open>docker/openplc/cell_ctl.st\<close>): the emulated controller, and the PLC program on 16-bit registers with its client.
  \<^item> \<^verbatim>\<open>Gateway\<close>, \<^verbatim>\<open>Gateway_Properties\<close> (\<^verbatim>\<open>scripts/actuator_gateway.py\<close>): the gateway's policies, over any services
    (the record \<^verbatim>\<open>api\<close>).
  \<^item> \<^verbatim>\<open>Stack\<close>, \<^verbatim>\<open>Stack_Properties\<close> (\<^verbatim>\<open>scripts/xair_http_client.py\<close> and the request handlers of the gateway): the
    gateway, its client, the server and the controllers as one system.
  \<^item> \<^verbatim>\<open>Timeline\<close>, \<^verbatim>\<open>Trace_Replay\<close>, \<^verbatim>\<open>Trace_Sensitivity\<close> (\<^verbatim>\<open>experiments/mes_trace.py\<close>, \<^verbatim>\<open>run_e20_mes.py\<close>): the production log that drives the context
    in the replay experiment, and the exact drift fractions, and the labels and counts of its trials.
  \<^item> \<^verbatim>\<open>Trials\<close> (\<^verbatim>\<open>experiments/run_e10_toctou.py\<close>, \<^verbatim>\<open>run_e10_aba.py\<close>, \<^verbatim>\<open>run_e21_cell.py\<close> and \<^verbatim>\<open>_aba_class\<close> of
    \<^verbatim>\<open>aggregate_experiment_results.py\<close>): how trials with an injected pause are labelled, on top of the models of the services.
  \<^item> \<^verbatim>\<open>Outbox_Faults\<close> (\<^verbatim>\<open>experiments/run_e18_outbox_faults.py\<close>): the fault scenarios of the actuation log, composed of the
    store and the consumer; the threads of one scenario are interleavings of their programs.
  \<^item> \<^verbatim>\<open>Telemetry\<close> (\<^verbatim>\<open>experiments/uci_hydraulic.py\<close>): a recording as a stream of context updates.

  \<^bold>\<open>How the parts interact.\<close> The gateway submits an intent to the server; the server admits it, claims its id in the store, adds the
  stop predicate of its target and the predicates of the policy, registers all of them, validates on the snapshot
  read in the same step and answers. In the optimistic mode the gateway reads a new snapshot before it releases and
  compares versions; in the atomic mode it asks the server to commit, and the store compares the version and
  appends to the actuation log in one step. The gateway then calls ROS or a controller, and reports back. The consumer
  follows the actuation log with a durable offset. The server's state is \<^typ>\<open>server\<close> (a \<^typ>\<open>runtime\<close> and a
  \<^typ>\<open>store\<close>); a handler is a function from a server to a server and a \<^typ>\<open>'a reply\<close>, and \<^const>\<open>Http\<close> is a raised
  \<^verbatim>\<open>HTTPException\<close>. Operations of the runtime return \<^typ>\<open>rt_error + 'a\<close>. The system of \<^verbatim>\<open>Stack\<close> counts its calls, and
  the \<^typ>\<open>world\<close> says for each what other processes did before it and whether request and reply arrive.

  \<^bold>\<open>What is shown.\<close>

  \<^item> Versions: an unchanged read-set version or truth version rules out any change of a verdict in between, also one that
    was undone. The argument is the locale \<^verbatim>\<open>versioned_view\<close>, interpreted for both version functions and for the version
    of the cell controller. Change detection misses no change a predicate can observe, and the predicate parser accepts
    exactly its grammar.
  \<^item> Store: the commit decides exactly under its conditions, at most once for an id; the Lua script decides like the memory store; the
    transactions of several processes on the document layout are equivalent to a sequential run; without a reachable
    Redis nothing advances.
  \<^item> Runtime: the outcome of a validation on every branch; runs as an inductive relation that keeps the records
    consistent and moves along the state machine; release decisions are final; a stop is always authorized. The queue is
    an instance of the locale \<^verbatim>\<open>keyed_queue\<close>.
  \<^item> Consumer: effects at most once under crashes and store failures, and all of them, in commit order, after a poll that
    goes through; both actuators are instances of the locale \<^verbatim>\<open>actuator\<close>.
  \<^item> Controllers: with guarded commands the conveyor runs in RUN only; the PLC program refines the emulated controller, up to
    the wrap-around of its 30-bit version.
  \<^item> Server, gateway and the whole: a commit means that every predicate was true from validation to commit; a release in the
    atomic mode means such a commit, with other processes at work and messages lost; a release in the optimistic mode
    means a passed recheck; nothing is released while the services are down; a batch causes no conflict.
  \<^item> Replay: the timeline is the step function of its log, the event stream follows it, the exact drift fractions measure what
    the sampling counts, and the labels of the trials that are not ambiguous are those of the context.
  \<^item> Experiments: the labels of the trials with an injected pause say what happened in the models of the services, and the
    modes that claim to exclude a label do exclude it; every fault scenario of the log yields the row it is meant to yield; the
    telemetry stream, merged, is the recording.
  \<^item> Where the code does not keep its promises: a lock that is not exclusive, a drain loop that does not end, a record left
    in \<^const>\<open>VALIDATING\<close>, an executed command recorded as withheld, a batch validated on an untrusted snapshot.

  \<^bold>\<open>Bounds.\<close> The transaction loop has the 32 attempts of the source (\<^const>\<open>MAX_TX_RETRIES\<close>). \<^verbatim>\<open>process_all\<close> takes fuel: the divergence
  theorem shows that no fuel is enough in the case it describes. \<^verbatim>\<open>notifications\<close> is a partial function, and is shown to
  return for every interval of a microsecond or more. Every other loop is structural or has a
  termination proof. Integers are unbounded as in Python, registers of the PLC are 16 bits wide, binary64 numbers
  of the source are rationals, with infinities and NaN where texts are read. Strings are ASCII.

  \<^bold>\<open>Parameters.\<close> Replies of Redis (\<^typ>\<open>'r io\<close>: no client, a failure, or a reply with the keys read), the JSON-schema
  validator, the ISO time parser, the hash of stop buckets, generated ids, clocks, the policy engine's decisions, and what
  other processes do. The end-to-end theorems are about the memory store; the theorems on layouts and on the script relate it
  to Redis.

  \<^bold>\<open>Not modelled.\<close> The other experiments (\<^verbatim>\<open>src/experiments\<close>), the summaries of the aggregation and the simulation drive the services and evaluate measurements. The Rego
  policy, the ROS, MQTT, OPC UA, Modbus, WebSocket and HTTP transports, JSON texts on the wire, threads inside one
  process beyond the interleaving of store events, and the deployment scripts.
\<close>

end
